(* ===== verification/Prelude.thy ===== *)
theory Prelude
  imports Complex_Main
begin

text \<open>
  What every component shares: Go's error values with their wrapping chain, the library's
  collections of rewrite rules, and the generic list and option lemmas the component
  proofs rest on.

  Go strings and byte slices are byte sequences; \<^typ>\<open>string\<close> is a list of 8-bit
  characters, so it is used for both. Go's \<open>int\<close> and \<open>int64\<close> are \<^typ>\<open>int\<close>; a width
  is written out where a value crosses one (the database's 32-bit and 64-bit columns).
\<close>

named_theorems tx_simps \<open>rewrite rules for the transaction monad and its statements\<close>
named_theorems tx_succ \<open>what a successful run of a statement or transaction body says\<close>
named_theorems dom_simps \<open>the domain's string constants are pairwise different\<close>
named_theorems inv_defs \<open>the conjuncts of the database and system invariants\<close>

section \<open>Go errors\<close>

text \<open>
  The sentinel errors the code compares with \<^verbatim>\<open>errors.Is\<close>, the database driver's errors
  (\<open>ErrDB\<close> stands for any failure of a statement or of the connection), and
  \<^verbatim>\<open>fmt.Errorf("msg: %w", err)\<close> as \<open>Wrap\<close>.
\<close>

datatype go_error =
    ErrNotFound
  | ErrStaleWrite
  | ErrNoRows
  | ErrTooManyRows
  | ErrDB
  | ErrCanceled
  | ErrDecode
  | ErrBroker
  | ErrCompute string
  | Wrap string go_error

primrec errors_Is :: "go_error \<Rightarrow> go_error \<Rightarrow> bool" where
  "errors_Is ErrNotFound t = (t = ErrNotFound)"
| "errors_Is ErrStaleWrite t = (t = ErrStaleWrite)"
| "errors_Is ErrNoRows t = (t = ErrNoRows)"
| "errors_Is ErrTooManyRows t = (t = ErrTooManyRows)"
| "errors_Is ErrDB t = (t = ErrDB)"
| "errors_Is ErrCanceled t = (t = ErrCanceled)"
| "errors_Is ErrDecode t = (t = ErrDecode)"
| "errors_Is ErrBroker t = (t = ErrBroker)"
| "errors_Is (ErrCompute m) t = (t = ErrCompute m)"
| "errors_Is (Wrap m e) t = (t = Wrap m e \<or> errors_Is e t)"

lemma errors_Is_refl [simp]: "errors_Is e e"
  by (cases e) simp_all

section \<open>Lists\<close>

lemma filter_none [simp]: "(\<And>x. x \<in> set xs \<Longrightarrow> \<not> P x) \<Longrightarrow> filter P xs = []"
  by (simp add: filter_empty_conv)

lemma length_filter_all_iff: "length (filter P xs) = length xs \<longleftrightarrow> (\<forall>x \<in> set xs. P x)"
proof -
  have "length (filter P xs) = length xs \<longleftrightarrow> filter P xs = xs"
    using filter_id_conv [of P xs] length_filter_less [of _ xs P] by (metis nat_less_le)
  then show ?thesis by (simp add: filter_id_conv)
qed

lemma filter_singleton_if_distinct:
  "distinct (map f xs) \<Longrightarrow> x \<in> set xs \<Longrightarrow> filter (\<lambda>y. f y = f x) xs = [x]"
proof (induction xs)
  case Nil
  then show ?case by simp
next
  case (Cons y ys)
  show ?case
  proof (cases "y = x")
    case True
    with Cons.prems(1) have "f x \<notin> f ` set ys" by simp
    then have "filter (\<lambda>z. f z = f x) ys = []"
      by (intro filter_none) (metis imageI)
    with True show ?thesis by simp
  next
    case False
    with Cons.prems have "x \<in> set ys" and "f y \<noteq> f x" by auto
    with Cons show ?thesis by simp
  qed
qed

lemma filter_eq_singletonD: "filter P xs = [x] \<Longrightarrow> x \<in> set xs \<and> P x"
  using filter_eq_Cons_iff [of P xs x "[]"] by auto

lemma filter_map_same:
  "(\<And>x. x \<in> set xs \<Longrightarrow> P (f x) = P x) \<Longrightarrow> filter P (map f xs) = map f (filter P xs)"
  by (induction xs) auto

text \<open>Changing one element of a list moves a count by at most one.\<close>

lemma length_filter_update_one:
  assumes "distinct (map k xs)" and "x \<in> set xs" and "k x = i"
    and "\<not> P x" and "P (f x)"
  shows "length (filter P (map (\<lambda>y. if k y = i then f y else y) xs)) = Suc (length (filter P xs))"
  using assms(1,2)
proof (induction xs)
  case Nil
  then show ?case by simp
next
  case (Cons y ys)
  show ?case
  proof (cases "y = x")
    case True
    with Cons.prems(1) assms(3) have "\<forall>z \<in> set ys. k z \<noteq> i" by (auto simp: rev_image_eqI)
    then have "map (\<lambda>y. if k y = i then f y else y) ys = ys" by (simp add: map_idI)
    with True assms(3-5) show ?thesis by simp
  next
    case False
    with Cons.prems have "x \<in> set ys" "k y \<noteq> i" using assms(3) by auto
    with Cons show ?thesis by simp
  qed
qed

lemma foldl_invariant:
  "P a \<Longrightarrow> (\<And>a x. x \<in> set xs \<Longrightarrow> P a \<Longrightarrow> P (f a x)) \<Longrightarrow> P (foldl f a xs)"
  by (induction xs arbitrary: a) auto

lemma sort_key_filter_ids: "set (sort_key f (filter P xs)) = {x \<in> set xs. P x}"
  by auto

end
