(* ===== verification/Go_Hash.thy ===== *)
theory Go_Hash
  imports Prelude "HOL-Library.Word"
begin

unbundle bit_operations_syntax

text \<open>
  The two hash functions of Go's standard library the program uses: SHA-256 with its hex
  rendering, the content hash of \<^verbatim>\<open>store.HashText\<close>, and 32-bit FNV-1a,
    the seed of the mock
  classifier's confidence. Bytes are characters; words are 32 bits wide and wrap around.
\<close>

type_synonym u32 = "32 word"

definition byte_of :: "char \<Rightarrow> nat" where
  "byte_of c = of_char c"

lemma byte_of_less [simp]: "byte_of c < 256"
  unfolding byte_of_def by (metis of_char_mod_256 mod_less_divisor zero_less_numeral)

section \<open>FNV-1a\<close>

text \<open>\<^verbatim>\<open>fnv.New32a\<close>: xor the byte in, then multiply by the prime,
    modulo \<open>2 ^ 32\<close>.\<close>

definition fnv32a :: "string \<Rightarrow> u32" where
  "fnv32a bs = fold (\<lambda>c h. (h XOR of_nat (byte_of c)) * 16777619) bs 2166136261"

section \<open>SHA-256\<close>

definition sha_K :: "u32 list" where
  "sha_K =
    [1116352408, 1899447441, 3049323471, 3921009573, 961987163, 1508970993, 2453635748,
     2870763221, 3624381080, 310598401, 607225278, 1426881987, 1925078388, 2162078206,
     2614888103, 3248222580, 3835390401, 4022224774, 264347078, 604807628, 770255983,
     1249150122, 1555081692, 1996064986, 2554220882, 2821834349, 2952996808, 3210313671,
     3336571891, 3584528711, 113926993, 338241895, 666307205, 773529912, 1294757372,
     1396182291, 1695183700, 1986661051, 2177026350, 2456956037, 2730485921, 2820302411,
     3259730800, 3345764771, 3516065817, 3600352804, 4094571909, 275423344, 430227734,
     506948616, 659060556, 883997877, 958139571, 1322822218, 1537002063, 1747873779,
     1955562222, 2024104815, 2227730452, 2361852424, 2428436474, 2756734187, 3204031479,
     3329325298]"

type_synonym sha_state = "u32 \<times> u32 \<times> u32 \<times> u32 \<times> u32 \<times> u32 \<times> u32 \<times> u32"

definition sha_init :: sha_state where
  "sha_init = (1779033703, 3144134277, 1013904242, 2773480762,
               1359893119, 2600822924, 528734635, 1541459225)"

definition sha_S0 :: "u32 \<Rightarrow> u32" where
  "sha_S0 x = word_rotr 2 x XOR word_rotr 13 x XOR word_rotr 22 x"

definition sha_S1 :: "u32 \<Rightarrow> u32" where
  "sha_S1 x = word_rotr 6 x XOR word_rotr 11 x XOR word_rotr 25 x"

definition sha_s0 :: "u32 \<Rightarrow> u32" where
  "sha_s0 x = word_rotr 7 x XOR word_rotr 18 x XOR drop_bit 3 x"

definition sha_s1 :: "u32 \<Rightarrow> u32" where
  "sha_s1 x = word_rotr 17 x XOR word_rotr 19 x XOR drop_bit 10 x"

text \<open>The message schedule, newest word first: \<open>n\<close> more words.\<close>

fun sha_extend :: "nat \<Rightarrow> u32 list \<Rightarrow> u32 list" where
  "sha_extend 0 ws = ws"
| "sha_extend (Suc n) ws =
     sha_extend n ((sha_s1 (ws ! 1) + ws ! 6 + sha_s0 (ws ! 14) + ws ! 15) # ws)"

fun sha_round :: "u32 \<times> u32 \<Rightarrow> sha_state \<Rightarrow> sha_state" where
  "sha_round (k, w) (a, b, c, d, e, f, g, h) =
     (let t1 = h + sha_S1 e + ((e AND f) XOR (NOT e AND g)) + k + w;
          t2 = sha_S0 a + ((a AND b) XOR (a AND c) XOR (b AND c))
      in (t1 + t2, a, b, c, d + t1, e, f, g))"

fun sha_add :: "sha_state \<Rightarrow> sha_state \<Rightarrow> sha_state" where
  "sha_add (a, b, c, d, e, f, g, h) (a', b', c', d', e', f', g', h') =
     (a + a', b + b', c + c', d + d', e + e', f + f', g + g', h + h')"

definition sha_block :: "sha_state \<Rightarrow> u32 list \<Rightarrow> sha_state" where
  "sha_block st ws = sha_add st (fold sha_round (zip sha_K (rev (sha_extend 48 (rev ws)))) st)"

definition be_word :: "nat list \<Rightarrow> u32" where
  "be_word bs = foldl (\<lambda>acc b. acc * 256 + of_nat b) 0 bs"

fun chunks :: "nat \<Rightarrow> nat \<Rightarrow> 'a list \<Rightarrow> 'a list list" where
  "chunks 0 k xs = []"
| "chunks (Suc n) k xs = take k xs # chunks n k (drop k xs)"

fun be_bytes :: "nat \<Rightarrow> nat \<Rightarrow> nat list" where
  "be_bytes 0 v = []"
| "be_bytes (Suc n) v = be_bytes n (v div 256) @ [v mod 256]"

definition sha_pad :: "nat list \<Rightarrow> nat list" where
  "sha_pad bs = bs @ [128] @ replicate ((119 - length bs mod 64) mod 64) 0 @
                be_bytes 8 (8 * length bs)"

definition sha256 :: "string \<Rightarrow> nat list" where
  "sha256 s =
     (let p = sha_pad (map byte_of s);
          ws = map be_word (chunks (length p div 4) 4 p);
          (a, b, c, d, e, f, g, h) =
            fold (\<lambda>blk st. sha_block st blk) (chunks (length p div 64) 16 ws) sha_init
      in concat (map (\<lambda>w. be_bytes 4 (unat w)) [a, b, c, d, e, f, g, h]))"

definition hex_digits :: string where
  "hex_digits = ''0123456789abcdef''"

definition hex_EncodeToString :: "nat list \<Rightarrow> string" where
  "hex_EncodeToString bs = concat (map (\<lambda>b. [hex_digits ! (b div 16),
    hex_digits ! (b mod 16)]) bs)"

text \<open>\<^verbatim>\<open>store.HashText\<close>.\<close>

definition HashText :: "string \<Rightarrow> string" where
  "HashText text = hex_EncodeToString (sha256 text)"

end
