(* ===== verification/Go_Strings.thy ===== *)
theory Go_Strings
  imports Go_Hash
begin

text \<open>
  The parts of Go's \<^verbatim>\<open>unicode/utf8\<close>, \<^verbatim>\<open>strings\<close> and \<^verbatim>\<open>strconv\<close> the program calls, on byte
  strings: rune decoding (an invalid byte is a rune of width one), rune counts, white space,
  trimming, fields, decimal integers.
\<close>

section \<open>UTF-8\<close>

definition in_range :: "nat \<Rightarrow> nat \<Rightarrow> char \<Rightarrow> bool" where
  "in_range lo hi c \<longleftrightarrow> lo \<le> byte_of c \<and> byte_of c \<le> hi"

definition is_cont :: "char \<Rightarrow> bool" where
  "is_cont c \<longleftrightarrow> in_range 128 191 c"

text \<open>The length of the well-formed sequence a string starts with, if it starts with one.\<close>

definition utf8_len :: "string \<Rightarrow> nat option" where
  "utf8_len s =
     (case s of
        [] \<Rightarrow> None
      | b0 # r \<Rightarrow>
          if byte_of b0 < 128 then Some 1
          else if in_range 194 223 b0 then
            (case r of b1 # _ \<Rightarrow> if is_cont b1 then Some 2 else None | _ \<Rightarrow> None)
          else if in_range 224 239 b0 then
            (case r of
               b1 # b2 # _ \<Rightarrow>
                 if in_range (if byte_of b0 = 224 then 160 else 128)
                             (if byte_of b0 = 237 then 159 else 191) b1 \<and> is_cont b2
                 then Some 3 else None
             | _ \<Rightarrow> None)
          else if in_range 240 244 b0 then
            (case r of
               b1 # b2 # b3 # _ \<Rightarrow>
                 if in_range (if byte_of b0 = 240 then 144 else 128)
                             (if byte_of b0 = 244 then 143 else 191) b1 \<and> is_cont b2 \<and> is_cont b3
                 then Some 4 else None
             | _ \<Rightarrow> None)
          else None)"

text \<open>The width \<^verbatim>\<open>DecodeRuneInString\<close> returns.\<close>

definition rune_width :: "string \<Rightarrow> nat" where
  "rune_width s = (case utf8_len s of Some n \<Rightarrow> n | None \<Rightarrow> if s = [] then 0 else 1)"

lemma utf8_len_bounds: "utf8_len s = Some n \<Longrightarrow> 0 < n \<and> n \<le> length s \<and> n \<le> 4"
  by (auto simp: utf8_len_def split: list.splits if_splits)

lemma rune_width_pos: "s \<noteq> [] \<Longrightarrow> 0 < rune_width s"
  using utf8_len_bounds [of s] by (auto simp: rune_width_def split: option.splits)

lemma rune_width_le: "rune_width s \<le> length s"
  using utf8_len_bounds [of s] by (cases s) (auto simp: rune_width_def split: option.splits)

text \<open>The runes of a string, each as the bytes it came from: \<^verbatim>\<open>range s\<close>.\<close>

function runes :: "string \<Rightarrow> string list" where
  "runes [] = []"
| "runes (c # cs) = take (rune_width (c # cs)) (c # cs) # runes (drop (rune_width (c # cs)) (c # cs))"
  by pat_completeness auto
termination
  by (relation "measure length") (use rune_width_pos in auto)

declare runes.simps(2) [simp del]

definition RuneCountInString :: "string \<Rightarrow> nat" where
  "RuneCountInString s = length (runes s)"

definition ValidString :: "string \<Rightarrow> bool" where
  "ValidString s = list_all (\<lambda>r. utf8_len r \<noteq> None) (runes s)"

lemma concat_runes [simp]: "concat (runes s) = s"
proof (induction s rule: runes.induct)
  case 1
  show ?case by simp
next
  case (2 c cs)
  then show ?case by (simp only: runes.simps concat.simps append_take_drop_id)
qed

lemma runes_nonempty: "r \<in> set (runes s) \<Longrightarrow> r \<noteq> []"
proof (induction s rule: runes.induct)
  case 1
  then show ?case by simp
next
  case (2 c cs)
  then show ?case using rune_width_pos [of "c # cs"] by (auto simp: runes.simps)
qed

lemma RuneCountInString_le: "RuneCountInString s \<le> length s"
proof (induction s rule: runes.induct)
  case 1
  show ?case by (simp add: RuneCountInString_def)
next
  case (2 c cs)
  have "length (drop (rune_width (c # cs)) (c # cs)) < length (c # cs)"
    using rune_width_pos [of "c # cs"] by simp
  with 2 show ?case by (simp add: RuneCountInString_def runes.simps)
qed

lemma runes_ascii_Cons: "byte_of c < 128 \<Longrightarrow> runes (c # cs) = [c] # runes cs"
  by (simp add: runes.simps rune_width_def utf8_len_def)

lemma runes_ascii: "(\<And>c. c \<in> set s \<Longrightarrow> byte_of c < 128) \<Longrightarrow> runes s = map (\<lambda>c. [c]) s"
  by (induction s) (simp_all add: runes_ascii_Cons)

lemma RuneCountInString_ascii:
  "(\<And>c. c \<in> set s \<Longrightarrow> byte_of c < 128) \<Longrightarrow> RuneCountInString s = length s"
  by (simp add: RuneCountInString_def runes_ascii)

text \<open>
  An ASCII byte is a rune of its own, so decoding splits before and after one: the rune
  count of a text is the sum of the counts on both sides of such a place.
\<close>

definition is_ascii :: "char \<Rightarrow> bool" where
  "is_ascii c \<longleftrightarrow> byte_of c < 128"

lemma is_ascii_digit7 [code]: "is_ascii c \<longleftrightarrow> \<not> digit7 c"
proof (cases c)
  case (Char b0 b1 b2 b3 b4 b5 b6 b7)
  then show ?thesis by (cases b7) (auto simp: is_ascii_def byte_of_def)
qed

lemma utf8_len_cut: "is_ascii c \<Longrightarrow> a \<noteq> [] \<Longrightarrow> utf8_len (a @ c # b) = utf8_len a"
  by (auto simp: utf8_len_def is_ascii_def is_cont_def in_range_def neq_Nil_conv Cons_eq_append_conv
      split: list.splits if_splits)

lemma runes_cut_before: "is_ascii c \<Longrightarrow> runes (a @ c # b) = runes a @ runes (c # b)"
proof (induction a rule: runes.induct)
  case 1
  then show ?case by simp
next
  case (2 x xs)
  have w: "rune_width ((x # xs) @ c # b) = rune_width (x # xs)"
    using utf8_len_cut [OF 2(2), of "x # xs" b] by (simp add: rune_width_def)
  have "take n ((x # xs) @ ys) = take n (x # xs)" "drop n ((x # xs) @ ys) = drop n (x # xs) @ ys"
    if "n \<le> length (x # xs)" for n and ys :: string
    using that by (simp_all only: take_append drop_append) simp_all
  note this [OF rune_width_le, of "c # b"]
  then have "runes ((x # xs) @ c # b) =
      take (rune_width (x # xs)) (x # xs) # runes (drop (rune_width (x # xs)) (x # xs) @ c # b)"
    using w by (simp only: append_Cons runes.simps)
  also have "\<dots> = runes (x # xs) @ runes (c # b)"
    using 2 by (simp only: runes.simps append_Cons)
  finally show ?case .
qed

lemma runes_cut_after: "is_ascii c \<Longrightarrow> runes (a @ c # b) = runes (a @ [c]) @ runes b"
  by (simp add: runes_cut_before runes_ascii_Cons is_ascii_def)

definition rune_cut :: "string \<Rightarrow> string \<Rightarrow> bool" where
  "rune_cut a b \<longleftrightarrow> a = [] \<or> b = [] \<or> is_ascii (last a) \<or> is_ascii (hd b)"

lemma rune_cut_runes: "rune_cut a b \<Longrightarrow> runes (a @ b) = runes a @ runes b"
proof (cases "a = [] \<or> b = []")
  case False
  assume "rune_cut a b"
  with False consider "is_ascii (last a)" | "is_ascii (hd b)" by (auto simp: rune_cut_def)
  then show ?thesis
  proof cases
    case 1
    with runes_cut_after [OF 1, of "butlast a" b] False show ?thesis
      by (metis append.assoc append_Cons append_Nil append_butlast_last_id)
  next
    case 2
    with runes_cut_before [OF 2, of a "tl b"] False show ?thesis by simp
  qed
qed auto

lemma RuneCount_cut: "rune_cut a b \<Longrightarrow> RuneCountInString (a @ b) = RuneCountInString a + RuneCountInString b"
  by (simp add: RuneCountInString_def rune_cut_runes)

lemma RuneCount_pos: "s \<noteq> [] \<Longrightarrow> 0 < RuneCountInString s"
  by (cases s) (simp_all add: RuneCountInString_def runes.simps)

text \<open>Positions of ASCII bytes keep their order when they are counted in runes.\<close>

lemma RuneCount_take_less:
  assumes "p < q" and "q \<le> length s" and "is_ascii (s ! p)"
  shows "RuneCountInString (take p s) < RuneCountInString (take q s)"
proof -
  have "take q s = take p s @ take (q - p) (drop p s)"
    using assms(1) by (metis le_add_diff_inverse less_imp_le take_add)
  moreover have d: "take (q - p) (drop p s) \<noteq> []" using assms by simp
  moreover have "rune_cut (take p s) (take (q - p) (drop p s))"
    using assms by (simp add: rune_cut_def hd_drop_conv_nth)
  ultimately show ?thesis using RuneCount_cut RuneCount_pos [OF d] by simp
qed

text \<open>\<^verbatim>\<open>utf8.EncodeRune\<close>; surrogates and values past the last rune encode U+FFFD.\<close>

definition char_of_nat :: "nat \<Rightarrow> char" where
  "char_of_nat n = char_of n"

definition replacement_char :: string where
  "replacement_char = [char_of_nat 239, char_of_nat 191, char_of_nat 189]"

definition EncodeRune :: "nat \<Rightarrow> string" where
  "EncodeRune r =
     (if r < 128 then [char_of_nat r]
      else if r < 2048 then [char_of_nat (192 + r div 64), char_of_nat (128 + r mod 64)]
      else if 55296 \<le> r \<and> r \<le> 57343 \<or> 1114111 < r then replacement_char
      else if r < 65536 then
        [char_of_nat (224 + r div 4096), char_of_nat (128 + r div 64 mod 64), char_of_nat (128 + r mod 64)]
      else
        [char_of_nat (240 + r div 262144), char_of_nat (128 + r div 4096 mod 64),
         char_of_nat (128 + r div 64 mod 64), char_of_nat (128 + r mod 64)])"

section \<open>White space\<close>

text \<open>
  \<^verbatim>\<open>unicode.IsSpace\<close> on a rune given by its bytes: the six ASCII spaces, U+0085, U+00A0,
  U+1680, U+2000 to U+200A, U+2028, U+2029, U+202F, U+205F and U+3000.
\<close>

definition IsSpace :: "string \<Rightarrow> bool" where
  "IsSpace r \<longleftrightarrow> map byte_of r \<in> set
     ([[9], [10], [11], [12], [13], [32], [194, 133], [194, 160], [225, 154, 128]] @
      map (\<lambda>k. [226, 128, k]) [128, 129, 130, 131, 132, 133, 134, 135, 136, 137, 138, 168, 169, 175] @
      [[226, 129, 159], [227, 128, 128]])"

text \<open>
  \<^verbatim>\<open>strings.TrimSpace\<close> and \<^verbatim>\<open>strings.Fields\<close>. Go trims the right end by decoding
  backwards; the runes found that way are those of the forward decoding, because a byte that
  is not a continuation byte always starts a rune.
\<close>

definition TrimLeftSpace :: "string \<Rightarrow> string" where
  "TrimLeftSpace s = concat (dropWhile IsSpace (runes s))"

definition TrimSpace :: "string \<Rightarrow> string" where
  "TrimSpace s = concat (rev (dropWhile IsSpace (rev (dropWhile IsSpace (runes s)))))"

fun fields_of :: "string list \<Rightarrow> string \<Rightarrow> string list" where
  "fields_of [] acc = (if acc = [] then [] else [acc])"
| "fields_of (r # rs) acc =
     (if IsSpace r then (if acc = [] then fields_of rs [] else acc # fields_of rs [])
      else fields_of rs (acc @ r))"

definition Fields :: "string \<Rightarrow> string list" where
  "Fields s = fields_of (runes s) []"

text \<open>\<^verbatim>\<open>strings.TrimRight(s, "c")\<close> and \<^verbatim>\<open>strings.Count(s, "c")\<close> for one ASCII character.\<close>

definition TrimRight1 :: "string \<Rightarrow> char \<Rightarrow> string" where
  "TrimRight1 s c = rev (dropWhile (\<lambda>x. x = c) (rev s))"

definition Count1 :: "string \<Rightarrow> char \<Rightarrow> nat" where
  "Count1 s c = length (filter (\<lambda>x. x = c) s)"

lemma dropWhile_all_iff: "(\<forall>x \<in> set (dropWhile P xs). P x) \<longleftrightarrow> (\<forall>x \<in> set xs. P x)"
  by (induction xs) auto

lemma concat_Nil_nonempty: "(\<And>r. r \<in> set rs \<Longrightarrow> r \<noteq> []) \<Longrightarrow> concat rs = [] \<longleftrightarrow> rs = []"
  by (cases rs) auto

lemma TrimSpace_blank_iff: "TrimSpace s = [] \<longleftrightarrow> list_all IsSpace (runes s)"
proof -
  have "TrimSpace s = [] \<longleftrightarrow> rev (dropWhile IsSpace (rev (dropWhile IsSpace (runes s)))) = []"
    unfolding TrimSpace_def
    by (rule concat_Nil_nonempty) (auto dest!: set_dropWhileD dest: runes_nonempty)
  also have "\<dots> \<longleftrightarrow> (\<forall>r \<in> set (runes s). IsSpace r)"
    by (simp add: dropWhile_all_iff)
  finally show ?thesis by (simp add: list_all_iff)
qed

text \<open>
  Trimming cuts white space off both ends of the rune sequence and nothing else; a part that
  starts and ends in something else survives the trimming of a longer text.
\<close>

definition trim_runes :: "string list \<Rightarrow> string list" where
  "trim_runes rs = rev (dropWhile IsSpace (rev (dropWhile IsSpace rs)))"

lemma TrimSpace_runes: "TrimSpace s = concat (trim_runes (runes s))"
  by (simp add: TrimSpace_def trim_runes_def)

lemma dropWhile_rev_prefix: "\<exists>m. xs = rev (dropWhile P (rev xs)) @ m"
  by (metis rev_append rev_rev_ident takeWhile_dropWhile_id)

lemma trim_runes_parts: "\<exists>l m. rs = l @ trim_runes rs @ m"
proof -
  obtain m where "dropWhile IsSpace rs = trim_runes rs @ m"
    unfolding trim_runes_def using dropWhile_rev_prefix by blast
  then show ?thesis by (metis takeWhile_dropWhile_id)
qed

lemma trim_runes_keep_left: "rs \<noteq> [] \<Longrightarrow> \<not> IsSpace (hd rs) \<Longrightarrow> \<exists>m. rs = trim_runes rs @ m"
  by (metis dropWhile_eq_self_iff dropWhile_rev_prefix trim_runes_def)

lemma trim_runes_ends:
  assumes "trim_runes rs \<noteq> []"
  shows "\<not> IsSpace (hd (trim_runes rs))" and "\<not> IsSpace (last (trim_runes rs))"
proof -
  let ?d = "dropWhile IsSpace rs"
  obtain m where m: "?d = trim_runes rs @ m" unfolding trim_runes_def using dropWhile_rev_prefix by blast
  with assms have "?d \<noteq> []" and "hd ?d = hd (trim_runes rs)" by auto
  then show "\<not> IsSpace (hd (trim_runes rs))" using hd_dropWhile [of IsSpace rs] by simp
  show "\<not> IsSpace (last (trim_runes rs))"
    using assms hd_dropWhile [of IsSpace "rev ?d"] by (simp add: trim_runes_def last_rev)
qed

lemma dropWhile_keep: "R \<noteq> [] \<Longrightarrow> \<not> P (hd R) \<Longrightarrow> \<exists>A'. dropWhile P (A @ R @ B) = A' @ R @ B"
  by (induction A) (cases R, auto)

lemma trim_runes_keep:
  assumes "R \<noteq> []" and "\<not> IsSpace (hd R)" and "\<not> IsSpace (last R)"
  shows "\<exists>A' B'. trim_runes (A @ R @ B) = A' @ R @ B'"
proof -
  obtain A' where A': "dropWhile IsSpace (A @ R @ B) = A' @ R @ B"
    using dropWhile_keep [of R IsSpace A B] assms(1,2) by blast
  obtain B' where "dropWhile IsSpace (rev B @ rev R @ rev A') = B' @ rev R @ rev A'"
    using dropWhile_keep [of "rev R" IsSpace "rev B" "rev A'"] assms(1,3) by (auto simp: hd_rev)
  with A' have "trim_runes (A @ R @ B) = A' @ R @ rev B'" by (simp add: trim_runes_def)
  then show ?thesis by blast
qed

lemma TrimRight1_prefix: "\<exists>u. s = TrimRight1 s c @ u"
  unfolding TrimRight1_def by (rule dropWhile_rev_prefix)

text \<open>
  \<^verbatim>\<open>strings.ToUpper\<close> as far as a comparison with ASCII words can tell: ASCII letters, and the
  two other runes whose upper case is ASCII (U+0131 and U+017F). A byte that is not UTF-8
  becomes U+FFFD; every other rune becomes or stays something outside ASCII.
\<close>

definition upper_rune :: "string \<Rightarrow> string" where
  "upper_rune r =
     (if utf8_len r = None then replacement_char
      else if map byte_of r = [196, 177] then ''I''
      else if map byte_of r = [197, 191] then ''S''
      else case r of
             [c] \<Rightarrow> if in_range 97 122 c then [char_of_nat (byte_of c - 32)] else [c]
           | _ \<Rightarrow> r)"

definition ToUpper :: "string \<Rightarrow> string" where
  "ToUpper s = concat (map upper_rune (runes s))"

section \<open>Decimal integers\<close>

definition is_digit :: "char \<Rightarrow> bool" where
  "is_digit c \<longleftrightarrow> in_range 48 57 c"

definition digit_val :: "char \<Rightarrow> nat" where
  "digit_val c = byte_of c - 48"

definition digit_char :: "nat \<Rightarrow> char" where
  "digit_char d = char_of_nat (48 + d)"

fun nat_digits :: "nat \<Rightarrow> string" where
  "nat_digits n = (if n < 10 then [digit_char n] else nat_digits (n div 10) @ [digit_char (n mod 10)])"

declare nat_digits.simps [simp del]

text \<open>\<^verbatim>\<open>strconv.Itoa\<close> and \<^verbatim>\<open>strconv.FormatInt(n, 10)\<close>.\<close>

definition FormatInt :: "int \<Rightarrow> string" where
  "FormatInt n = (if n < 0 then CHR ''-'' # nat_digits (nat (- n)) else nat_digits (nat n))"

definition digits_val :: "string \<Rightarrow> nat" where
  "digits_val ds = foldl (\<lambda>acc c. acc * 10 + digit_val c) 0 ds"

definition parse_digits :: "string \<Rightarrow> nat option" where
  "parse_digits ds = (if ds \<noteq> [] \<and> list_all is_digit ds then Some (digits_val ds) else None)"

text \<open>
  \<^verbatim>\<open>strconv.Atoi\<close> and \<^verbatim>\<open>strconv.ParseInt(s, 10, 64)\<close>: an optional sign, digits, and a value
  of 64 bits; anything else is an error.
\<close>

definition Atoi :: "string \<Rightarrow> int option" where
  "Atoi s =
     (let (neg, ds) = (case s of
                         c # r \<Rightarrow> if c = CHR ''-'' then (True, r)
                                  else if c = CHR ''+'' then (False, r) else (False, s)
                       | [] \<Rightarrow> (False, s))
      in case parse_digits ds of
           None \<Rightarrow> None
         | Some n \<Rightarrow>
             (let v = (if neg then - int n else int n)
              in if - (2 ^ 63) \<le> v \<and> v < 2 ^ 63 then Some v else None))"

lemma byte_of_char_of_nat [simp]: "n < 256 \<Longrightarrow> byte_of (char_of_nat n) = n"
  by (simp add: byte_of_def char_of_nat_def of_char_of)

lemma digit_char_props:
  assumes "d < 10"
  shows "is_digit (digit_char d)" "digit_val (digit_char d) = d" "byte_of (digit_char d) < 128"
  using assms by (simp_all add: is_digit_def in_range_def digit_val_def digit_char_def)

lemma nat_digits_props:
  "nat_digits n \<noteq> [] \<and> list_all is_digit (nat_digits n) \<and> digits_val (nat_digits n) = n"
proof (induction n rule: nat_digits.induct)
  case (1 n)
  show ?case
  proof (cases "n < 10")
    case True
    then show ?thesis by (simp add: nat_digits.simps [of n] digit_char_props digits_val_def)
  next
    case False
    with 1 show ?thesis
      by (simp add: nat_digits.simps [of n] digit_char_props digits_val_def)
  qed
qed

lemma parse_nat_digits [simp]: "parse_digits (nat_digits n) = Some n"
  by (simp add: parse_digits_def nat_digits_props)

lemma nat_digits_not_sign: "nat_digits n = c # r \<Longrightarrow> c \<noteq> CHR ''-'' \<and> c \<noteq> CHR ''+''"
  using nat_digits_props [of n] by (auto simp: is_digit_def in_range_def byte_of_def)

lemma Atoi_nat_digits:
  "int n < 2 ^ 63 \<Longrightarrow> Atoi (nat_digits n) = Some (int n)"
  using nat_digits_not_sign [of n] nat_digits_props [of n]
  by (cases "nat_digits n") (auto simp: Atoi_def Let_def parse_digits_def)

lemma Atoi_FormatInt: "- (2 ^ 63) \<le> n \<Longrightarrow> n < 2 ^ 63 \<Longrightarrow> Atoi (FormatInt n) = Some n"
  by (auto simp: FormatInt_def Atoi_nat_digits) (simp add: Atoi_def Let_def)

end
