(* ===== verification/Json.thy ===== *)
theory Json
  imports Go_Strings
begin

text \<open>
  \<^verbatim>\<open>encoding/json\<close> as the program uses it: the string encoder with HTML escaping, the parser
  (validation and decoding in one pass) and the matching of object keys to struct fields.
  A number keeps its literal; a string is already unquoted.
\<close>

section \<open>Encoding\<close>

definition hex_char :: "nat \<Rightarrow> char" where
  "hex_char d = hex_digits ! d"

definition quote_ascii :: "char \<Rightarrow> string" where
  "quote_ascii c =
     (if c = CHR 0x22 \<or> c = CHR 0x5C then [CHR 0x5C, c]
      else if c = CHR 0x08 then [CHR 0x5C, CHR ''b'']
      else if c = CHR 0x0C then [CHR 0x5C, CHR ''f'']
      else if c = CHR 0x0A then [CHR 0x5C, CHR ''n'']
      else if c = CHR 0x0D then [CHR 0x5C, CHR ''r'']
      else if c = CHR 0x09 then [CHR 0x5C, CHR ''t'']
      else if byte_of c < 32 \<or> c = CHR ''<'' \<or> c = CHR ''>'' \<or> c = CHR ''&''
        then [CHR 0x5C, CHR ''u'', CHR ''0'', CHR ''0'', hex_char (byte_of c div 16),
              hex_char (byte_of c mod 16)]
      else [c])"

definition quote_rune :: "string \<Rightarrow> string" where
  "quote_rune r =
     (case r of
        [c] \<Rightarrow> if byte_of c < 128 then quote_ascii c else CHR 0x5C # ''ufffd''
      | _ \<Rightarrow> if map byte_of r = [226, 128, 168] then CHR 0x5C # ''u2028''
             else if map byte_of r = [226, 128, 169] then CHR 0x5C # ''u2029''
             else r)"

definition json_string :: "string \<Rightarrow> string" where
  "json_string s = CHR 0x22 # concat (map quote_rune (runes s)) @ [CHR 0x22]"

section \<open>Parsing\<close>

datatype json =
    JNull
  | JBool bool
  | JNum string
  | JStr string
  | JArr "json list"
  | JObj "(string \<times> json) list"

definition is_ws :: "char \<Rightarrow> bool" where
  "is_ws c \<longleftrightarrow> c = CHR 0x20 \<or> c = CHR 0x09 \<or> c = CHR 0x0A \<or> c = CHR 0x0D"

definition skip_ws :: "string \<Rightarrow> string" where
  "skip_ws s = dropWhile is_ws s"

definition hex_val :: "char \<Rightarrow> nat option" where
  "hex_val c =
     (if in_range 48 57 c then Some (byte_of c - 48)
      else if in_range 97 102 c then Some (byte_of c - 87)
      else if in_range 65 70 c then Some (byte_of c - 55)
      else None)"

text \<open>Four hex digits, as after \<^verbatim>\<open>\u\<close>.\<close>

definition hex4 :: "string \<Rightarrow> nat option" where
  "hex4 s =
     (case s of
        a # b # c # d # _ \<Rightarrow>
          (case (hex_val a, hex_val b, hex_val c, hex_val d) of
             (Some w, Some x, Some y, Some z) \<Rightarrow> Some (((w * 16 + x) * 16 + y) * 16 + z)
           | _ \<Rightarrow> None)
      | _ \<Rightarrow> None)"

definition simple_escape :: "char \<Rightarrow> char option" where
  "simple_escape c =
     (if c = CHR 0x22 \<or> c = CHR 0x5C \<or> c = CHR ''/'' then Some c
      else if c = CHR ''b'' then Some (CHR 0x08)
      else if c = CHR ''f'' then Some (CHR 0x0C)
      else if c = CHR ''n'' then Some (CHR 0x0A)
      else if c = CHR ''r'' then Some (CHR 0x0D)
      else if c = CHR ''t'' then Some (CHR 0x09)
      else None)"

text \<open>
  The second half of a surrogate pair: \<open>s\<close> is what follows the first escape, \<open>u\<close> its value.
  Returns the rune and how many further bytes it took.
\<close>

definition pair_surrogate :: "nat \<Rightarrow> string \<Rightarrow> nat \<times> nat" where
  "pair_surrogate u s =
     (if 55296 \<le> u \<and> u \<le> 57343 then
        (case (if take 2 s = [CHR 0x5C, CHR ''u''] then hex4 (drop 2 s) else None) of
           Some v \<Rightarrow> if u \<le> 56319 \<and> 56320 \<le> v \<and> v \<le> 57343
                      then (65536 + (u - 55296) * 1024 + (v - 56320), 6) else (65533, 0)
         | None \<Rightarrow> (65533, 0))
      else (u, 0))"

definition prepend :: "string \<Rightarrow> (string \<times> 'a) option \<Rightarrow> (string \<times> 'a) option" where
  "prepend p r = map_option (\<lambda>(s, rest). (p @ s, rest)) r"

text \<open>The rest of a string literal, after its opening quote.\<close>

function parse_str :: "string \<Rightarrow> (string \<times> string) option" where
  "parse_str [] = None"
| "parse_str (c # cs) =
     (if c = CHR 0x22 then Some ([], cs)
      else if c = CHR 0x5C then
        (case cs of
           [] \<Rightarrow> None
         | e # ds \<Rightarrow>
             if e = CHR ''u'' then
               (case hex4 ds of
                  None \<Rightarrow> None
                | Some u \<Rightarrow>
                    prepend (EncodeRune (fst (pair_surrogate u (drop 4 ds))))
                      (parse_str (drop (4 + snd (pair_surrogate u (drop 4 ds))) ds)))
             else
               (case simple_escape e of
                  None \<Rightarrow> None
                | Some x \<Rightarrow> prepend [x] (parse_str ds)))
      else if byte_of c < 32 then None
      else
        prepend (if utf8_len (c # cs) = None then replacement_char
                 else take (rune_width (c # cs)) (c # cs))
          (parse_str (drop (rune_width (c # cs)) (c # cs))))"
  by pat_completeness auto
termination
  by (relation "measure length") (use rune_width_pos in auto)

declare parse_str.simps(2) [simp del]

definition span_while :: "('a \<Rightarrow> bool) \<Rightarrow> 'a list \<Rightarrow> 'a list \<times> 'a list" where
  "span_while P xs = (takeWhile P xs, dropWhile P xs)"

text \<open>The longest number literal the input starts with, and the rest.\<close>

definition parse_int_part :: "string \<Rightarrow> (string \<times> string) option" where
  "parse_int_part s =
     (case s of
        c # cs \<Rightarrow> if c = CHR ''0'' then Some ([c], cs)
                  else if is_digit c then Some (span_while is_digit s) else None
      | [] \<Rightarrow> None)"

definition parse_frac_part :: "string \<Rightarrow> (string \<times> string) option" where
  "parse_frac_part s =
     (case s of
        c # cs \<Rightarrow> if c = CHR ''.'' then
                    (case span_while is_digit cs of
                       ([], _) \<Rightarrow> None
                     | (ds, r) \<Rightarrow> Some (c # ds, r))
                  else Some ([], s)
      | [] \<Rightarrow> Some ([], s))"

definition parse_exp_part :: "string \<Rightarrow> (string \<times> string) option" where
  "parse_exp_part s =
     (case s of
        c # cs \<Rightarrow> if c = CHR ''e'' \<or> c = CHR ''E'' then
                    (let (sg, r) = (case cs of
                                      d # ds \<Rightarrow> if d = CHR ''+'' \<or> d = CHR ''-'' then ([d], ds) else ([], cs)
                                    | [] \<Rightarrow> ([], cs))
                     in case span_while is_digit r of
                          ([], _) \<Rightarrow> None
                        | (ds, r') \<Rightarrow> Some (c # sg @ ds, r'))
                  else Some ([], s)
      | [] \<Rightarrow> Some ([], s))"

definition parse_num :: "string \<Rightarrow> (string \<times> string) option" where
  "parse_num s =
     (let (sg, r0) = (case s of
                        c # cs \<Rightarrow> if c = CHR ''-'' then ([c], cs) else ([], s)
                      | [] \<Rightarrow> ([], s))
      in case parse_int_part r0 of
           None \<Rightarrow> None
         | Some (i, r1) \<Rightarrow>
             (case parse_frac_part r1 of
                None \<Rightarrow> None
              | Some (f, r2) \<Rightarrow>
                  (case parse_exp_part r2 of
                     None \<Rightarrow> None
                   | Some (e, r3) \<Rightarrow> Some (sg @ i @ f @ e, r3))))"

definition expect :: "string \<Rightarrow> 'a \<Rightarrow> string \<Rightarrow> ('a \<times> string) option" where
  "expect lit v s = (if take (length lit) s = lit then Some (v, drop (length lit) s) else None)"

text \<open>
  Values, array elements and object members. The first argument bounds the recursion (of two
  nested calls at least one reads a byte first, so twice the length of the input is enough:
  \<open>parse_value_fuel\<close>), the second is the nesting depth that is left: the package refuses input
  nested deeper than 10000.
\<close>

fun parse_value :: "nat \<Rightarrow> nat \<Rightarrow> string \<Rightarrow> (json \<times> string) option"
  and parse_elems :: "nat \<Rightarrow> nat \<Rightarrow> string \<Rightarrow> (json list \<times> string) option"
  and parse_members :: "nat \<Rightarrow> nat \<Rightarrow> string \<Rightarrow> ((string \<times> json) list \<times> string) option"
where
  "parse_value 0 d s = None"
| "parse_value (Suc n) d s =
     (case skip_ws s of
        [] \<Rightarrow> None
      | c # cs \<Rightarrow>
          if c = CHR 0x7B then
            (if d = 0 then None
             else case skip_ws cs of
                    [] \<Rightarrow> None
                  | e # es \<Rightarrow> if e = CHR 0x7D then Some (JObj [], es)
                              else map_option (apfst JObj) (parse_members n (d - 1) (e # es)))
          else if c = CHR 0x5B then
            (if d = 0 then None
             else case skip_ws cs of
                    [] \<Rightarrow> None
                  | e # es \<Rightarrow> if e = CHR 0x5D then Some (JArr [], es)
                              else map_option (apfst JArr) (parse_elems n (d - 1) (e # es)))
          else if c = CHR 0x22 then map_option (apfst JStr) (parse_str cs)
          else if c = CHR ''t'' then expect ''true'' (JBool True) (c # cs)
          else if c = CHR ''f'' then expect ''false'' (JBool False) (c # cs)
          else if c = CHR ''n'' then expect ''null'' JNull (c # cs)
          else map_option (apfst JNum) (parse_num (c # cs)))"
| "parse_elems 0 d s = None"
| "parse_elems (Suc n) d s =
     (case parse_value n d s of
        None \<Rightarrow> None
      | Some (v, r) \<Rightarrow>
          (case skip_ws r of
             [] \<Rightarrow> None
           | c # cs \<Rightarrow>
               if c = CHR 0x2C then map_option (apfst (Cons v)) (parse_elems n d cs)
               else if c = CHR 0x5D then Some ([v], cs)
               else None))"
| "parse_members 0 d s = None"
| "parse_members (Suc n) d s =
     (case skip_ws s of
        [] \<Rightarrow> None
      | q # qs \<Rightarrow>
          if q \<noteq> CHR 0x22 then None
          else case parse_str qs of
                 None \<Rightarrow> None
               | Some (k, r) \<Rightarrow>
                   (case skip_ws r of
                      [] \<Rightarrow> None
                    | c # cs \<Rightarrow>
                        if c \<noteq> CHR 0x3A then None
                        else case parse_value n d cs of
                               None \<Rightarrow> None
                             | Some (v, r') \<Rightarrow>
                                 (case skip_ws r' of
                                    [] \<Rightarrow> None
                                  | e # es \<Rightarrow>
                                      if e = CHR 0x2C
                                      then map_option (apfst (Cons (k, v))) (parse_members n d es)
                                      else if e = CHR 0x7D then Some ([(k, v)], es)
                                      else None)))"

definition max_nesting_depth :: nat where
  "max_nesting_depth = 10000"

text \<open>The first value of a stream (\<^verbatim>\<open>Decoder.Decode\<close>), and a whole input (\<^verbatim>\<open>Unmarshal\<close>).\<close>

definition json_first :: "string \<Rightarrow> (json \<times> string) option" where
  "json_first s = parse_value (2 * length s + 2) max_nesting_depth s"

definition json_parse :: "string \<Rightarrow> json option" where
  "json_parse s =
     (case json_first s of
        None \<Rightarrow> None
      | Some (v, r) \<Rightarrow> if skip_ws r = [] then Some v else None)"

section \<open>Struct fields\<close>

text \<open>
  Keys match field names up to case folding. The only runes outside ASCII that fold to an
  ASCII letter are U+017F and U+212A.
\<close>

definition fold_rune :: "string \<Rightarrow> string" where
  "fold_rune r =
     (if map byte_of r = [197, 191] then ''S''
      else if map byte_of r = [226, 132, 170] then ''K''
      else case r of
             [c] \<Rightarrow> if in_range 97 122 c then [char_of_nat (byte_of c - 32)] else [c]
           | _ \<Rightarrow> r)"

definition fold_name :: "string \<Rightarrow> string" where
  "fold_name s = concat (map fold_rune (runes s))"

definition is_field :: "string \<Rightarrow> string \<Rightarrow> bool" where
  "is_field name key \<longleftrightarrow> fold_name key = fold_name name"

text \<open>
  Storing a value into a string or 64-bit integer field: the new value and whether the types
  agreed. A null leaves the field alone.
\<close>

definition store_string :: "json \<Rightarrow> string \<Rightarrow> string \<times> bool" where
  "store_string v old =
     (case v of JStr s \<Rightarrow> (s, True) | JNull \<Rightarrow> (old, True) | _ \<Rightarrow> (old, False))"

definition store_int :: "json \<Rightarrow> int \<Rightarrow> int \<times> bool" where
  "store_int v old =
     (case v of
        JNum lit \<Rightarrow> (case Atoi lit of Some n \<Rightarrow> (n, True) | None \<Rightarrow> (old, False))
      | JNull \<Rightarrow> (old, True)
      | _ \<Rightarrow> (old, False))"

section \<open>The parser reads forward, and its fuel is enough\<close>

lemma skip_ws_len: "length (skip_ws s) \<le> length s"
  by (simp add: skip_ws_def length_dropWhile_le)

lemma skip_ws_Cons_len: "skip_ws s = c # cs \<Longrightarrow> length cs < length s"
  using skip_ws_len [of s] by simp

lemma prepend_Some: "prepend p r = Some (x, rest) \<longleftrightarrow> (\<exists>y. r = Some (y, rest) \<and> x = p @ y)"
  by (cases r) (auto simp: prepend_def)

lemma parse_str_step:
  assumes "parse_str (c # cs) = Some (x, r)"
  shows "r = cs \<or> (\<exists>k y. 0 < k \<and> parse_str (drop k (c # cs)) = Some (y, r))"
proof (cases "c = CHR 0x5C")
  case True
  with assms obtain e ds where cs: "cs = e # ds"
    by (auto simp: parse_str.simps(2) split: list.splits)
  show ?thesis
  proof (cases "e = CHR ''u''")
    case eu: True
    with assms True cs obtain k y where "parse_str (drop (4 + k) ds) = Some (y, r)"
      by (auto simp: parse_str.simps(2) prepend_Some split: option.splits)
    then show ?thesis by (intro disjI2 exI [of _ "Suc (Suc (4 + k))"] exI [of _ y])
        (simp only: cs drop_Suc_Cons zero_less_Suc simp_thms)
  next
    case False
    with assms True cs obtain y where "parse_str ds = Some (y, r)"
      by (auto simp: parse_str.simps(2) prepend_Some split: option.splits)
    then show ?thesis by (intro disjI2 exI [of _ 2] exI [of _ y]) (simp add: cs)
  qed
next
  case False
  with assms show ?thesis
    using rune_width_pos [of "c # cs"]
    by (auto simp: parse_str.simps(2) prepend_Some simp del: drop_eq_Nil split: if_splits)
qed

lemma parse_str_len: "parse_str s = Some (x, r) \<Longrightarrow> length r < length s"
proof (induction "length s" arbitrary: s x r rule: less_induct)
  case less
  then obtain c cs where s: "s = c # cs" by (cases s) auto
  from parse_str_step [OF less.prems [unfolded s]] show ?case
  proof (elim disjE exE conjE)
    fix k y assume "0 < k" and p: "parse_str (drop k (c # cs)) = Some (y, r)"
    then have "length (drop k (c # cs)) < length s" by (simp add: s)
    with less.hyps [OF _ p] show ?thesis by simp
  qed (simp add: s)
qed

lemma parse_num_len: "parse_num s = Some (l, r) \<Longrightarrow> length r < length s"
proof -
  have i: "parse_int_part s = Some (l, r) \<Longrightarrow> length r < length s" for s l r
    by (auto simp: parse_int_part_def span_while_def length_dropWhile_le less_Suc_eq_le
        split: list.splits if_splits)
  have f: "parse_frac_part s = Some (l, r) \<Longrightarrow> length r \<le> length s" for s l r
    by (auto simp: parse_frac_part_def span_while_def length_dropWhile_le le_Suc_eq
        split: list.splits if_splits)
  have e: "parse_exp_part s = Some (l, r) \<Longrightarrow> length r \<le> length s" for s l r
    by (auto simp: parse_exp_part_def span_while_def Let_def
        intro: order_trans [OF length_dropWhile_le] split: list.splits if_splits)
  show "parse_num s = Some (l, r) \<Longrightarrow> length r < length s"
    by (fastforce simp: parse_num_def Let_def dest!: i f e split: list.splits if_splits option.splits)
qed

lemma expect_len: "expect lit v s = Some (w, r) \<Longrightarrow> lit \<noteq> [] \<Longrightarrow> length r < length s"
  by (cases s) (auto simp: expect_def split: if_splits)

lemma parse_len:
  "parse_value n d s = Some (v, r) \<Longrightarrow> length r < length s"
  "parse_elems n d s = Some (vs, r) \<Longrightarrow> length r < length s"
  "parse_members n d s = Some (ms, r) \<Longrightarrow> length r < length s"
proof (induction n d s and n d s and n d s arbitrary: v r and vs r and ms r
    rule: parse_value_parse_elems_parse_members.induct)
  case (2 n d s)
  from "2.prems" obtain c cs where ws: "skip_ws s = c # cs" by (auto split: list.splits)
  have "length r < length (c # cs)"
  proof (cases "c = CHR 0x7B \<or> c = CHR 0x5B")
    case True
    with "2.prems" ws obtain e es where es: "skip_ws cs = e # es" and d: "d \<noteq> 0"
      by (auto split: list.splits if_splits)
    have le: "length (e # es) \<le> length cs" using es skip_ws_len [of cs] by simp
    from "2.prems" ws es d True have "r = es \<or> length r < length (e # es)"
      using "2.IH"(1) [OF ws _ d es] "2.IH"(2) [OF ws _ _ d es] by (auto split: if_splits)
    with le show ?thesis by auto
  next
    case False
    with "2.prems" ws show ?thesis
      by (auto split: if_splits dest!: parse_str_len parse_num_len expect_len)
  qed
  then show ?case using ws skip_ws_len [of s] by simp
next
  case (4 n d s)
  then show ?case
    by (fastforce split: if_splits list.splits option.splits dest!: skip_ws_Cons_len)
next
  case (6 n d s)
  then show ?case
    by (fastforce split: if_splits list.splits option.splits dest!: skip_ws_Cons_len parse_str_len)
qed simp_all

text \<open>Beyond twice the length of the input, more fuel changes nothing.\<close>

lemma parse_fuel:
  "2 * length s < n \<Longrightarrow> n \<le> m \<Longrightarrow> parse_value m d s = parse_value n d s"
  "2 * length s + 1 < n \<Longrightarrow> n \<le> m \<Longrightarrow> parse_elems m d s = parse_elems n d s"
  "2 * length s < n \<Longrightarrow> n \<le> m \<Longrightarrow> parse_members m d s = parse_members n d s"
proof (induction n d s and n d s and n d s arbitrary: m and m and m
    rule: parse_value_parse_elems_parse_members.induct)
  case (2 n d s)
  from "2.prems" obtain k where m: "m = Suc k" "n \<le> k" by (cases m) auto
  show ?case
  proof (cases "skip_ws s")
    case (Cons c cs)
    have le: "2 * length (e # es) < n" "2 * length (e # es) + 1 < n" if "skip_ws cs = e # es" for e es
      using that skip_ws_len [of cs] skip_ws_len [of s] Cons "2.prems"(1) by simp_all
    have mem: "parse_members k (d - Suc 0) (e # es) = parse_members n (d - Suc 0) (e # es)"
      if "c = CHR 0x7B" "d \<noteq> 0" "skip_ws cs = e # es" "e \<noteq> CHR 0x7D" for e es
      using "2.IH"(1) [OF Cons that le(1) [OF that(3)] m(2)] by simp
    have el: "parse_elems k (d - Suc 0) (e # es) = parse_elems n (d - Suc 0) (e # es)"
      if "c \<noteq> CHR 0x7B" "c = CHR 0x5B" "d \<noteq> 0" "skip_ws cs = e # es" "e \<noteq> CHR 0x5D" for e es
      using "2.IH"(2) [OF Cons that le(2) [OF that(4)] m(2)] by simp
    show ?thesis
      unfolding m(1) parse_value.simps Cons list.case
      by (intro if_cong refl; cases "skip_ws cs") (simp_all add: mem el)
  qed (simp add: m)
next
  case (4 n d s)
  from "4.prems" obtain k where m: "m = Suc k" "n \<le> k" by (cases m) auto
  have v: "parse_value k d s = parse_value n d s" using "4.IH"(1) [OF _ m(2)] "4.prems"(1) by simp
  have "parse_elems k d cs = parse_elems n d cs"
    if "parse_value n d s = Some (v, r)" "skip_ws r = c # cs" "c = CHR 0x2C" for v r c cs
    using "4.IH"(2) [OF that(1) refl that(2,3) _ m(2)] parse_len(1) [OF that(1)]
      skip_ws_Cons_len [OF that(2)] "4.prems"(1) by simp
  then show ?case by (auto simp: m(1) v split: option.split list.split)
next
  case (6 n d s)
  from "6.prems" obtain k where m: "m = Suc k" "n \<le> k" by (cases m) auto
  show ?case
  proof (cases "skip_ws s")
    case (Cons q qs)
    have v: "parse_value k d cs = parse_value n d cs"
      if "q = CHR 0x22" "parse_str qs = Some (key, r)" "skip_ws r = c # cs" "c = CHR 0x3A" for key r c cs
      using "6.IH"(1) [OF Cons _ that(2) refl that(3) _ _ m(2)] that(1,4) skip_ws_Cons_len [OF Cons]
        skip_ws_Cons_len [OF that(3)] parse_str_len [OF that(2)] "6.prems"(1) by simp
    have "parse_members k d es = parse_members n d es"
      if "q = CHR 0x22" "parse_str qs = Some (key, r)" "skip_ws r = c # cs" "c = CHR 0x3A"
        "parse_value n d cs = Some (x, r')" "skip_ws r' = e # es" "e = CHR 0x2C" for key r c cs x r' e es
      using "6.IH"(2) [OF Cons _ that(2) refl that(3) _ that(5) refl that(6,7) _ m(2)] that(1,4)
        skip_ws_Cons_len [OF Cons] skip_ws_Cons_len [OF that(3)] skip_ws_Cons_len [OF that(6)]
        parse_str_len [OF that(2)] parse_len(1) [OF that(5)] "6.prems"(1) by simp
    with v show ?thesis by (auto simp: m(1) Cons split: option.split list.split)
  qed (simp add: m)
qed simp_all

lemma parse_value_fuel:
  "2 * length s < n \<Longrightarrow> parse_value n max_nesting_depth s = json_first s"
  using parse_fuel(1) [of s n "2 * length s + 2" max_nesting_depth]
    parse_fuel(1) [of s "2 * length s + 2" n max_nesting_depth]
  by (cases "n \<le> 2 * length s + 2") (simp_all add: json_first_def)

section \<open>Quoting and parsing a string are inverse\<close>

lemma list4_cases:
  obtains "r = []" | a where "r = [a]" | a b where "r = [a, b]" | a b c where "r = [a, b, c]"
  | a b c d e where "r = a # b # c # d # e"
  by (metis list.exhaust)

lemma utf8_len_append: "utf8_len r = Some n \<Longrightarrow> utf8_len (r @ t) = Some n"
  by (cases r rule: list4_cases) (simp_all add: utf8_len_def split: if_splits)

lemma utf8_len_prefix: "utf8_len (r @ t) = Some n \<Longrightarrow> n \<le> length r \<Longrightarrow> utf8_len r = Some n"
proof (cases r rule: list4_cases)
  assume "utf8_len (r @ t) = Some n" "n \<le> length r"
  { case 1 then show ?thesis using \<open>n \<le> length r\<close> utf8_len_bounds [of "r @ t" n] \<open>utf8_len (r @ t) = Some n\<close> by simp
  next
    case 2 then show ?thesis using \<open>n \<le> length r\<close> \<open>utf8_len (r @ t) = Some n\<close>
      by (auto simp: utf8_len_def split: if_splits list.splits)
  next
    case 3 then show ?thesis using \<open>n \<le> length r\<close> \<open>utf8_len (r @ t) = Some n\<close>
      by (auto simp: utf8_len_def split: if_splits list.splits)
  next
    case 4 then show ?thesis using \<open>n \<le> length r\<close> \<open>utf8_len (r @ t) = Some n\<close>
      by (auto simp: utf8_len_def split: if_splits list.splits)
  next
    case 5 then show ?thesis using \<open>utf8_len (r @ t) = Some n\<close>
      by (simp add: utf8_len_def split: if_splits) }
qed

lemma utf8_len_take: "utf8_len s = Some n \<Longrightarrow> utf8_len (take n s) = Some n"
  using utf8_len_prefix [of "take n s" "drop n s" n] utf8_len_bounds [of s n] by simp

lemma runes_len: "r \<in> set (runes s) \<Longrightarrow> utf8_len r \<noteq> None \<Longrightarrow> utf8_len r = Some (length r)"
proof (induction s rule: runes.induct)
  case 1
  then show ?case by simp
next
  case (2 c cs)
  show ?case
  proof (cases "r = take (rune_width (c # cs)) (c # cs)")
    case True
    show ?thesis
    proof (cases "utf8_len (c # cs)")
      case None
      with True 2(3) show ?thesis using utf8_len_bounds [of "[c]"] by (fastforce simp: rune_width_def)
    next
      case (Some n)
      with True show ?thesis
        using utf8_len_bounds [OF Some] utf8_len_take [OF Some] by (simp add: rune_width_def)
    qed
  next
    case False
    with 2 show ?thesis by (auto simp: runes.simps)
  qed
qed

lemma hex_val_char: "d < 16 \<Longrightarrow> hex_val (hex_char d) = Some d"
proof -
  have "list_all (\<lambda>d. hex_val (hex_char d) = Some d) [0..<16]" by code_simp
  then show "d < 16 \<Longrightarrow> ?thesis" by (simp add: list_all_iff)
qed

lemma char_of_byte [simp]: "char_of_nat (byte_of c) = c"
  by (simp add: char_of_nat_def byte_of_def)

lemma parse_str_hex:
  assumes "byte_of c < 128"
  shows "parse_str ([CHR 0x5C, CHR ''u'', CHR ''0'', CHR ''0'', hex_char (byte_of c div 16),
           hex_char (byte_of c mod 16)] @ t) = prepend [c] (parse_str t)"
proof -
  have "byte_of c div 16 < 16" using assms by simp
  then have "hex4 ([CHR ''0'', CHR ''0'', hex_char (byte_of c div 16), hex_char (byte_of c mod 16)] @ t)
      = Some (byte_of c)"
    by (simp add: hex4_def hex_val_char hex_val_def [of "CHR ''0''"] in_range_def byte_of_def)
  with assms show ?thesis
    by (simp add: parse_str.simps(2) pair_surrogate_def EncodeRune_def)
qed

lemma parse_str_ascii:
  assumes "byte_of c < 128"
  shows "parse_str (quote_ascii c @ t) = prepend [c] (parse_str t)"
proof (cases "quote_ascii c = [c]")
  case True
  then have "c \<noteq> CHR 0x22" "c \<noteq> CHR 0x5C" "\<not> byte_of c < 32"
    by (auto simp: quote_ascii_def split: if_splits)
  with True assms show ?thesis
    by (simp add: parse_str.simps(2) utf8_len_def rune_width_def)
next
  case False
  then consider "quote_ascii c = [CHR 0x5C, CHR ''u'', CHR ''0'', CHR ''0'', hex_char (byte_of c div 16),
        hex_char (byte_of c mod 16)]"
    | e where "quote_ascii c = [CHR 0x5C, e]" "e \<noteq> CHR ''u''" "simple_escape e = Some c"
    by (auto simp: quote_ascii_def simple_escape_def split: if_splits)
  then show ?thesis
  proof cases
    case 1
    then show ?thesis using parse_str_hex [OF assms, of t] by simp
  next
    case (2 e)
    then show ?thesis by (simp add: parse_str.simps(2))
  qed
qed

lemma parse_str_rune:
  assumes "utf8_len r = Some (length r)"
  shows "parse_str (quote_rune r @ t) = prepend r (parse_str t)"
proof (cases "length r = 1")
  case True
  then obtain c where r: "r = [c]" by (cases r) auto
  with assms have "byte_of c < 128" by (auto simp: utf8_len_def split: if_splits)
  then show ?thesis by (simp add: r quote_rune_def parse_str_ascii)
next
  case False
  obtain c cs where r: "r = c # cs" "cs \<noteq> []"
    using False assms utf8_len_bounds [OF assms] by (cases r; cases "tl r") auto
  have big: "\<not> byte_of c < 128"
    using assms r by (auto simp: utf8_len_def split: if_splits)
  have hd: "c \<noteq> CHR 0x22" "c \<noteq> CHR 0x5C" "\<not> byte_of c < 32"
    using big by (auto simp: byte_of_def)
  have w: "utf8_len (c # cs @ t) = Some (Suc (length cs))"
    using utf8_len_append [OF assms, of t] r(1) by simp
  have plain: "parse_str (r @ t) = prepend r (parse_str t)"
    using hd w by (simp add: r(1) parse_str.simps(2) rune_width_def)
  have bs: "r = map char_of_nat (map byte_of r)" by (simp add: map_idI)
  have u: "parse_str ((CHR 0x5C # ''u2028'') @ t) = prepend (map char_of_nat [226, 128, 168]) (parse_str t)"
    "parse_str ((CHR 0x5C # ''u2029'') @ t) = prepend (map char_of_nat [226, 128, 169]) (parse_str t)"
    by (simp_all add: parse_str.simps(2) hex4_def hex_val_def in_range_def byte_of_def
        pair_surrogate_def EncodeRune_def)
  have q: "quote_rune r = (if map byte_of r = [226, 128, 168] then CHR 0x5C # ''u2028''
      else if map byte_of r = [226, 128, 169] then CHR 0x5C # ''u2029'' else r)"
    using r by (cases cs) (simp_all add: quote_rune_def)
  show ?thesis unfolding q using plain u bs by (auto simp del: append_Cons)
qed

lemma parse_str_runes:
  "list_all (\<lambda>r. utf8_len r = Some (length r)) rs \<Longrightarrow>
   parse_str (concat (map quote_rune rs) @ CHR 0x22 # t) = Some (concat rs, t)"
proof (induction rs)
  case Nil
  show ?case by (simp add: parse_str.simps(2))
next
  case (Cons r rs)
  then show ?case by (simp add: parse_str_rune prepend_Some del: append_Cons)
qed

lemma parse_json_string:
  assumes "ValidString s"
  shows "parse_str (tl (json_string s) @ t) = Some (s, t)"
proof -
  have "list_all (\<lambda>r. utf8_len r = Some (length r)) (runes s)"
    using assms runes_len by (simp add: ValidString_def list_all_iff)
  from parse_str_runes [OF this, of t] show ?thesis by (simp add: json_string_def)
qed

end
