(* ===== verification/Queue.thy ===== *)
theory Queue
  imports Prelude
begin

text \<open>
  \<^verbatim>\<open>internal/queue/queue.go\<close>: the streams, the consumer groups and the message that crosses
  the broker.
\<close>

definition StreamExtract :: string where "StreamExtract = ''pipeline:extract''"
definition StreamClassify :: string where "StreamClassify = ''pipeline:classify''"
definition GroupExtract :: string where "GroupExtract = ''extractors''"
definition GroupClassify :: string where "GroupClassify = ''classifiers''"

lemma stream_distinct [simp, dom_simps]:
  "StreamExtract \<noteq> StreamClassify" "StreamClassify \<noteq> StreamExtract"
  by (simp_all add: StreamExtract_def StreamClassify_def)

record Message =
  msg_Key :: string
  msg_Payload :: string

end
