(* ===== verification/Domain.thy ===== *)
theory Domain
  imports Prelude
begin

text \<open>
  \<^verbatim>\<open>internal/domain/domain.go\<close>: the statuses and categories (Go string types with named
  constants), the position, entity, document, token and classification structs, the
  stage durations and the token filter.
\<close>

section \<open>Statuses, categories, modes\<close>

type_synonym DocStatus = string
type_synonym TokenStatus = string
type_synonym Category = string
type_synonym RerunMode = string

definition DocPending :: DocStatus where "DocPending = ''PENDING''"
definition DocExtracting :: DocStatus where "DocExtracting = ''EXTRACTING''"
definition DocClassifying :: DocStatus where "DocClassifying = ''CLASSIFYING''"
definition DocCompleted :: DocStatus where "DocCompleted = ''COMPLETED''"
definition DocFailed :: DocStatus where "DocFailed = ''FAILED''"

definition DocStatus_Valid :: "DocStatus \<Rightarrow> bool" where
  "DocStatus_Valid s \<longleftrightarrow>
     s = DocPending \<or> s = DocExtracting \<or> s = DocClassifying \<or> s = DocCompleted \<or> s = DocFailed"

definition TokenPending :: TokenStatus where "TokenPending = ''PENDING''"
definition TokenClassified :: TokenStatus where "TokenClassified = ''CLASSIFIED''"

definition CategoryCompany :: Category where "CategoryCompany = ''COMPANY''"
definition CategoryPerson :: Category where "CategoryPerson = ''PERSON''"
definition CategoryAddress :: Category where "CategoryAddress = ''ADDRESS''"
definition CategoryDate :: Category where "CategoryDate = ''DATE''"
definition CategoryUnknown :: Category where "CategoryUnknown = ''UNKNOWN''"

definition Category_Valid :: "Category \<Rightarrow> bool" where
  "Category_Valid c \<longleftrightarrow>
     c = CategoryCompany \<or> c = CategoryPerson \<or> c = CategoryAddress \<or>
     c = CategoryDate \<or> c = CategoryUnknown"

definition RerunPartial :: RerunMode where "RerunPartial = ''partial''"
definition RerunFull :: RerunMode where "RerunFull = ''full''"

lemma doc_status_distinct [simp, dom_simps]:
  "DocPending \<noteq> DocExtracting" "DocExtracting \<noteq> DocPending"
  "DocPending \<noteq> DocClassifying" "DocClassifying \<noteq> DocPending"
  "DocPending \<noteq> DocCompleted" "DocCompleted \<noteq> DocPending"
  "DocPending \<noteq> DocFailed" "DocFailed \<noteq> DocPending"
  "DocExtracting \<noteq> DocClassifying" "DocClassifying \<noteq> DocExtracting"
  "DocExtracting \<noteq> DocCompleted" "DocCompleted \<noteq> DocExtracting"
  "DocExtracting \<noteq> DocFailed" "DocFailed \<noteq> DocExtracting"
  "DocClassifying \<noteq> DocCompleted" "DocCompleted \<noteq> DocClassifying"
  "DocClassifying \<noteq> DocFailed" "DocFailed \<noteq> DocClassifying"
  "DocCompleted \<noteq> DocFailed" "DocFailed \<noteq> DocCompleted"
  by (simp_all add: DocPending_def DocExtracting_def DocClassifying_def DocCompleted_def
      DocFailed_def)

lemma token_status_distinct [simp, dom_simps]:
  "TokenPending \<noteq> TokenClassified" "TokenClassified \<noteq> TokenPending"
  by (simp_all add: TokenPending_def TokenClassified_def)

lemma rerun_mode_distinct [simp, dom_simps]:
  "RerunPartial \<noteq> RerunFull" "RerunFull \<noteq> RerunPartial"
  by (simp_all add: RerunPartial_def RerunFull_def)

lemma category_distinct [simp, dom_simps]:
  "distinct [CategoryCompany, CategoryPerson, CategoryAddress, CategoryDate, CategoryUnknown]"
  by (simp add: CategoryCompany_def CategoryPerson_def CategoryAddress_def CategoryDate_def
      CategoryUnknown_def)

lemma doc_status_valid [simp, intro]:
  "DocStatus_Valid DocPending" "DocStatus_Valid DocExtracting" "DocStatus_Valid DocClassifying"
  "DocStatus_Valid DocCompleted" "DocStatus_Valid DocFailed"
  by (simp_all add: DocStatus_Valid_def)

section \<open>Structs\<close>

text \<open>
  A \<^verbatim>\<open>time.Time\<close> is its instant in nanoseconds, a \<^verbatim>\<open>*time.Time\<close> an option. A
  \<^verbatim>\<open>float64\<close> is the rational number it denotes.
\<close>

type_synonym time = int
type_synonym float64 = rat

record Position =
  Page :: int
  Sentence :: int
  CharOffset :: int

record Entity =
  ent_Text :: string
  ent_Context :: string
  ent_Position :: Position

record Document =
  doc_ID :: string
  doc_Text :: string
  doc_ContentHash :: string
  doc_Status :: DocStatus
  doc_RunVersion :: int
  doc_TotalTokens :: int
  doc_ClassifiedCount :: int
  ExtractionStartedAt :: "time option"
  ExtractionCompletedAt :: "time option"
  ClassificationStartedAt :: "time option"
  ClassificationCompletedAt :: "time option"
  doc_CreatedAt :: time
  doc_UpdatedAt :: time

record Token =
  tok_ID :: int
  tok_DocumentID :: string
  tok_RunVersion :: int
  tok_Text :: string
  tok_Context :: string
  tok_Position :: Position
  tok_Status :: TokenStatus
  tok_Classification :: "Category option"
  tok_Confidence :: "float64 option"
  tok_Reasoning :: "string option"
  tok_CreatedAt :: time
  tok_ClassifiedAt :: "time option"

record Classification =
  cls_Category :: Category
  cls_Confidence :: float64
  cls_Reasoning :: string

record TokenFilter =
  flt_Classification :: "Category option"
  flt_Status :: "TokenStatus option"
  flt_Page :: "int option"
  flt_Limit :: int
  flt_Offset :: int

section \<open>Durations\<close>

text \<open>\<^verbatim>\<open>Time.Sub\<close> saturates at the 64-bit range of \<^verbatim>\<open>time.Duration\<close>.\<close>

definition time_Sub :: "time \<Rightarrow> time \<Rightarrow> int" where
  "time_Sub t u = max (- (2 ^ 63)) (min (2 ^ 63 - 1) (t - u))"

definition Durations :: "Document \<Rightarrow> int \<times> int" where
  "Durations d =
     ((case (ExtractionStartedAt d, ExtractionCompletedAt d) of
         (Some a, Some b) \<Rightarrow> time_Sub b a
       | _ \<Rightarrow> 0),
      (case (ClassificationStartedAt d, ClassificationCompletedAt d) of
         (Some a, Some b) \<Rightarrow> time_Sub b a
       | _ \<Rightarrow> 0))"

lemma time_Sub_nonneg: "u \<le> t \<Longrightarrow> 0 \<le> time_Sub t u"
  by (simp add: time_Sub_def)

lemma time_Sub_exact: "\<bar>t - u\<bar> < 2 ^ 63 \<Longrightarrow> time_Sub t u = t - u"
  by (simp add: time_Sub_def)

end
