(* ===== verification/Go_Float.thy ===== *)
theory Go_Float
  imports Prelude
begin

text \<open>
  Binary floating point as the program uses it: a \<^verbatim>\<open>float64\<close> is the rational it denotes, an
  operation's result is the exact result rounded to nearest, ties to even, to 53 bits
  (\<open>float64_of\<close>) or, for PostgreSQL's \<^verbatim>\<open>REAL\<close> columns, to 24 bits (\<open>float32_of\<close>), with the
  gradual underflow of the format. Overflow to infinity and NaN are not modelled: the values
  the program computes are confidences in \<open>[0, 1]\<close>, percentages and durations in seconds.
\<close>

fun log2_nat :: "nat \<Rightarrow> nat" where
  "log2_nat n = (if n < 2 then 0 else Suc (log2_nat (n div 2)))"

declare log2_nat.simps [simp del]

definition exponent2 :: "rat \<Rightarrow> int" where
  "exponent2 x =
     (if 1 \<le> x then int (log2_nat (nat \<lfloor>x\<rfloor>))
      else - (let n = nat \<lceil>1 / x\<rceil> in if n \<le> 1 then 0 else int (Suc (log2_nat (n - 1)))))"

definition round_half_even :: "rat \<Rightarrow> int" where
  "round_half_even x =
     (let f = \<lfloor>x\<rfloor>; d = x - of_int f
      in if d < 1 / 2 then f else if 1 / 2 < d then f + 1 else if even f then f else f + 1)"

definition round_float :: "int \<Rightarrow> int \<Rightarrow> rat \<Rightarrow> rat" where
  "round_float p emin x =
     (if x = 0 then 0
      else let q = max (exponent2 \<bar>x\<bar> - (p - 1)) emin
           in of_int (round_half_even (x / 2 powi q)) * 2 powi q)"

definition float64_of :: "rat \<Rightarrow> rat" where
  "float64_of x = round_float 53 (- 1074) x"

definition float32_of :: "rat \<Rightarrow> rat" where
  "float32_of x = round_float 24 (- 149) x"

section \<open>Rounding to an integer\<close>

lemma round_half_even_of_int [simp]: "round_half_even (of_int n) = n"
  by (simp add: round_half_even_def)

lemma round_half_even_bounds: "\<lfloor>x\<rfloor> \<le> round_half_even x" "round_half_even x \<le> \<lceil>x\<rceil>"
proof -
  show "\<lfloor>x\<rfloor> \<le> round_half_even x" by (simp add: round_half_even_def Let_def)
  show "round_half_even x \<le> \<lceil>x\<rceil>"
    by (auto simp: round_half_even_def Let_def ceiling_altdef)
qed

lemma round_half_even_le_int: "x \<le> of_int n \<Longrightarrow> round_half_even x \<le> n"
  using round_half_even_bounds(2) [of x] by (meson ceiling_le order_trans)

lemma round_half_even_ge_int: "of_int n \<le> x \<Longrightarrow> n \<le> round_half_even x"
  using round_half_even_bounds(1) [of x] by (meson le_floor_iff order_trans)

lemma round_half_even_mono: "x \<le> y \<Longrightarrow> round_half_even x \<le> round_half_even y"
proof (cases "\<lfloor>x\<rfloor> = \<lfloor>y\<rfloor>")
  case True
  moreover assume "x \<le> y"
  ultimately show ?thesis by (auto simp: round_half_even_def Let_def)
next
  case False
  assume "x \<le> y"
  with False have "\<lfloor>x\<rfloor> < \<lfloor>y\<rfloor>" by (meson floor_mono order_le_imp_less_or_eq)
  moreover have "round_half_even x \<le> \<lfloor>x\<rfloor> + 1" by (simp add: round_half_even_def Let_def)
  ultimately show ?thesis using round_half_even_bounds(1) [of y] by linarith
qed

section \<open>Rounding keeps the unit interval\<close>

lemma exponent2_le_one: "0 < x \<Longrightarrow> x \<le> 1 \<Longrightarrow> exponent2 x \<le> 0"
  by (cases "x = 1") (auto simp: exponent2_def Let_def log2_nat.simps)

lemma powi2_pos [simp]: "0 < (2 :: rat) powi q"
  by (simp add: zero_less_power_int)

lemma powi2_nonpos_inverse: "q \<le> 0 \<Longrightarrow> \<exists>n. 1 / (2 :: rat) powi q = of_int n"
proof -
  assume "q \<le> 0"
  then have "1 / (2 :: rat) powi q = of_int (2 ^ nat (- q))"
    by (auto simp: power_int_def power_inverse field_simps)
  then show ?thesis by blast
qed

lemma round_float_unit:
  assumes "0 \<le> x" and "x \<le> 1" and "1 \<le> p" and "emin \<le> 0"
  shows "0 \<le> round_float p emin x" and "round_float p emin x \<le> 1"
proof -
  define q where "q = max (exponent2 \<bar>x\<bar> - (p - 1)) emin"
  have rf: "round_float p emin x = (if x = 0 then 0 else of_int (round_half_even (x / 2 powi q)) * 2 powi q)"
    by (simp add: round_float_def q_def Let_def)
  have "(0 :: rat) \<le> of_int (round_half_even (x / 2 powi q))"
    using assms(1) round_half_even_ge_int [of 0 "x / 2 powi q"] by simp
  then show "0 \<le> round_float p emin x"
    unfolding rf by (auto intro: mult_nonneg_nonneg less_imp_le)
  show "round_float p emin x \<le> 1"
  proof (cases "x = 0")
    case True
    then show ?thesis by (simp add: round_float_def)
  next
    case False
    with assms have "q \<le> 0" using exponent2_le_one [of x] by (simp add: q_def)
    then obtain n where n: "1 / (2 :: rat) powi q = of_int n" using powi2_nonpos_inverse by blast
    have "x / 2 powi q \<le> 1 / 2 powi q" using assms(2) by (simp add: divide_right_mono)
    then have "round_half_even (x / 2 powi q) \<le> n" using n round_half_even_le_int by simp
    then have "(of_int (round_half_even (x / 2 powi q)) :: rat) \<le> 1 / 2 powi q"
      using n by (metis of_int_le_iff)
    then have "of_int (round_half_even (x / 2 powi q)) * (2 :: rat) powi q \<le> 1"
      by (simp add: pos_le_divide_eq)
    with False show ?thesis by (simp add: rf)
  qed
qed

lemma float64_of_unit: "0 \<le> x \<Longrightarrow> x \<le> 1 \<Longrightarrow> 0 \<le> float64_of x \<and> float64_of x \<le> 1"
  by (simp add: float64_of_def round_float_unit)

lemma float32_of_unit: "0 \<le> x \<Longrightarrow> x \<le> 1 \<Longrightarrow> 0 \<le> float32_of x \<and> float32_of x \<le> 1"
  by (simp add: float32_of_def round_float_unit)

section \<open>The binade below one\<close>

text \<open>
  Between a half and one the float64 numbers are the multiples of \<open>2 ^ - 53\<close>: rounding is
  monotone there, and exact on them. In the unit interval it errs by \<open>2 ^ - 53\<close> at most.
\<close>

lemma float64_of_half:
  assumes "1 / 2 \<le> x" and "x < 1"
  shows "float64_of x = of_int (round_half_even (x * 2 ^ 53)) / 2 ^ 53"
proof -
  have "\<lceil>1 / x\<rceil> = 2"
    using assms by (intro ceiling_unique) (simp_all add: field_simps)
  then have "exponent2 x = - 1" using assms by (simp add: exponent2_def log2_nat.simps)
  moreover have "\<bar>x\<bar> = x" "x \<noteq> 0" using assms by auto
  moreover have "(2 :: rat) powi (- 53) = 1 / 2 ^ 53" by (simp add: power_int_def power_divide)
  ultimately show ?thesis by (simp add: float64_of_def round_float_def max_def)
qed

lemma float64_of_half_mono: "1 / 2 \<le> x \<Longrightarrow> x \<le> y \<Longrightarrow> y < 1 \<Longrightarrow> float64_of x \<le> float64_of y"
  using round_half_even_mono [of "x * 2 ^ 53" "y * 2 ^ 53"]
  by (simp add: float64_of_half divide_right_mono)

lemma float64_of_half_exact:
  "1 / 2 \<le> x \<Longrightarrow> x < 1 \<Longrightarrow> x * 2 ^ 53 = of_int k \<Longrightarrow> float64_of x = x"
proof -
  assume x: "1 / 2 \<le> x" "x < 1" and k: "x * 2 ^ 53 = of_int k"
  have "float64_of x = of_int k / 2 ^ 53" unfolding float64_of_half [OF x] k by simp
  then show ?thesis using k [symmetric] by simp
qed

lemma round_half_even_error: "\<bar>of_int (round_half_even x) - x\<bar> \<le> 1 / 2"
proof -
  have "0 \<le> x - of_int \<lfloor>x\<rfloor>" "x - of_int \<lfloor>x\<rfloor> < 1" by linarith+
  then show ?thesis by (auto simp: round_half_even_def Let_def abs_le_iff)
qed

lemma float64_of_error:
  assumes "0 \<le> x" and "x \<le> 1"
  shows "\<bar>float64_of x - x\<bar> \<le> 1 / 2 ^ 53"
proof (cases "x = 0")
  case True
  then show ?thesis by (simp add: float64_of_def round_float_def)
next
  case False
  define q where "q = max (exponent2 x - 52) (- 1074)"
  have q: "q \<le> - 52" using exponent2_le_one [of x] False assms by (simp add: q_def)
  let ?u = "(2 :: rat) powi q"
  have "float64_of x = of_int (round_half_even (x / ?u)) * ?u"
    using False assms by (simp add: float64_of_def round_float_def q_def Let_def)
  then have "float64_of x - x = (of_int (round_half_even (x / ?u)) - x / ?u) * ?u"
    by (simp add: field_simps)
  then have "\<bar>float64_of x - x\<bar> \<le> 1 / 2 * ?u"
    using round_half_even_error [of "x / ?u"] by (simp add: abs_mult mult_right_mono)
  also have "?u \<le> 2 powi (- 52)" using q by (intro power_int_increasing) auto
  then have "1 / 2 * ?u \<le> 1 / 2 * 2 powi (- 52)" by simp
  also have "1 / 2 * (2 :: rat) powi (- 52) = 1 / 2 ^ 53" by (simp add: power_int_def power_divide)
  finally show ?thesis .
qed

section \<open>Integers\<close>

text \<open>Integers below \<open>2 ^ 53\<close> are float64 numbers, and rounding does not pass them.\<close>

lemma log2_nat_less: "n < 2 ^ k \<Longrightarrow> 0 < k \<Longrightarrow> log2_nat n < k"
proof (induction n arbitrary: k rule: log2_nat.induct)
  case (1 n)
  show ?case
  proof (cases "n < 2")
    case True
    with 1 show ?thesis by (simp add: log2_nat.simps [of n])
  next
    case False
    with "1.prems" obtain j where j: "k = Suc j" "0 < j" by (cases k; cases "k - 1") auto
    with "1.prems" have "n div 2 < 2 ^ j" by auto
    with "1.IH" False j show ?thesis by (simp add: log2_nat.simps [of n])
  qed
qed

lemma float64_of_int_bound:
  assumes "0 \<le> x" and "x \<le> of_int n" and "n < 2 ^ 53"
  shows "0 \<le> float64_of x \<and> float64_of x \<le> of_int n"
proof (cases "x \<le> 1")
  case True
  from float64_of_unit [OF assms(1) True] have "0 \<le> float64_of x" "float64_of x \<le> 1" by auto
  show ?thesis
  proof (cases "x = 0")
    case True
    with assms show ?thesis by (simp add: float64_of_def round_float_def)
  next
    case False
    with assms have "0 < (of_int n :: rat)" by linarith
    then have "1 \<le> (of_int n :: rat)" by simp
    with \<open>0 \<le> float64_of x\<close> \<open>float64_of x \<le> 1\<close> show ?thesis by linarith
  qed
next
  case False
  define q where "q = max (exponent2 x - 52) (- 1074)"
  have fl: "nat \<lfloor>x\<rfloor> < 2 ^ 53"
  proof -
    have "\<lfloor>x\<rfloor> \<le> n" using assms(2) by (simp add: floor_le_iff)
    then have "\<lfloor>x\<rfloor> < 2 ^ 53" using assms(3) by linarith
    then show ?thesis using False by (subst nat_less_iff) (simp_all add: floor_less_iff)
  qed
  have "exponent2 x \<le> 52"
    using log2_nat_less [OF fl] False by (simp add: exponent2_def)
  then have "q \<le> 0" by (simp add: q_def)
  then obtain k where k: "1 / (2 :: rat) powi q = of_int k" using powi2_nonpos_inverse by blast
  have fx: "float64_of x = of_int (round_half_even (x / 2 powi q)) * 2 powi q"
    using False by (simp add: float64_of_def round_float_def q_def Let_def)
  have "x / 2 powi q \<le> of_int n * (1 / 2 powi q)" using assms(2) by (simp add: divide_right_mono)
  then have "round_half_even (x / 2 powi q) \<le> n * k" using k round_half_even_le_int by simp
  then have "(of_int (round_half_even (x / 2 powi q)) :: rat) \<le> of_int n * (1 / 2 powi q)"
    using k by (metis of_int_le_iff of_int_mult)
  then have "float64_of x \<le> of_int n" unfolding fx by (simp add: pos_le_divide_eq)
  moreover have "(0 :: rat) \<le> of_int (round_half_even (x / 2 powi q))"
    using assms(1) round_half_even_ge_int [of 0 "x / 2 powi q"] by simp
  then have "0 \<le> float64_of x" unfolding fx by (simp add: mult_nonneg_nonneg)
  ultimately show ?thesis by simp
qed

lemma float64_of_int_exact:
  assumes "0 \<le> n" and "n < 2 ^ 53"
  shows "float64_of (of_int n) = of_int n"
proof (cases "n = 0")
  case True
  then show ?thesis by (simp add: float64_of_def round_float_def)
next
  case False
  with assms have n: "1 \<le> n" by simp
  define q where "q = max (exponent2 (of_int n) - 52) (- 1074)"
  have "nat n < 2 ^ 53" using assms by (simp add: nat_less_iff)
  then have "exponent2 (of_int n) \<le> 52" using log2_nat_less [of "nat n" 53] n by (simp add: exponent2_def)
  then have "q \<le> 0" by (simp add: q_def)
  then obtain k where k: "1 / (2 :: rat) powi q = of_int k" using powi2_nonpos_inverse by blast
  have "float64_of (of_int n) = of_int (round_half_even (of_int n / 2 powi q)) * 2 powi q"
    using n by (simp add: float64_of_def round_float_def q_def Let_def)
  moreover have "of_int n / (2 :: rat) powi q = of_int (n * k)" using k by (simp add: field_simps)
  ultimately have "float64_of (of_int n) = of_int (n * k) * 2 powi q"
    by (simp only: round_half_even_of_int)
  then have "float64_of (of_int n) = of_int n * (of_int k * 2 powi q)" by simp
  also have "of_int k * (2 :: rat) powi q = 1" using k by (simp add: field_simps)
  finally show ?thesis by simp
qed

end
