(* ===== verification/Store.thy ===== *)
theory Store
  imports Domain Queue Go_Hash Go_Float Go_Strings
begin

text \<open>
  \<^verbatim>\<open>internal/store\<close> with its schema (\<^verbatim>\<open>migrations/*.sql\<close>): the three tables, the transaction
  wrapper \<^verbatim>\<open>WithinTx\<close> and every statement the repository issues, each translated from its
  SQL text.

  The database is a record: the tables, the two sequences behind the \<^verbatim>\<open>BIGSERIAL\<close> keys, the
  server clock (\<^verbatim>\<open>now()\<close> is the start of the transaction) and \<open>faults\<close>, the environment's
  choice for the coming round trips: \<open>Fail\<close> loses the request, \<open>FailAfter\<close> loses the reply.
  A statement of a transaction reports an error in both cases; a commit that loses its reply
  has happened. An empty list means no further faults. Sequences are not transactional: a
  rollback restores the tables and keeps the sequences. Neither is the broker, which the
  relay writes to inside a transaction: \<open>broker_log\<close> is everything ever published, and a
  rollback keeps it.
\<close>

section \<open>Tables\<close>

record OutboxRow =
  obx_ID :: int
  obx_Stream :: string
  obx_Key :: string
  obx_Payload :: string

record tables =
  documents :: "string \<rightharpoonup> Document"
  tokens :: "Token list"
  outbox :: "OutboxRow list"

datatype fault = OK | Fail | FailAfter

record pg =
  tbl :: tables
  tokens_id_seq :: int
  outbox_id_seq :: int
  now :: time
  faults :: "fault list"
  broker_log :: "(string \<times> Message) list"

text \<open>The ranges of the \<^verbatim>\<open>INTEGER\<close> and \<^verbatim>\<open>BIGINT\<close> columns.\<close>

definition int4_ok :: "int \<Rightarrow> bool" where
  "int4_ok n \<longleftrightarrow> - (2 ^ 31) \<le> n \<and> n < 2 ^ 31"

definition int8_ok :: "int \<Rightarrow> bool" where
  "int8_ok n \<longleftrightarrow> - (2 ^ 63) \<le> n \<and> n < 2 ^ 63"

text \<open>A \<^verbatim>\<open>TEXT\<close> value is valid UTF-8 without the zero byte; the server refuses any other.\<close>

definition text_ok :: "string \<Rightarrow> bool" where
  "text_ok x \<longleftrightarrow> ValidString x \<and> CHR 0x00 \<notin> set x"

section \<open>The transaction monad\<close>

type_synonym 'a tx = "pg \<Rightarrow> (go_error + 'a) \<times> pg"

definition tx_return :: "'a \<Rightarrow> 'a tx" where
  "tx_return x s = (Inr x, s)"

definition tx_fail :: "go_error \<Rightarrow> 'a tx" where
  "tx_fail e s = (Inl e, s)"

definition tx_bind :: "'a tx \<Rightarrow> ('a \<Rightarrow> 'b tx) \<Rightarrow> 'b tx" where
  "tx_bind m f s = (case m s of (Inl e, s') \<Rightarrow> (Inl e, s') | (Inr x, s') \<Rightarrow> f x s')"

text \<open>The error of a call as a value, for code that inspects it before returning.\<close>

definition tx_try :: "'a tx \<Rightarrow> (go_error + 'a) tx" where
  "tx_try m s = (case m s of (r, s') \<Rightarrow> (Inr r, s'))"

text \<open>\<^verbatim>\<open>fmt.Errorf("what: %w", err)\<close> around a call.\<close>

definition tx_wrap :: "string \<Rightarrow> 'a tx \<Rightarrow> 'a tx" where
  "tx_wrap what m s = (case m s of (Inl e, s') \<Rightarrow> (Inl (Wrap what e), s') | (Inr x, s') \<Rightarrow> (Inr x, s'))"

text \<open>One round trip: consult the environment, then run the statement.\<close>

definition next_fault :: "pg \<Rightarrow> fault" where
  "next_fault s = (case faults s of [] \<Rightarrow> OK | f # _ \<Rightarrow> f)"

definition pop_fault :: "pg \<Rightarrow> pg" where
  "pop_fault s = s\<lparr>faults := tl (faults s)\<rparr>"

definition stmt :: "'a tx \<Rightarrow> 'a tx" where
  "stmt f s = (if next_fault s = OK then f (pop_fault s) else (Inl ErrDB, pop_fault s))"

text \<open>\<^verbatim>\<open>pgx.CollectExactlyOneRow\<close> over the rows of a query.\<close>

definition CollectExactlyOneRow :: "'a list \<Rightarrow> go_error + 'a" where
  "CollectExactlyOneRow rows =
     (case rows of [] \<Rightarrow> Inl ErrNoRows | [r] \<Rightarrow> Inr r | _ \<Rightarrow> Inl ErrTooManyRows)"

text \<open>
  \<^verbatim>\<open>Store.WithinTx\<close>: begin, run the body, commit if it succeeded, roll back otherwise.
\<close>

definition WithinTx :: "'a tx \<Rightarrow> 'a tx" where
  "WithinTx fn s =
     (if next_fault s \<noteq> OK then (Inl ErrDB, pop_fault s)
      else case fn (pop_fault s) of
        (Inl e, s') \<Rightarrow> (Inl e, s'\<lparr>tbl := tbl s\<rparr>)
      | (Inr x, s') \<Rightarrow>
          (case next_fault s' of
             OK \<Rightarrow> (Inr x, pop_fault s')
           | Fail \<Rightarrow> (Inl ErrDB, (pop_fault s')\<lparr>tbl := tbl s\<rparr>)
           | FailAfter \<Rightarrow> (Inl ErrDB, pop_fault s')))"

section \<open>Documents\<close>

definition upd_documents :: "((string \<rightharpoonup> Document) \<Rightarrow> (string \<rightharpoonup> Document)) \<Rightarrow> pg \<Rightarrow> pg" where
  "upd_documents f s = s\<lparr>tbl := (tbl s)\<lparr>documents := f (documents (tbl s))\<rparr>\<rparr>"

definition upd_tokens :: "(Token list \<Rightarrow> Token list) \<Rightarrow> pg \<Rightarrow> pg" where
  "upd_tokens f s = s\<lparr>tbl := (tbl s)\<lparr>tokens := f (tokens (tbl s))\<rparr>\<rparr>"

definition upd_outbox :: "(OutboxRow list \<Rightarrow> OutboxRow list) \<Rightarrow> pg \<Rightarrow> pg" where
  "upd_outbox f s = s\<lparr>tbl := (tbl s)\<lparr>outbox := f (outbox (tbl s))\<rparr>\<rparr>"

text \<open>\<^verbatim>\<open>UPDATE documents SET ... WHERE id=$1\<close>: no row, no effect.\<close>

definition update_doc :: "string \<Rightarrow> (Document \<Rightarrow> Document) \<Rightarrow> pg \<Rightarrow> pg" where
  "update_doc rid f s =
     (case documents (tbl s) rid of
        None \<Rightarrow> s
      | Some d \<Rightarrow> upd_documents (\<lambda>m. m(rid \<mapsto> f d)) s)"

definition select_doc :: "string \<Rightarrow> pg \<Rightarrow> Document list" where
  "select_doc rid s = (case documents (tbl s) rid of None \<Rightarrow> [] | Some d \<Rightarrow> [d])"

text \<open>
  \<^verbatim>\<open>Store.GetDocument\<close>: the single-statement read used by the status and token queries. Its
  error is the driver's own: the query's \<^verbatim>\<open>pgx.ErrNoRows\<close> is passed on.
\<close>

definition GetDocument :: "string \<Rightarrow> Document tx" where
  "GetDocument rid = stmt (\<lambda>s.
     if text_ok rid then (CollectExactlyOneRow (select_doc rid s), s) else (Inl ErrDB, s))"

text \<open>\<^verbatim>\<open>getDocumentTx\<close>: the row lock of \<^verbatim>\<open>FOR UPDATE\<close> does not change the tables.\<close>

definition getDocumentTx :: "string \<Rightarrow> bool \<Rightarrow> Document tx" where
  "getDocumentTx rid forUpdate = stmt (\<lambda>s.
     if \<not> text_ok rid then (Inl ErrDB, s) else
     (case CollectExactlyOneRow (select_doc rid s) of
        Inl e \<Rightarrow> if errors_Is e ErrNoRows then (Inl ErrNotFound, s) else (Inl e, s)
      | Inr d \<Rightarrow> (Inr d, s)))"

definition GetDocumentForUpdate :: "string \<Rightarrow> Document tx" where
  "GetDocumentForUpdate rid = getDocumentTx rid True"

text \<open>The row \<^verbatim>\<open>INSERT INTO documents\<close> writes, with the schema's defaults.\<close>

definition new_document :: "string \<Rightarrow> string \<Rightarrow> time \<Rightarrow> Document" where
  "new_document rid text t =
     \<lparr>doc_ID = rid, doc_Text = text, doc_ContentHash = HashText text,
      doc_Status = DocPending, doc_RunVersion = 1,
      doc_TotalTokens = 0, doc_ClassifiedCount = 0,
      ExtractionStartedAt = None, ExtractionCompletedAt = None,
      ClassificationStartedAt = None, ClassificationCompletedAt = None,
      doc_CreatedAt = t, doc_UpdatedAt = t\<rparr>"

definition InsertDocument :: "string \<Rightarrow> string \<Rightarrow> Document tx" where
  "InsertDocument rid text =
     tx_bind (tx_wrap ''insert document'' (stmt (\<lambda>s.
       if \<not> (text_ok rid \<and> text_ok text) then (Inl ErrDB, s) else
       (case documents (tbl s) rid of
          Some _ \<Rightarrow> (Inl ErrDB, s)
        | None \<Rightarrow> (Inr (), upd_documents (\<lambda>m. m(rid \<mapsto> new_document rid text (now s))) s)))))
     (\<lambda>_. getDocumentTx rid False)"

text \<open>The manifest reset of a full rerun.\<close>

definition reset_row :: "string \<Rightarrow> time \<Rightarrow> Document \<Rightarrow> Document" where
  "reset_row text t d =
     d\<lparr>doc_Text := text, doc_ContentHash := HashText text, doc_Status := DocPending,
       doc_RunVersion := doc_RunVersion d + 1,
       doc_TotalTokens := 0, doc_ClassifiedCount := 0,
       ExtractionStartedAt := None, ExtractionCompletedAt := None,
       ClassificationStartedAt := None, ClassificationCompletedAt := None,
       doc_UpdatedAt := t\<rparr>"

definition ResetDocument :: "string \<Rightarrow> string \<Rightarrow> Document tx" where
  "ResetDocument rid text =
     tx_bind (tx_wrap ''delete tokens'' (stmt (\<lambda>s.
       (Inr (), upd_tokens (filter (\<lambda>t. tok_DocumentID t \<noteq> rid)) s))))
     (\<lambda>_. tx_bind (tx_wrap ''reset document'' (stmt (\<lambda>s.
       if \<not> text_ok text then (Inl ErrDB, s) else
       (case documents (tbl s) rid of
          Some d \<Rightarrow> if int4_ok (doc_RunVersion d + 1)
                     then (Inr (), update_doc rid (reset_row text (now s)) s) else (Inl ErrDB, s)
        | None \<Rightarrow> (Inr (), s)))))
     (\<lambda>_. getDocumentTx rid False))"

definition SetDocumentPending :: "string \<Rightarrow> unit tx" where
  "SetDocumentPending rid = tx_wrap ''set document pending'' (stmt (\<lambda>s.
     (Inr (), update_doc rid (\<lambda>d. d\<lparr>doc_Status := DocPending, doc_UpdatedAt := now s\<rparr>) s)))"

definition SetExtractionStarted :: "string \<Rightarrow> unit tx" where
  "SetExtractionStarted rid = tx_wrap ''set extraction started'' (stmt (\<lambda>s.
     (Inr (), update_doc rid (\<lambda>d. d\<lparr>doc_Status := DocExtracting,
        ExtractionStartedAt := Some (now s), doc_UpdatedAt := now s\<rparr>) s)))"

definition AdvanceToClassifying :: "string \<Rightarrow> int \<Rightarrow> unit tx" where
  "AdvanceToClassifying rid tot = tx_wrap ''advance to classifying'' (stmt (\<lambda>s.
     if int4_ok tot
     then (Inr (), update_doc rid (\<lambda>d. d\<lparr>doc_Status := DocClassifying, doc_TotalTokens := tot,
        ExtractionCompletedAt := Some (now s), ClassificationStartedAt := Some (now s),
        doc_UpdatedAt := now s\<rparr>) s)
     else (Inl ErrDB, s)))"

definition MarkExtractionCompletedEmpty :: "string \<Rightarrow> unit tx" where
  "MarkExtractionCompletedEmpty rid = tx_wrap ''complete empty extraction'' (stmt (\<lambda>s.
     (Inr (), update_doc rid (\<lambda>d. d\<lparr>doc_Status := DocCompleted, doc_TotalTokens := 0,
        ExtractionCompletedAt := Some (now s), ClassificationStartedAt := Some (now s),
        ClassificationCompletedAt := Some (now s), doc_UpdatedAt := now s\<rparr>) s)))"

text \<open>\<^verbatim>\<open>UPDATE ... RETURNING\<close> scanned by \<^verbatim>\<open>QueryRow\<close>: no row is \<^verbatim>\<open>ErrNoRows\<close>.\<close>

definition IncrementClassifiedCount :: "string \<Rightarrow> int tx" where
  "IncrementClassifiedCount rid = tx_wrap ''increment classified count'' (stmt (\<lambda>s.
     (case documents (tbl s) rid of
        None \<Rightarrow> (Inl ErrNoRows, s)
      | Some d \<Rightarrow>
          if int4_ok (doc_ClassifiedCount d + 1)
          then (Inr (doc_ClassifiedCount d + 1),
                update_doc rid (\<lambda>d. d\<lparr>doc_ClassifiedCount := doc_ClassifiedCount d + 1,
                                      doc_UpdatedAt := now s\<rparr>) s)
          else (Inl ErrDB, s))))"

definition MarkDocumentCompleted :: "string \<Rightarrow> unit tx" where
  "MarkDocumentCompleted rid = tx_wrap ''mark document completed'' (stmt (\<lambda>s.
     (Inr (), update_doc rid (\<lambda>d. d\<lparr>doc_Status := DocCompleted,
        ClassificationCompletedAt := Some (now s), doc_UpdatedAt := now s\<rparr>) s)))"

text \<open>\<^verbatim>\<open>Store.MarkFailed\<close> runs outside a transaction: a statement that commits by itself.\<close>

definition autocommit :: "(pg \<Rightarrow> pg) \<Rightarrow> unit tx" where
  "autocommit f s =
     (case next_fault s of
        OK \<Rightarrow> (Inr (), f (pop_fault s))
      | Fail \<Rightarrow> (Inl ErrDB, pop_fault s)
      | FailAfter \<Rightarrow> (Inl ErrDB, f (pop_fault s)))"

definition MarkFailed :: "string \<Rightarrow> unit tx" where
  "MarkFailed rid s =
     autocommit (update_doc rid (\<lambda>d. d\<lparr>doc_Status := DocFailed, doc_UpdatedAt := now s\<rparr>)) s"

section \<open>Tokens\<close>

definition GetToken :: "int \<Rightarrow> Token tx" where
  "GetToken rid = stmt (\<lambda>s.
     (case CollectExactlyOneRow (filter (\<lambda>t. tok_ID t = rid) (tokens (tbl s))) of
        Inl e \<Rightarrow> if errors_Is e ErrNoRows then (Inl ErrNotFound, s) else (Inl e, s)
      | Inr t \<Rightarrow> (Inr t, s)))"

text \<open>The natural key of the unique constraint \<^verbatim>\<open>tokens_natural_key\<close>.\<close>

definition natural_key :: "Token \<Rightarrow> string \<times> int \<times> int \<times> int \<times> string" where
  "natural_key t = (tok_DocumentID t, tok_RunVersion t, Sentence (tok_Position t),
                    CharOffset (tok_Position t), tok_Text t)"

definition new_token :: "int \<Rightarrow> string \<Rightarrow> int \<Rightarrow> time \<Rightarrow> Entity \<Rightarrow> Token" where
  "new_token i docID runVersion t e =
     \<lparr>tok_ID = i, tok_DocumentID = docID, tok_RunVersion = runVersion,
      tok_Text = ent_Text e, tok_Context = ent_Context e, tok_Position = ent_Position e,
      tok_Status = TokenPending, tok_Classification = None, tok_Confidence = None,
      tok_Reasoning = None, tok_CreatedAt = t, tok_ClassifiedAt = None\<rparr>"

text \<open>
  One \<^verbatim>\<open>INSERT ... ON CONFLICT DO NOTHING\<close>. The key comes from the sequence before the
  conflict is looked at, so a conflicting insert burns a value. The foreign key asks for the
  document's row.
\<close>

definition insert_token :: "string \<Rightarrow> int \<Rightarrow> Entity \<Rightarrow> unit tx" where
  "insert_token docID runVersion e s =
     (let i = tokens_id_seq s;
          t = new_token i docID runVersion (now s) e;
          s' = s\<lparr>tokens_id_seq := i + 1\<rparr>
      in if \<not> (int4_ok runVersion \<and> int4_ok (Page (ent_Position e)) \<and>
               int4_ok (Sentence (ent_Position e)) \<and> int4_ok (CharOffset (ent_Position e)) \<and>
               int8_ok i \<and> text_ok docID \<and> text_ok (ent_Text e) \<and> text_ok (ent_Context e))
         then (Inl ErrDB, s)
         else if natural_key t \<in> natural_key ` set (tokens (tbl s)) then (Inr (), s')
         else if documents (tbl s) docID = None then (Inl ErrDB, s')
         else (Inr (), upd_tokens (\<lambda>ts. ts @ [t]) s'))"

fun UpsertTokens :: "string \<Rightarrow> int \<Rightarrow> Entity list \<Rightarrow> unit tx" where
  "UpsertTokens docID runVersion [] = tx_return ()"
| "UpsertTokens docID runVersion (e # es) =
     tx_bind (tx_wrap ''insert token'' (stmt (insert_token docID runVersion e)))
       (\<lambda>_. UpsertTokens docID runVersion es)"

definition run_tokens :: "string \<Rightarrow> int \<Rightarrow> Token list \<Rightarrow> Token list" where
  "run_tokens docID runVersion ts =
     filter (\<lambda>t. tok_DocumentID t = docID \<and> tok_RunVersion t = runVersion) ts"

definition CountTokens :: "string \<Rightarrow> int \<Rightarrow> int tx" where
  "CountTokens docID runVersion = tx_wrap ''count tokens'' (stmt (\<lambda>s.
     (Inr (int (length (run_tokens docID runVersion (tokens (tbl s))))), s)))"

definition ListTokensForRun :: "string \<Rightarrow> int \<Rightarrow> Token list tx" where
  "ListTokensForRun docID runVersion = tx_wrap ''load tokens'' (stmt (\<lambda>s.
     (Inr (sort_key tok_ID (run_tokens docID runVersion (tokens (tbl s)))), s)))"

definition GetTokenForUpdate :: "int \<Rightarrow> Token tx" where
  "GetTokenForUpdate rid = stmt (\<lambda>s.
     (case CollectExactlyOneRow (filter (\<lambda>t. tok_ID t = rid) (tokens (tbl s))) of
        Inl e \<Rightarrow> if errors_Is e ErrNoRows then (Inl ErrNotFound, s) else (Inl e, s)
      | Inr t \<Rightarrow> (Inr t, s)))"

text \<open>The classification columns; \<^verbatim>\<open>confidence\<close> is a \<^verbatim>\<open>REAL\<close> column.\<close>

definition classify_row :: "Classification \<Rightarrow> time \<Rightarrow> Token \<Rightarrow> Token" where
  "classify_row c t tok =
     tok\<lparr>tok_Status := TokenClassified, tok_Classification := Some (cls_Category c),
         tok_Confidence := Some (float32_of (cls_Confidence c)),
         tok_Reasoning := Some (cls_Reasoning c), tok_ClassifiedAt := Some t\<rparr>"

definition SetTokenClassified :: "int \<Rightarrow> Classification \<Rightarrow> unit tx" where
  "SetTokenClassified rid c = tx_wrap ''update token'' (stmt (\<lambda>s.
     if text_ok (cls_Category c) \<and> text_ok (cls_Reasoning c)
     then (Inr (), upd_tokens (map (\<lambda>t. if tok_ID t = rid then classify_row c (now s) t else t)) s)
     else (Inl ErrDB, s)))"

text \<open>
  \<^verbatim>\<open>Store.ListTokens\<close>: the current run only, the optional filters, ordered by id, then
  \<^verbatim>\<open>LIMIT\<close> and \<^verbatim>\<open>OFFSET\<close> when positive. A page number outside the column's range
  and a string that is no \<^verbatim>\<open>TEXT\<close> value cannot be sent as parameters.
\<close>

definition filter_ok :: "'a option \<Rightarrow> 'a option \<Rightarrow> bool" where
  "filter_ok want have = (case want of None \<Rightarrow> True | Some w \<Rightarrow> have = Some w)"

definition paginate :: "int \<Rightarrow> int \<Rightarrow> 'a list \<Rightarrow> 'a list" where
  "paginate limit offset xs =
     (let ys = (if 0 < offset then drop (nat offset) xs else xs)
      in if 0 < limit then take (nat limit) ys else ys)"

definition matching_tokens :: "string \<Rightarrow> TokenFilter \<Rightarrow> tables \<Rightarrow> Token list" where
  "matching_tokens docID f tb =
     (case documents tb docID of
        None \<Rightarrow> []
      | Some d \<Rightarrow> filter (\<lambda>t. tok_DocumentID t = docID \<and> tok_RunVersion t = doc_RunVersion d \<and>
                   filter_ok (flt_Classification f) (tok_Classification t) \<and>
                   filter_ok (flt_Status f) (Some (tok_Status t)) \<and>
                   filter_ok (flt_Page f) (Some (Page (tok_Position t)))) (tokens tb))"

definition ListTokens :: "string \<Rightarrow> TokenFilter \<Rightarrow> Token list tx" where
  "ListTokens docID f = stmt (\<lambda>s.
     if text_ok docID \<and> pred_option int4_ok (flt_Page f) \<and>
        pred_option text_ok (flt_Classification f) \<and> pred_option text_ok (flt_Status f)
     then (Inr (paginate (flt_Limit f) (flt_Offset f)
                 (sort_key tok_ID (matching_tokens docID f (tbl s)))), s)
     else (Inl ErrDB, s))"

section \<open>Outbox\<close>

definition EnqueueOutbox :: "string \<Rightarrow> string \<Rightarrow> string \<Rightarrow> unit tx" where
  "EnqueueOutbox stream key payload = tx_wrap ''enqueue outbox'' (stmt (\<lambda>s.
     if int8_ok (outbox_id_seq s) \<and> text_ok stream \<and> text_ok key
     then (Inr (), upd_outbox (\<lambda>rs. rs @ [\<lparr>obx_ID = outbox_id_seq s, obx_Stream = stream,
                                          obx_Key = key, obx_Payload = payload\<rparr>])
                     (s\<lparr>outbox_id_seq := outbox_id_seq s + 1\<rparr>))
     else (Inl ErrDB, s)))"

text \<open>
  \<^verbatim>\<open>FOR UPDATE SKIP LOCKED\<close>: \<open>locked\<close> are the ids of the rows other relays hold.
\<close>

definition ClaimOutboxBatch :: "int set \<Rightarrow> int \<Rightarrow> OutboxRow list tx" where
  "ClaimOutboxBatch locked limit = tx_wrap ''claim outbox batch'' (stmt (\<lambda>s.
     (Inr (take (nat limit) (filter (\<lambda>r. obx_ID r \<notin> locked) (sort_key obx_ID (outbox (tbl s))))), s)))"

definition DeleteOutbox :: "int \<Rightarrow> unit tx" where
  "DeleteOutbox rid = tx_wrap ''delete outbox'' (stmt (\<lambda>s.
     (Inr (), upd_outbox (filter (\<lambda>r. obx_ID r \<noteq> rid)) s)))"

end
