(* ===== verification/Jobs.thy ===== *)
theory Jobs
  imports Json Queue Store
begin

text \<open>
  \<^verbatim>\<open>internal/pipeline/jobs.go\<close>: the two job messages, their JSON encoding, the generic
  \<^verbatim>\<open>decode\<close> and the two functions that put a job into the outbox. The interface between the
  producers, which encode, and the workers, which decode, is the locale \<open>job_codec\<close>,
  interpreted for both job types.
\<close>

record ExtractJob =
  ej_DocumentID :: string
  ej_RunVersion :: int

record ClassifyJob =
  cj_TokenID :: int
  cj_DocumentID :: string
  cj_RunVersion :: int

section \<open>Encoding\<close>

definition marshal_ExtractJob :: "ExtractJob \<Rightarrow> string" where
  "marshal_ExtractJob job =
     CHR 0x7B # json_string ''document_id'' @ CHR 0x3A # json_string (ej_DocumentID job) @
     CHR 0x2C # json_string ''run_version'' @ CHR 0x3A # FormatInt (ej_RunVersion job) @ [CHR 0x7D]"

definition marshal_ClassifyJob :: "ClassifyJob \<Rightarrow> string" where
  "marshal_ClassifyJob job =
     CHR 0x7B # json_string ''token_id'' @ CHR 0x3A # FormatInt (cj_TokenID job) @
     CHR 0x2C # json_string ''document_id'' @ CHR 0x3A # json_string (cj_DocumentID job) @
     CHR 0x2C # json_string ''run_version'' @ CHR 0x3A # FormatInt (cj_RunVersion job) @ [CHR 0x7D]"

section \<open>Decoding\<close>

text \<open>
  Storing the members of an object into a struct, in order: a later duplicate wins, an
  unknown key is skipped, and a member of the wrong type makes the whole decoding fail (after
  the other members are stored).
\<close>

definition store_members ::
  "(string \<Rightarrow> json \<Rightarrow> 'a \<Rightarrow> 'a \<times> bool) \<Rightarrow> (string \<times> json) list \<Rightarrow> 'a \<Rightarrow> 'a \<times> bool" where
  "store_members field ms zero =
     fold (\<lambda>(k, v) (a, ok). case field k v a of (a', ok') \<Rightarrow> (a', ok \<and> ok')) ms (zero, True)"

definition unmarshal_struct ::
  "(string \<Rightarrow> json \<Rightarrow> 'a \<Rightarrow> 'a \<times> bool) \<Rightarrow> 'a \<Rightarrow> json \<Rightarrow> go_error + 'a" where
  "unmarshal_struct field zero v =
     (case v of
        JObj ms \<Rightarrow> (case store_members field ms zero of
                      (a, ok) \<Rightarrow> if ok then Inr a else Inl ErrDecode)
      | JNull \<Rightarrow> Inr zero
      | _ \<Rightarrow> Inl ErrDecode)"

definition decode :: "(string \<Rightarrow> json \<Rightarrow> 'a \<Rightarrow> 'a \<times> bool) \<Rightarrow> 'a \<Rightarrow> string \<Rightarrow> go_error + 'a" where
  "decode field zero payload =
     (case json_parse payload of
        None \<Rightarrow> Inl (Wrap ''decode job'' ErrDecode)
      | Some v \<Rightarrow> (case unmarshal_struct field zero v of
                     Inl e \<Rightarrow> Inl (Wrap ''decode job'' e)
                   | Inr a \<Rightarrow> Inr a))"

definition zero_ExtractJob :: ExtractJob where
  "zero_ExtractJob = \<lparr>ej_DocumentID = [], ej_RunVersion = 0\<rparr>"

definition field_ExtractJob :: "string \<Rightarrow> json \<Rightarrow> ExtractJob \<Rightarrow> ExtractJob \<times> bool" where
  "field_ExtractJob k v j =
     (if is_field ''document_id'' k
        then (case store_string v (ej_DocumentID j) of (x, ok) \<Rightarrow> (j\<lparr>ej_DocumentID := x\<rparr>, ok))
      else if is_field ''run_version'' k
        then (case store_int v (ej_RunVersion j) of (x, ok) \<Rightarrow> (j\<lparr>ej_RunVersion := x\<rparr>, ok))
      else (j, True))"

definition decode_ExtractJob :: "string \<Rightarrow> go_error + ExtractJob" where
  "decode_ExtractJob payload = decode field_ExtractJob zero_ExtractJob payload"

definition zero_ClassifyJob :: ClassifyJob where
  "zero_ClassifyJob = \<lparr>cj_TokenID = 0, cj_DocumentID = [], cj_RunVersion = 0\<rparr>"

definition field_ClassifyJob :: "string \<Rightarrow> json \<Rightarrow> ClassifyJob \<Rightarrow> ClassifyJob \<times> bool" where
  "field_ClassifyJob k v j =
     (if is_field ''token_id'' k
        then (case store_int v (cj_TokenID j) of (x, ok) \<Rightarrow> (j\<lparr>cj_TokenID := x\<rparr>, ok))
      else if is_field ''document_id'' k
        then (case store_string v (cj_DocumentID j) of (x, ok) \<Rightarrow> (j\<lparr>cj_DocumentID := x\<rparr>, ok))
      else if is_field ''run_version'' k
        then (case store_int v (cj_RunVersion j) of (x, ok) \<Rightarrow> (j\<lparr>cj_RunVersion := x\<rparr>, ok))
      else (j, True))"

definition decode_ClassifyJob :: "string \<Rightarrow> go_error + ClassifyJob" where
  "decode_ClassifyJob payload = decode field_ClassifyJob zero_ClassifyJob payload"

section \<open>Into the outbox\<close>

definition EnqueueExtract :: "ExtractJob \<Rightarrow> unit tx" where
  "EnqueueExtract job = EnqueueOutbox StreamExtract (ej_DocumentID job) (marshal_ExtractJob job)"

definition EnqueueClassify :: "ClassifyJob \<Rightarrow> unit tx" where
  "EnqueueClassify job =
     EnqueueOutbox StreamClassify (FormatInt (cj_TokenID job)) (marshal_ClassifyJob job)"

section \<open>Decoding inverts encoding\<close>

lemma skip_ws_Cons: "\<not> is_ws c \<Longrightarrow> skip_ws (c # cs) = c # cs"
  by (simp add: skip_ws_def)

lemma skip_ws_Nil [simp]: "skip_ws [] = []"
  by (simp add: skip_ws_def)

lemma json_string_Cons: "json_string s = CHR 0x22 # tl (json_string s)"
  by (simp add: json_string_def)

lemma parse_value_string:
  "ValidString s \<Longrightarrow> parse_value (Suc n) d (json_string s @ t) = Some (JStr s, t)"
  by (subst json_string_Cons) (simp add: skip_ws_Cons is_ws_def parse_json_string)

lemma nat_digits_leading_zero: "nat_digits n = CHR ''0'' # r \<Longrightarrow> r = []"
proof (induction n arbitrary: r rule: nat_digits.induct)
  case (1 n)
  show ?case
  proof (cases "n < 10")
    case True
    with "1.prems" show ?thesis by (simp add: nat_digits.simps [of n])
  next
    case False
    obtain c cs where c: "nat_digits (n div 10) = c # cs"
      using nat_digits_props [of "n div 10"] by (cases "nat_digits (n div 10)") auto
    with False "1.prems" have "c = CHR ''0''" by (simp add: nat_digits.simps [of n])
    with "1.IH" False c have "nat_digits (n div 10) = [CHR ''0'']" by simp
    then have "digits_val [CHR ''0''] = n div 10" using nat_digits_props [of "n div 10"] by simp
    then have "n div 10 = 0" by (simp add: digits_val_def digit_val_def byte_of_def)
    with False show ?thesis by simp
  qed
qed

text \<open>A number is followed by a comma or by a closing brace.\<close>

definition closes :: "char \<Rightarrow> bool" where
  "closes c \<longleftrightarrow> c = CHR 0x2C \<or> c = CHR 0x7D"

lemma closes_not_digit: "closes c \<Longrightarrow> \<not> is_digit c"
  by (auto simp: closes_def is_digit_def in_range_def byte_of_def)

lemma digits_span:
  assumes "list_all is_digit ds" and "closes c"
  shows "takeWhile is_digit (ds @ c # t) = ds" and "dropWhile is_digit (ds @ c # t) = c # t"
  using assms closes_not_digit by (auto simp: list_all_iff takeWhile_append dropWhile_append)

lemma parse_int_part_digits:
  assumes "closes c"
  shows "parse_int_part (nat_digits n @ c # t) = Some (nat_digits n, c # t)"
proof -
  obtain x xs where x: "nat_digits n = x # xs" and d: "list_all is_digit (x # xs)"
    using nat_digits_props [of n] by (cases "nat_digits n") auto
  show ?thesis
  proof (cases "x = CHR ''0''")
    case True
    with x have "xs = []" using nat_digits_leading_zero by blast
    with x True show ?thesis by (simp add: parse_int_part_def)
  next
    case False
    with x d show ?thesis
      using digits_span [OF d assms, of t] by (simp add: parse_int_part_def span_while_def)
  qed
qed

lemma parse_num_FormatInt: "closes c \<Longrightarrow> parse_num (FormatInt n @ c # t) = Some (FormatInt n, c # t)"
proof -
  assume c: "closes c"
  have f: "parse_frac_part (c # t) = Some ([], c # t)" "parse_exp_part (c # t) = Some ([], c # t)"
    using c by (auto simp: closes_def parse_frac_part_def parse_exp_part_def)
  obtain x xs where "nat_digits (nat n) = x # xs" "x \<noteq> CHR ''-''"
    using nat_digits_props [of "nat n"] nat_digits_not_sign [of "nat n"]
    by (cases "nat_digits (nat n)") auto
  then show ?thesis
    using parse_int_part_digits [OF c, of "nat n" t] parse_int_part_digits [OF c, of "nat (- n)" t] f
    by (simp add: parse_num_def FormatInt_def Let_def)
qed

lemma parse_value_int:
  assumes "closes c"
  shows "parse_value (Suc n) d (FormatInt i @ c # t) = Some (JNum (FormatInt i), c # t)"
proof -
  obtain x xs where x: "FormatInt i = x # xs" and "is_digit x \<or> x = CHR ''-''"
    using nat_digits_props [of "nat i"] nat_digits_props [of "nat (- i)"]
    by (cases "FormatInt i"; cases "nat_digits (nat i)") (auto simp: FormatInt_def split: if_splits)
  then have "\<not> is_ws x" "x \<notin> {CHR 0x7B, CHR 0x5B, CHR 0x22, CHR ''t'', CHR ''f'', CHR ''n''}"
    by (auto simp: is_digit_def in_range_def byte_of_def is_ws_def)
  with parse_num_FormatInt [OF assms, of i t] x show ?thesis by (simp add: skip_ws_Cons)
qed

text \<open>One member of an object, followed by another or by the end.\<close>

lemma parse_members_more:
  assumes "ValidString k" and "parse_value n d (vs @ CHR 0x2C # t) = Some (v, CHR 0x2C # t)"
  shows "parse_members (Suc n) d (json_string k @ CHR 0x3A # vs @ CHR 0x2C # t) =
         map_option (apfst (Cons (k, v))) (parse_members n d t)"
  using assms by (subst json_string_Cons) (simp add: skip_ws_Cons is_ws_def parse_json_string)

lemma parse_members_last:
  assumes "ValidString k" and "parse_value n d (vs @ CHR 0x7D # t) = Some (v, CHR 0x7D # t)"
  shows "parse_members (Suc n) d (json_string k @ CHR 0x3A # vs @ CHR 0x7D # t) = Some ([(k, v)], t)"
  using assms by (subst json_string_Cons) (simp add: skip_ws_Cons is_ws_def parse_json_string)

lemma parse_object:
  assumes "0 < d" and "parse_members n (d - 1) (json_string k @ t) = Some (ms, r)"
  shows "parse_value (Suc n) d (CHR 0x7B # json_string k @ t) = Some (JObj ms, r)"
  using assms
  by (subst (asm) json_string_Cons, subst json_string_Cons) (simp add: skip_ws_Cons is_ws_def)

lemma ValidString_fields [simp]:
  "ValidString ''document_id''" "ValidString ''run_version''" "ValidString ''token_id''"
  by code_simp+

lemma field_names_differ [simp]:
  "\<not> is_field ''document_id'' ''run_version''" "\<not> is_field ''document_id'' ''token_id''"
  "\<not> is_field ''run_version'' ''document_id''" "\<not> is_field ''run_version'' ''token_id''"
  "\<not> is_field ''token_id'' ''document_id''" "\<not> is_field ''token_id'' ''run_version''"
  by code_simp+

lemma is_field_self [simp]: "is_field k k"
  by (simp add: is_field_def)

lemma json_parse_object:
  assumes "\<And>n. parse_members (Suc (Suc (Suc (Suc n)))) (max_nesting_depth - 1) (json_string k @ t) = Some (ms, [])"
  shows "json_parse (CHR 0x7B # json_string k @ t) = Some (JObj ms)"
proof -
  let ?s = "CHR 0x7B # json_string k @ t"
  have "parse_value (Suc (Suc (Suc (Suc (Suc (2 * length ?s)))))) max_nesting_depth ?s = Some (JObj ms, [])"
    by (rule parse_object) (use assms in \<open>simp_all add: max_nesting_depth_def\<close>)
  then have "json_first ?s = Some (JObj ms, [])"
    using parse_value_fuel [of ?s "Suc (Suc (Suc (Suc (Suc (2 * length ?s)))))"] by simp
  then show ?thesis by (simp add: json_parse_def)
qed

definition wf_ExtractJob :: "ExtractJob \<Rightarrow> bool" where
  "wf_ExtractJob j \<longleftrightarrow> ValidString (ej_DocumentID j) \<and> int8_ok (ej_RunVersion j)"

definition wf_ClassifyJob :: "ClassifyJob \<Rightarrow> bool" where
  "wf_ClassifyJob j \<longleftrightarrow>
     int8_ok (cj_TokenID j) \<and> ValidString (cj_DocumentID j) \<and> int8_ok (cj_RunVersion j)"

lemma parse_ExtractJob:
  assumes "ValidString (ej_DocumentID j)"
  shows "json_parse (marshal_ExtractJob j) =
    Some (JObj [(''document_id'', JStr (ej_DocumentID j)), (''run_version'', JNum (FormatInt (ej_RunVersion j)))])"
proof -
  have l: "parse_members (Suc (Suc (Suc n))) d (json_string ''run_version'' @ CHR 0x3A # FormatInt (ej_RunVersion j) @ [CHR 0x7D])
      = Some ([(''run_version'', JNum (FormatInt (ej_RunVersion j)))], [])" for n d
    by (rule parse_members_last) (simp_all add: parse_value_int closes_def del: parse_value.simps)
  show ?thesis
    unfolding marshal_ExtractJob_def
  proof (rule json_parse_object)
    fix n
    show "parse_members (Suc (Suc (Suc (Suc n)))) (max_nesting_depth - 1) (json_string ''document_id'' @ CHR 0x3A #
        json_string (ej_DocumentID j) @ CHR 0x2C # json_string ''run_version'' @ CHR 0x3A #
        FormatInt (ej_RunVersion j) @ [CHR 0x7D]) =
      Some ([(''document_id'', JStr (ej_DocumentID j)), (''run_version'', JNum (FormatInt (ej_RunVersion j)))], [])"
      by (subst parse_members_more)
        (simp_all add: assms l parse_value_string del: parse_value.simps parse_members.simps)
  qed
qed

lemma parse_ClassifyJob:
  assumes "ValidString (cj_DocumentID j)"
  shows "json_parse (marshal_ClassifyJob j) =
    Some (JObj [(''token_id'', JNum (FormatInt (cj_TokenID j))), (''document_id'', JStr (cj_DocumentID j)),
                (''run_version'', JNum (FormatInt (cj_RunVersion j)))])"
proof -
  have l: "parse_members (Suc (Suc n)) d (json_string ''run_version'' @ CHR 0x3A # FormatInt (cj_RunVersion j) @ [CHR 0x7D])
      = Some ([(''run_version'', JNum (FormatInt (cj_RunVersion j)))], [])" for n d
    by (rule parse_members_last) (simp_all add: parse_value_int closes_def del: parse_value.simps)
  have m: "parse_members (Suc (Suc (Suc n))) d (json_string ''document_id'' @ CHR 0x3A # json_string (cj_DocumentID j)
      @ CHR 0x2C # json_string ''run_version'' @ CHR 0x3A # FormatInt (cj_RunVersion j) @ [CHR 0x7D])
      = Some ([(''document_id'', JStr (cj_DocumentID j)), (''run_version'', JNum (FormatInt (cj_RunVersion j)))], [])" for n d
    by (subst parse_members_more)
      (simp_all add: assms l parse_value_string del: parse_value.simps parse_members.simps)
  show ?thesis
    unfolding marshal_ClassifyJob_def
  proof (rule json_parse_object)
    fix n
    show "parse_members (Suc (Suc (Suc (Suc n)))) (max_nesting_depth - 1) (json_string ''token_id'' @ CHR 0x3A #
        FormatInt (cj_TokenID j) @ CHR 0x2C # json_string ''document_id'' @ CHR 0x3A #
        json_string (cj_DocumentID j) @ CHR 0x2C # json_string ''run_version'' @ CHR 0x3A #
        FormatInt (cj_RunVersion j) @ [CHR 0x7D]) =
      Some ([(''token_id'', JNum (FormatInt (cj_TokenID j))), (''document_id'', JStr (cj_DocumentID j)),
             (''run_version'', JNum (FormatInt (cj_RunVersion j)))], [])"
      by (subst parse_members_more)
        (simp_all add: m parse_value_int closes_def del: parse_value.simps parse_members.simps)
  qed
qed

lemma decode_marshal_ExtractJob: "wf_ExtractJob j \<Longrightarrow> decode_ExtractJob (marshal_ExtractJob j) = Inr j"
  by (simp add: wf_ExtractJob_def decode_ExtractJob_def decode_def parse_ExtractJob unmarshal_struct_def
      store_members_def field_ExtractJob_def store_string_def store_int_def Atoi_FormatInt int8_ok_def
      zero_ExtractJob_def)

lemma decode_marshal_ClassifyJob: "wf_ClassifyJob j \<Longrightarrow> decode_ClassifyJob (marshal_ClassifyJob j) = Inr j"
  by (simp add: wf_ClassifyJob_def decode_ClassifyJob_def decode_def parse_ClassifyJob unmarshal_struct_def
      store_members_def field_ClassifyJob_def store_string_def store_int_def Atoi_FormatInt int8_ok_def
      zero_ClassifyJob_def)

section \<open>The codec interface\<close>

text \<open>
  What producers and workers rely on: every well-formed job survives the trip, so no
  well-formed message is a poison message, and distinct jobs have distinct payloads.
\<close>

locale job_codec =
  fixes marshal :: "'j \<Rightarrow> string"
    and unmarshal :: "string \<Rightarrow> go_error + 'j"
    and wf :: "'j \<Rightarrow> bool"
  assumes roundtrip: "wf j \<Longrightarrow> unmarshal (marshal j) = Inr j"
begin

lemma not_poison: "wf j \<Longrightarrow> \<not> isl (unmarshal (marshal j))"
  by (simp add: roundtrip)

lemma marshal_inject: "wf j \<Longrightarrow> wf k \<Longrightarrow> marshal j = marshal k \<longleftrightarrow> j = k"
  by (metis roundtrip sum.inject(2))

end

interpretation extract_codec: job_codec marshal_ExtractJob decode_ExtractJob wf_ExtractJob
  by unfold_locales (rule decode_marshal_ExtractJob)

interpretation classify_codec: job_codec marshal_ClassifyJob decode_ClassifyJob wf_ClassifyJob
  by unfold_locales (rule decode_marshal_ClassifyJob)

text \<open>
  C40. Job messages survive the trip through the outbox and the broker: decoding what was encoded
  gives the job back, for every document id that is valid UTF-8 and every integer of Go's
  range, so no job the pipeline enqueues is ever dropped as undecodable.
\<close>

theorem jobs_roundtrip:
  "(wf_ExtractJob j \<longrightarrow> decode_ExtractJob (marshal_ExtractJob j) = Inr j) \<and>
   (wf_ClassifyJob k \<longrightarrow> decode_ClassifyJob (marshal_ClassifyJob k) = Inr k)"
  by (simp add: extract_codec.roundtrip classify_codec.roundtrip)

lemma jobs_roundtrip_witness:
  "decode_ExtractJob (marshal_ExtractJob \<lparr>ej_DocumentID = ''a<b'', ej_RunVersion = 3\<rparr>) = Inr \<lparr>ej_DocumentID = ''a<b'', ej_RunVersion = 3\<rparr> \<and>
   decode_ClassifyJob (marshal_ClassifyJob \<lparr>cj_TokenID = 9223372036854775807, cj_DocumentID = ''a<b'', cj_RunVersion = 3\<rparr>) =
     Inr \<lparr>cj_TokenID = 9223372036854775807, cj_DocumentID = ''a<b'', cj_RunVersion = 3\<rparr>"
proof -
  have "ValidString ''a<b''" by code_simp
  with jobs_roundtrip [of "\<lparr>ej_DocumentID = ''a<b'', ej_RunVersion = 3\<rparr>"
      "\<lparr>cj_TokenID = 9223372036854775807, cj_DocumentID = ''a<b'', cj_RunVersion = 3\<rparr>"]
  show ?thesis by (simp add: wf_ExtractJob_def wf_ClassifyJob_def int8_ok_def)
qed

end
