(* ===== verification/Tx_Laws.thy ===== *)
theory Tx_Laws
  imports Jobs "HOL-Library.Sublist"
begin

text \<open>
  The laws of the store: what a successful statement did to the tables (collection
  \<open>tx_succ\<close>), that no statement moves a sequence backwards or touches the clock, and the
  contract of \<^verbatim>\<open>WithinTx\<close> as a locale: whatever the environment does to the connection, the
  tables after a unit of work are those before it or those its body produced.
\<close>

section \<open>Faults\<close>

lemma pop_fault_simps [simp, tx_simps]:
  "tbl (pop_fault s) = tbl s" "tokens_id_seq (pop_fault s) = tokens_id_seq s"
  "outbox_id_seq (pop_fault s) = outbox_id_seq s" "now (pop_fault s) = now s"
  "broker_log (pop_fault s) = broker_log s"
  by (simp_all add: pop_fault_def)

lemma no_faults [simp, tx_simps]:
  "faults s = [] \<Longrightarrow> next_fault s = OK" "faults s = [] \<Longrightarrow> pop_fault s = s"
  by (simp_all add: next_fault_def pop_fault_def)

lemma upd_simps [simp, tx_simps]:
  "tbl (upd_documents f s) = (tbl s)\<lparr>documents := f (documents (tbl s))\<rparr>"
  "tbl (upd_tokens g s) = (tbl s)\<lparr>tokens := g (tokens (tbl s))\<rparr>"
  "tbl (upd_outbox h s) = (tbl s)\<lparr>outbox := h (outbox (tbl s))\<rparr>"
  "tokens_id_seq (upd_documents f s) = tokens_id_seq s" "outbox_id_seq (upd_documents f s) = outbox_id_seq s"
  "tokens_id_seq (upd_tokens g s) = tokens_id_seq s" "outbox_id_seq (upd_tokens g s) = outbox_id_seq s"
  "tokens_id_seq (upd_outbox h s) = tokens_id_seq s" "outbox_id_seq (upd_outbox h s) = outbox_id_seq s"
  "now (upd_documents f s) = now s" "now (upd_tokens g s) = now s" "now (upd_outbox h s) = now s"
  "faults (upd_documents f s) = faults s" "faults (upd_tokens g s) = faults s"
  "faults (upd_outbox h s) = faults s"
  "broker_log (upd_documents f s) = broker_log s" "broker_log (upd_tokens g s) = broker_log s"
  "broker_log (upd_outbox h s) = broker_log s"
  by (simp_all add: upd_documents_def upd_tokens_def upd_outbox_def)

lemma update_doc_simps [simp, tx_simps]:
  "tokens_id_seq (update_doc i f s) = tokens_id_seq s" "outbox_id_seq (update_doc i f s) = outbox_id_seq s"
  "now (update_doc i f s) = now s" "faults (update_doc i f s) = faults s"
  "broker_log (update_doc i f s) = broker_log s"
  "tokens (tbl (update_doc i f s)) = tokens (tbl s)" "outbox (tbl (update_doc i f s)) = outbox (tbl s)"
  by (simp_all add: update_doc_def split: option.split)

lemma update_doc_documents:
  "documents (tbl (update_doc i f s)) = (documents (tbl s))(i := map_option f (documents (tbl s) i))"
  by (auto simp: update_doc_def fun_eq_iff split: option.split)

text \<open>The definitions a run on concrete data unfolds.\<close>

lemmas tx_eval = WithinTx_def tx_bind_def tx_try_def tx_wrap_def tx_return_def tx_fail_def stmt_def
  next_fault_def pop_fault_def upd_documents_def upd_tokens_def upd_outbox_def update_doc_def
  select_doc_def CollectExactlyOneRow_def int4_ok_def int8_ok_def

lemma text_ok_streams [simp]: "text_ok StreamExtract" "text_ok StreamClassify"
  by code_simp+

section \<open>Success\<close>

lemma tx_bind_Inr [tx_succ]:
  "tx_bind m f s = (Inr y, s') \<longleftrightarrow> (\<exists>x t. m s = (Inr x, t) \<and> f x t = (Inr y, s'))"
  by (auto simp: tx_bind_def split: prod.split sum.split)

lemma tx_return_Inr [tx_succ]: "tx_return x s = (Inr y, s') \<longleftrightarrow> y = x \<and> s' = s"
  by (auto simp: tx_return_def)

lemma tx_fail_Inr [tx_succ]: "tx_fail e s = (Inr y, s') \<longleftrightarrow> False"
  by (simp add: tx_fail_def)

lemma tx_try_Inr [tx_succ]: "tx_try m s = (Inr r, s') \<longleftrightarrow> m s = (r, s')"
  by (auto simp: tx_try_def split: prod.split)

lemma tx_wrap_Inr [tx_succ]: "tx_wrap w m s = (Inr y, s') \<longleftrightarrow> m s = (Inr y, s')"
  by (auto simp: tx_wrap_def split: prod.split sum.split)

lemma stmt_Inr [tx_succ]:
  "stmt f s = (Inr y, s') \<longleftrightarrow> next_fault s = OK \<and> f (pop_fault s) = (Inr y, s')"
  by (simp add: stmt_def)

text \<open>The frame of a step: what of the database other than its tables it may change.\<close>

definition same_frame :: "pg \<Rightarrow> pg \<Rightarrow> bool" where
  "same_frame s s' \<longleftrightarrow> tokens_id_seq s' = tokens_id_seq s \<and> outbox_id_seq s' = outbox_id_seq s \<and>
     now s' = now s \<and> broker_log s' = broker_log s"

definition seqs_grow :: "pg \<Rightarrow> pg \<Rightarrow> bool" where
  "seqs_grow s s' \<longleftrightarrow>
     tokens_id_seq s \<le> tokens_id_seq s' \<and> outbox_id_seq s \<le> outbox_id_seq s' \<and> now s' = now s \<and>
     prefix (broker_log s) (broker_log s')"

lemma same_frame_refl [simp]: "same_frame s s"
  by (simp add: same_frame_def)

lemma seqs_grow_refl [simp]: "seqs_grow s s"
  by (simp add: seqs_grow_def)

lemma seqs_grow_trans [trans]: "seqs_grow s t \<Longrightarrow> seqs_grow t u \<Longrightarrow> seqs_grow s u"
  by (auto simp: seqs_grow_def)

lemma same_frame_grow: "same_frame s s' \<Longrightarrow> seqs_grow s s'"
  by (simp add: same_frame_def seqs_grow_def)

text \<open>Everything but the relay leaves the broker alone.\<close>

definition quiet :: "pg \<Rightarrow> pg \<Rightarrow> bool" where
  "quiet s s' \<longleftrightarrow> seqs_grow s s' \<and> broker_log s' = broker_log s"

lemma same_frame_quiet: "same_frame s s' \<Longrightarrow> quiet s s'"
  by (simp add: same_frame_def quiet_def seqs_grow_def)

lemma CollectExactlyOneRow_Inr: "CollectExactlyOneRow rows = Inr r \<longleftrightarrow> rows = [r]"
  by (auto simp: CollectExactlyOneRow_def split: list.splits)

lemma CollectExactlyOneRow_single [simp]: "CollectExactlyOneRow [r] = Inr r"
  by (simp add: CollectExactlyOneRow_def)

lemma CollectExactlyOneRow_ErrNoRows: "CollectExactlyOneRow rows = Inl ErrNoRows \<longleftrightarrow> rows = []"
  by (auto simp: CollectExactlyOneRow_def split: list.splits)

lemma getDocumentTx_Inr [tx_succ]:
  "getDocumentTx i b s = (Inr d, s') \<longleftrightarrow>
     next_fault s = OK \<and> text_ok i \<and> documents (tbl s) i = Some d \<and> s' = pop_fault s"
  by (auto simp: getDocumentTx_def stmt_def select_doc_def CollectExactlyOneRow_def split: option.splits if_splits)

lemma getDocumentTx_Inl:
  "getDocumentTx i b s = (Inl e, s') \<Longrightarrow>
     (e = ErrDB \<or> e = ErrNotFound \<and> documents (tbl s) i = None) \<and> s' = pop_fault s"
  by (auto simp: getDocumentTx_def stmt_def select_doc_def CollectExactlyOneRow_def
      split: option.splits if_splits)

lemma GetDocumentForUpdate_Inr [tx_succ]:
  "GetDocumentForUpdate i s = (Inr d, s') \<longleftrightarrow>
     next_fault s = OK \<and> text_ok i \<and> documents (tbl s) i = Some d \<and> s' = pop_fault s"
  by (simp add: GetDocumentForUpdate_def getDocumentTx_Inr)

lemma GetDocument_Inr [tx_succ]:
  "GetDocument i s = (Inr d, s') \<longleftrightarrow>
     next_fault s = OK \<and> text_ok i \<and> documents (tbl s) i = Some d \<and> s' = pop_fault s"
  by (auto simp: GetDocument_def stmt_def select_doc_def CollectExactlyOneRow_def split: option.splits)

lemma GetTokenForUpdate_Inr [tx_succ]:
  "GetTokenForUpdate i s = (Inr t, s') \<longleftrightarrow>
     next_fault s = OK \<and> filter (\<lambda>t. tok_ID t = i) (tokens (tbl s)) = [t] \<and> s' = pop_fault s"
  by (auto simp: GetTokenForUpdate_def stmt_def CollectExactlyOneRow_Inr split: sum.splits if_splits)

lemma GetToken_Inr [tx_succ]:
  "GetToken i s = (Inr t, s') \<longleftrightarrow>
     next_fault s = OK \<and> filter (\<lambda>t. tok_ID t = i) (tokens (tbl s)) = [t] \<and> s' = pop_fault s"
  by (auto simp: GetToken_def stmt_def CollectExactlyOneRow_Inr split: sum.splits if_splits)

lemma InsertDocument_succ:
  "InsertDocument i text s = (Inr d, s') \<Longrightarrow>
     text_ok i \<and> documents (tbl s) i = None \<and> d = new_document i text (now s) \<and>
     tbl s' = (tbl s)\<lparr>documents := (documents (tbl s))(i \<mapsto> d)\<rparr> \<and> same_frame s s'"
  by (auto simp: InsertDocument_def tx_succ same_frame_def split: option.splits if_splits)

lemma ResetDocument_succ:
  "ResetDocument i text s = (Inr d, s') \<Longrightarrow>
     \<exists>d0. documents (tbl s) i = Some d0 \<and> d = reset_row text (now s) d0 \<and> int4_ok (doc_RunVersion d0 + 1) \<and>
       tbl s' = (tbl s)\<lparr>documents := (documents (tbl s))(i \<mapsto> d),
                        tokens := filter (\<lambda>t. tok_DocumentID t \<noteq> i) (tokens (tbl s))\<rparr> \<and>
       same_frame s s'"
  by (auto simp: ResetDocument_def tx_succ same_frame_def update_doc_def split: option.splits if_splits)

text \<open>Every single-row \<^verbatim>\<open>UPDATE documents\<close> has this shape.\<close>

definition doc_updated :: "string \<Rightarrow> (Document \<Rightarrow> Document) \<Rightarrow> pg \<Rightarrow> pg \<Rightarrow> bool" where
  "doc_updated i f s s' \<longleftrightarrow>
     tbl s' = (tbl s)\<lparr>documents := (documents (tbl s))(i := map_option f (documents (tbl s) i))\<rparr> \<and>
     same_frame s s'"

lemma doc_updatedI: "doc_updated i f s (update_doc i f (pop_fault s))"
  by (auto simp: doc_updated_def same_frame_def update_doc_def fun_eq_iff split: option.split)

lemma doc_update_succ:
  "SetDocumentPending i s = (Inr u, s') \<Longrightarrow>
     doc_updated i (\<lambda>d. d\<lparr>doc_Status := DocPending, doc_UpdatedAt := now s\<rparr>) s s'"
  "SetExtractionStarted i s = (Inr u, s') \<Longrightarrow>
     doc_updated i (\<lambda>d. d\<lparr>doc_Status := DocExtracting, ExtractionStartedAt := Some (now s),
                          doc_UpdatedAt := now s\<rparr>) s s'"
  "AdvanceToClassifying i n s = (Inr u, s') \<Longrightarrow>
     doc_updated i (\<lambda>d. d\<lparr>doc_Status := DocClassifying, doc_TotalTokens := n,
        ExtractionCompletedAt := Some (now s), ClassificationStartedAt := Some (now s),
        doc_UpdatedAt := now s\<rparr>) s s'"
  "MarkExtractionCompletedEmpty i s = (Inr u, s') \<Longrightarrow>
     doc_updated i (\<lambda>d. d\<lparr>doc_Status := DocCompleted, doc_TotalTokens := 0,
        ExtractionCompletedAt := Some (now s), ClassificationStartedAt := Some (now s),
        ClassificationCompletedAt := Some (now s), doc_UpdatedAt := now s\<rparr>) s s'"
  "MarkDocumentCompleted i s = (Inr u, s') \<Longrightarrow>
     doc_updated i (\<lambda>d. d\<lparr>doc_Status := DocCompleted, ClassificationCompletedAt := Some (now s),
        doc_UpdatedAt := now s\<rparr>) s s'"
  by (auto simp: SetDocumentPending_def SetExtractionStarted_def AdvanceToClassifying_def
      MarkExtractionCompletedEmpty_def MarkDocumentCompleted_def tx_succ intro!: doc_updatedI
      [where s = s, simplified] split: if_splits)

lemma IncrementClassifiedCount_succ:
  "IncrementClassifiedCount i s = (Inr n, s') \<Longrightarrow>
     \<exists>d. documents (tbl s) i = Some d \<and> n = doc_ClassifiedCount d + 1 \<and>
       doc_updated i (\<lambda>d. d\<lparr>doc_ClassifiedCount := doc_ClassifiedCount d + 1, doc_UpdatedAt := now s\<rparr>) s s'"
  by (auto simp: IncrementClassifiedCount_def tx_succ doc_updated_def same_frame_def update_doc_def
      split: option.splits if_splits)

lemma SetTokenClassified_succ:
  "SetTokenClassified i c s = (Inr u, s') \<Longrightarrow>
     tbl s' = (tbl s)\<lparr>tokens := map (\<lambda>t. if tok_ID t = i then classify_row c (now s) t else t) (tokens (tbl s))\<rparr> \<and>
     same_frame s s'"
  by (auto simp: SetTokenClassified_def tx_succ same_frame_def split: if_splits)

lemma CountTokens_Inr [tx_succ]:
  "CountTokens i v s = (Inr n, s') \<longleftrightarrow>
     next_fault s = OK \<and> n = int (length (run_tokens i v (tokens (tbl s)))) \<and> s' = pop_fault s"
  by (auto simp: CountTokens_def tx_succ)

lemma ListTokensForRun_Inr [tx_succ]:
  "ListTokensForRun i v s = (Inr ts, s') \<longleftrightarrow>
     next_fault s = OK \<and> ts = sort_key tok_ID (run_tokens i v (tokens (tbl s))) \<and> s' = pop_fault s"
  by (auto simp: ListTokensForRun_def tx_succ)

definition outbox_row :: "int \<Rightarrow> string \<Rightarrow> string \<Rightarrow> string \<Rightarrow> OutboxRow" where
  "outbox_row i stream key payload =
     \<lparr>obx_ID = i, obx_Stream = stream, obx_Key = key, obx_Payload = payload\<rparr>"

lemma outbox_row_sel [simp]:
  "obx_ID (outbox_row i a b c) = i" "obx_Stream (outbox_row i a b c) = a"
  "obx_Key (outbox_row i a b c) = b" "obx_Payload (outbox_row i a b c) = c"
  by (simp_all add: outbox_row_def)

lemma EnqueueOutbox_succ:
  "EnqueueOutbox a b c s = (Inr u, s') \<Longrightarrow>
     tbl s' = (tbl s)\<lparr>outbox := outbox (tbl s) @ [outbox_row (outbox_id_seq s) a b c]\<rparr> \<and>
     tokens_id_seq s' = tokens_id_seq s \<and> outbox_id_seq s' = outbox_id_seq s + 1 \<and> now s' = now s \<and>
     broker_log s' = broker_log s"
  by (auto simp: EnqueueOutbox_def tx_succ outbox_row_def split: if_splits)

lemma ClaimOutboxBatch_Inr [tx_succ]:
  "ClaimOutboxBatch locked n s = (Inr rs, s') \<longleftrightarrow>
     next_fault s = OK \<and> s' = pop_fault s \<and>
     rs = take (nat n) (filter (\<lambda>r. obx_ID r \<notin> locked) (sort_key obx_ID (outbox (tbl s))))"
  by (auto simp: ClaimOutboxBatch_def tx_succ)

lemma DeleteOutbox_succ:
  "DeleteOutbox i s = (Inr u, s') \<Longrightarrow>
     tbl s' = (tbl s)\<lparr>outbox := filter (\<lambda>r. obx_ID r \<noteq> i) (outbox (tbl s))\<rparr> \<and> same_frame s s'"
  by (auto simp: DeleteOutbox_def tx_succ same_frame_def)

section \<open>Loops over statements\<close>

definition entity_key :: "string \<Rightarrow> int \<Rightarrow> Entity \<Rightarrow> string \<times> int \<times> int \<times> int \<times> string" where
  "entity_key i v e = (i, v, Sentence (ent_Position e), CharOffset (ent_Position e), ent_Text e)"

lemma natural_key_new_token [simp]: "natural_key (new_token n i v t e) = entity_key i v e"
  by (simp add: natural_key_def new_token_def entity_key_def)

text \<open>
  What an upsert adds to the tokens table: fresh pending rows of the given run, with
  increasing keys, one per entity whose natural key was not there.
\<close>

definition upserted :: "string \<Rightarrow> int \<Rightarrow> Entity list \<Rightarrow> pg \<Rightarrow> Token list \<Rightarrow> pg \<Rightarrow> bool" where
  "upserted i v es s new s' \<longleftrightarrow>
     tbl s' = (tbl s)\<lparr>tokens := tokens (tbl s) @ new\<rparr> \<and>
     (\<forall>t \<in> set new. tok_Classification t = None \<and> tok_Confidence t = None \<and> tok_Reasoning t = None \<and>
        tok_ClassifiedAt t = None \<and>
        tok_DocumentID t = i \<and> tok_RunVersion t = v \<and> tok_Status t = TokenPending \<and>
        tokens_id_seq s \<le> tok_ID t \<and> tok_ID t < tokens_id_seq s') \<and>
     sorted_wrt (<) (map tok_ID new) \<and>
     distinct (map natural_key new) \<and>
     natural_key ` set new = entity_key i v ` set es - natural_key ` set (tokens (tbl s)) \<and>
     (new \<noteq> [] \<longrightarrow> documents (tbl s) i \<noteq> None) \<and>
     (\<forall>t \<in> set new. int8_ok (tok_ID t)) \<and>
     tokens_id_seq s \<le> tokens_id_seq s' \<and> outbox_id_seq s' = outbox_id_seq s \<and> now s' = now s \<and>
     broker_log s' = broker_log s"

lemma insert_token_succ:
  assumes "insert_token i v e s = (Inr u, s')"
  shows "\<exists>new. upserted i v [e] s new s'"
proof (cases "entity_key i v e \<in> natural_key ` set (tokens (tbl s))")
  case True
  with assms have "upserted i v [e] s [] s'"
    by (auto simp: insert_token_def upserted_def Let_def split: if_splits)
  then show ?thesis ..
next
  case False
  with assms have "upserted i v [e] s [new_token (tokens_id_seq s) i v (now s) e] s'"
    by (auto simp: insert_token_def upserted_def Let_def new_token_def [of "tokens_id_seq s"]
        natural_key_def entity_key_def split: if_splits)
  then show ?thesis ..
qed

lemma upserted_trans:
  assumes "upserted i v es s new t" and "upserted i v fs t new' u"
  shows "upserted i v (es @ fs) s (new @ new') u"
proof -
  have "tok_ID a < tok_ID b" if "a \<in> set new" "b \<in> set new'" for a b
    using assms that unfolding upserted_def by force
  moreover have "natural_key ` set new' = entity_key i v ` set fs - (natural_key ` set (tokens (tbl s)) \<union> natural_key ` set new)"
    using assms unfolding upserted_def by (simp add: image_Un)
  ultimately show ?thesis
    using assms unfolding upserted_def
    by (auto simp: sorted_wrt_append image_Un intro: order_trans less_le_trans)
qed

lemma UpsertTokens_succ: "UpsertTokens i v es s = (Inr u, s') \<Longrightarrow> \<exists>new. upserted i v es s new s'"
proof (induction es arbitrary: s)
  case Nil
  then have "upserted i v [] s [] s'" by (auto simp: tx_succ upserted_def)
  then show ?case ..
next
  case (Cons e es)
  then obtain u' t where t: "insert_token i v e (pop_fault s) = (Inr u', t)"
    and rest: "UpsertTokens i v es t = (Inr u, s')" by (auto simp: tx_succ)
  from insert_token_succ [OF t] obtain a where "upserted i v [e] (pop_fault s) a t" ..
  then have a: "upserted i v [e] s a t" by (simp add: upserted_def)
  from Cons.IH [OF rest] obtain b where "upserted i v es t b s'" ..
  from upserted_trans [OF a this] have "upserted i v (e # es) s (a @ b) s'" by simp
  then show ?case ..
qed

text \<open>Rows numbered from a value of the sequence.\<close>

fun number_rows :: "int \<Rightarrow> (string \<times> string \<times> string) list \<Rightarrow> OutboxRow list" where
  "number_rows n [] = []"
| "number_rows n ((a, b, c) # xs) = outbox_row n a b c # number_rows (n + 1) xs"

lemma number_rows_ids: "r \<in> set (number_rows n xs) \<Longrightarrow> n \<le> obx_ID r \<and> obx_ID r < n + int (length xs)"
  by (induction n xs rule: number_rows.induct) auto

lemma number_rows_distinct: "distinct (map obx_ID (number_rows n xs))"
  by (induction n xs rule: number_rows.induct) (auto dest: number_rows_ids)

lemma number_rows_in:
  "(\<exists>r \<in> set (number_rows n xs). obx_Stream r = a \<and> obx_Key r = b \<and> obx_Payload r = c) \<longleftrightarrow> (a, b, c) \<in> set xs"
  by (induction n xs rule: number_rows.induct) auto

lemma length_number_rows [simp]: "length (number_rows n xs) = length xs"
  by (induction n xs rule: number_rows.induct) auto

definition enqueued :: "(string \<times> string \<times> string) list \<Rightarrow> pg \<Rightarrow> pg \<Rightarrow> bool" where
  "enqueued xs s s' \<longleftrightarrow>
     tbl s' = (tbl s)\<lparr>outbox := outbox (tbl s) @ number_rows (outbox_id_seq s) xs\<rparr> \<and>
     tokens_id_seq s' = tokens_id_seq s \<and> outbox_id_seq s' = outbox_id_seq s + int (length xs) \<and>
     now s' = now s \<and> broker_log s' = broker_log s"

lemma enqueued_Nil: "enqueued [] s s' \<longleftrightarrow> tbl s' = tbl s \<and> same_frame s s'"
  by (simp add: enqueued_def same_frame_def)

lemma enqueued_one: "EnqueueOutbox a b c s = (Inr u, s') \<Longrightarrow> enqueued [(a, b, c)] s s'"
  by (drule EnqueueOutbox_succ) (simp add: enqueued_def)

lemma enqueued_Cons: "enqueued [x] s t \<Longrightarrow> enqueued xs t u \<Longrightarrow> enqueued (x # xs) s u"
  by (cases x) (simp add: enqueued_def)

section \<open>What no statement does\<close>

text \<open>
  A relation between the database before and after a step that says nothing of its tables. A
  body keeps it if its statements do, whether it succeeds or fails.
\<close>

definition keeps :: "(pg \<Rightarrow> pg \<Rightarrow> bool) \<Rightarrow> 'a tx \<Rightarrow> bool" where
  "keeps R m \<longleftrightarrow> (\<forall>s r s'. m s = (r, s') \<longrightarrow> R s s')"

named_theorems keeps_intros \<open>bodies keep a frame relation if their statements do\<close>

lemma keepsD: "keeps R m \<Longrightarrow> m s = (r, s') \<Longrightarrow> R s s'"
  by (simp add: keeps_def)

locale frame_relation =
  fixes R :: "pg \<Rightarrow> pg \<Rightarrow> bool"
  assumes tables_only: "same_frame s s' \<Longrightarrow> R s s'"
    and trans: "R s t \<Longrightarrow> R t u \<Longrightarrow> R s u"
begin

lemma basic:
  "keeps R (tx_return x)" "keeps R (tx_fail e)"
  "keeps R m \<Longrightarrow> keeps R (tx_try m)" "keeps R m \<Longrightarrow> keeps R (tx_wrap w m)"
  using tables_only same_frame_refl
  by (auto simp: keeps_def tx_return_def tx_fail_def tx_try_def tx_wrap_def split: prod.splits sum.splits)

lemma bind: "keeps R m \<Longrightarrow> (\<And>x. keeps R (f x)) \<Longrightarrow> keeps R (tx_bind m f)"
  unfolding keeps_def tx_bind_def
  by (auto split: prod.splits sum.splits) (blast intro: trans)+

lemma pop: "R s (pop_fault s)"
  by (rule tables_only) (simp add: same_frame_def)

lemma stmt: "keeps R f \<Longrightarrow> keeps R (stmt f)"
  unfolding keeps_def stmt_def by (auto intro: pop trans)

text \<open>Statements that leave sequences and clock alone.\<close>

lemma frame_stmt:
  assumes "\<And>s. same_frame s (snd (f s))"
  shows "keeps R (stmt f)"
proof (rule stmt)
  show "keeps R f" unfolding keeps_def using assms tables_only by (metis snd_conv)
qed

end

interpretation growing: frame_relation seqs_grow
  by unfold_locales (auto intro: same_frame_grow seqs_grow_trans)

interpretation quietly: frame_relation quiet
  by unfold_locales (auto simp: quiet_def same_frame_def seqs_grow_def)

lemmas growing_intros = growing.basic growing.bind
lemmas [keeps_intros] = quietly.basic quietly.bind

lemma quiet_grows: "keeps quiet m \<Longrightarrow> keeps seqs_grow m"
  by (simp add: keeps_def quiet_def)

lemma keeps_documents [keeps_intros]:
  "keeps quiet (getDocumentTx i b)" "keeps quiet (GetDocumentForUpdate i)" "keeps quiet (GetDocument i)"
  "keeps quiet (SetDocumentPending i)" "keeps quiet (SetExtractionStarted i)" "keeps quiet (AdvanceToClassifying i n)"
  "keeps quiet (MarkExtractionCompletedEmpty i)" "keeps quiet (IncrementClassifiedCount i)"
  "keeps quiet (MarkDocumentCompleted i)"
  unfolding getDocumentTx_def GetDocumentForUpdate_def GetDocument_def SetDocumentPending_def
    SetExtractionStarted_def AdvanceToClassifying_def MarkExtractionCompletedEmpty_def
    IncrementClassifiedCount_def MarkDocumentCompleted_def
  by (auto intro!: keeps_intros quietly.frame_stmt simp: same_frame_def split: sum.split option.split)

lemma keeps_insert_reset [keeps_intros]: "keeps quiet (InsertDocument i text)" "keeps quiet (ResetDocument i text)"
  unfolding InsertDocument_def ResetDocument_def
  by (auto intro!: keeps_intros quietly.frame_stmt simp: same_frame_def split: option.split)

lemma keeps_insert_token: "keeps quiet (insert_token i v e)"
  by (auto simp: keeps_def insert_token_def quiet_def seqs_grow_def Let_def split: if_splits)

lemma keeps_UpsertTokens [keeps_intros]: "keeps quiet (UpsertTokens i v es)"
  by (induction es) (auto intro!: keeps_intros quietly.stmt keeps_insert_token)

lemma keeps_tokens [keeps_intros]:
  "keeps quiet (GetTokenForUpdate i)" "keeps quiet (GetToken i)" "keeps quiet (CountTokens d v)"
  "keeps quiet (ListTokensForRun d v)" "keeps quiet (SetTokenClassified i c)"
  unfolding GetTokenForUpdate_def GetToken_def CountTokens_def ListTokensForRun_def SetTokenClassified_def
  by (auto intro!: keeps_intros quietly.frame_stmt simp: same_frame_def split: sum.split)

lemma keeps_EnqueueOutbox: "keeps quiet (EnqueueOutbox a b c)"
  unfolding EnqueueOutbox_def
  by (intro quietly.basic(4) quietly.stmt) (auto simp: keeps_def quiet_def seqs_grow_def)

lemma keeps_outbox [keeps_intros]:
  "keeps quiet (EnqueueExtract ej)" "keeps quiet (EnqueueClassify cj)" "keeps quiet (ClaimOutboxBatch locked n)"
  "keeps quiet (DeleteOutbox i)"
  unfolding EnqueueExtract_def EnqueueClassify_def ClaimOutboxBatch_def DeleteOutbox_def
  by (auto intro!: keeps_intros keeps_EnqueueOutbox quietly.frame_stmt simp: same_frame_def)

section \<open>Units of work\<close>

text \<open>
  The contract of \<^verbatim>\<open>WithinTx\<close>. A unit of work that reports success has the effect of its
  body; one that reports an error has no effect on the tables, or, when the reply to the
  commit was lost, the effect of its body. Its error is the body's or the connection's. What
  the body keeps beside the tables, it keeps. An invariant of the tables that the body keeps
  is therefore kept by the unit of work, whatever the environment does.
\<close>

definition ran :: "'a tx \<Rightarrow> pg \<Rightarrow> 'a \<Rightarrow> pg \<Rightarrow> bool" where
  "ran fn s x s' \<longleftrightarrow>
     (\<exists>s0 s1. tbl s0 = tbl s \<and> same_frame s s0 \<and> fn s0 = (Inr x, s1) \<and>
              tbl s' = tbl s1 \<and> same_frame s1 s')"

lemma ran_pop_fault: "fn (pop_fault s) = (Inr x, s1) \<Longrightarrow> ran fn s x (pop_fault s1)"
  unfolding ran_def
  by (rule exI [of _ "pop_fault s"], rule exI [of _ s1]) (simp add: same_frame_def)

locale unit_of_work =
  fixes run :: "'a tx \<Rightarrow> 'a tx"
  assumes rolled_back_or_done:
    "run fn s = (r, s') \<Longrightarrow>
       isl r \<and> tbl s' = tbl s \<or> (\<exists>x. ran fn s x s' \<and> (r = Inr x \<or> r = Inl ErrDB))"
    and error_from:
    "run fn s = (Inl e, s') \<Longrightarrow>
       e = ErrDB \<or> (\<exists>s0 s1. tbl s0 = tbl s \<and> same_frame s s0 \<and> fn s0 = (Inl e, s1))"
    and frame: "frame_relation R \<Longrightarrow> keeps R fn \<Longrightarrow> run fn s = (r, s') \<Longrightarrow> R s s'"
begin

lemma success: "run fn s = (Inr x, s') \<Longrightarrow> ran fn s x s'"
  using rolled_back_or_done [of fn s "Inr x" s'] by auto

lemma outcome:
  assumes "run fn s = (r, s')"
  obtains (rolled_back) "isl r" "tbl s' = tbl s"
  | (effect) x where "ran fn s x s'" "r = Inr x \<or> r = Inl ErrDB"
  using rolled_back_or_done [OF assms] by blast

lemma keeps_run: "keeps quiet fn \<Longrightarrow> keeps quiet (run fn)"
  unfolding keeps_def using frame [OF quietly.frame_relation_axioms] by (auto simp: keeps_def)

lemma invariant:
  assumes "keeps quiet fn" and "run fn s = (r, s')" and "I s"
    and keep: "\<And>s s'. I s \<Longrightarrow> tbl s' = tbl s \<Longrightarrow> quiet s s' \<Longrightarrow> I s'"
    and body: "\<And>x s s'. I s \<Longrightarrow> fn s = (Inr x, s') \<Longrightarrow> I s'"
  shows "I s'"
  using assms(2)
proof (cases rule: outcome)
  case rolled_back
  then show ?thesis using keep assms(3) frame [OF quietly.frame_relation_axioms assms(1,2)] by blast
next
  case (effect x)
  then obtain s0 s1 where "tbl s0 = tbl s" "same_frame s s0" "fn s0 = (Inr x, s1)"
    "tbl s' = tbl s1" "same_frame s1 s'" unfolding ran_def by blast
  then show ?thesis using keep body assms(3) same_frame_quiet by metis
qed

end

interpretation uow: unit_of_work WithinTx
proof
  fix fn :: "'a tx" and s r s'
  assume w: "WithinTx fn s = (r, s')"
  obtain q s1 where fn: "fn (pop_fault s) = (q, s1)" by fastforce
  show "isl r \<and> tbl s' = tbl s \<or> (\<exists>x. ran fn s x s' \<and> (r = Inr x \<or> r = Inl ErrDB))"
  proof (cases q)
    case (Inl e)
    with w fn show ?thesis by (auto simp: WithinTx_def split: if_splits)
  next
    case (Inr x)
    with fn have body: "fn (pop_fault s) = (Inr x, s1)" by simp
    with w ran_pop_fault [of fn s x s1, OF body] show ?thesis
      by (cases "next_fault s1") (auto simp: WithinTx_def split: if_splits)
  qed
next
  fix fn :: "'a tx" and s e s'
  assume "WithinTx fn s = (Inl e, s')"
  moreover have "same_frame s (pop_fault s)" by (simp add: same_frame_def)
  ultimately show "e = ErrDB \<or> (\<exists>s0 s1. tbl s0 = tbl s \<and> same_frame s s0 \<and> fn s0 = (Inl e, s1))"
    by (auto simp: WithinTx_def split: if_splits prod.splits sum.splits fault.splits)
next
  fix R and fn :: "'a tx" and s r s'
  assume R: "frame_relation R" and fn: "keeps R fn" and w: "WithinTx fn s = (r, s')"
  note tables_only = frame_relation.tables_only [OF R] and trans = frame_relation.trans [OF R]
  have "R s s'" if "fn (pop_fault s) = (q, s1)" "same_frame s1 s'" for q s1
    using frame_relation.pop [OF R] keepsD [OF fn that(1)] tables_only [OF that(2)] trans by blast
  moreover have "R s (pop_fault s)" by (rule frame_relation.pop [OF R])
  ultimately show "R s s'"
    using w by (auto simp: WithinTx_def same_frame_def split: if_splits prod.splits sum.splits fault.splits)
qed

end
