(* ===== verification/Service.thy ===== *)
theory Service
  imports Tx_Laws
begin

text \<open>
  \<^verbatim>\<open>internal/service/document.go\<close>: the application layer of the API. \<open>Submit\<close> owns the
  decision what a submission does and enqueues the first job in the same transaction.
\<close>

record SubmitResult =
  sub_Document :: Document
  Accepted :: bool
  FullRerun :: bool

definition Submit_decide :: "string \<Rightarrow> string \<Rightarrow> RerunMode \<Rightarrow> SubmitResult tx" where
  "Submit_decide docID text mode =
     tx_bind (tx_try (GetDocumentForUpdate docID)) (\<lambda>r.
       case r of
         Inl e \<Rightarrow>
           if errors_Is e ErrNotFound then
             tx_bind (InsertDocument docID text) (\<lambda>doc.
               tx_return \<lparr>sub_Document = doc, Accepted = True, FullRerun = False\<rparr>)
           else tx_fail e
       | Inr existing \<Rightarrow>
           if mode = RerunFull then
             tx_bind (ResetDocument docID text) (\<lambda>doc.
               tx_return \<lparr>sub_Document = doc, Accepted = True, FullRerun = True\<rparr>)
           else if doc_Status existing = DocCompleted then
             tx_return \<lparr>sub_Document = existing, Accepted = False, FullRerun = False\<rparr>
           else if doc_Status existing = DocFailed then
             tx_bind (SetDocumentPending docID) (\<lambda>_.
               tx_return \<lparr>sub_Document = existing\<lparr>doc_Status := DocPending\<rparr>,
                          Accepted = True, FullRerun = False\<rparr>)
           else
             tx_return \<lparr>sub_Document = existing, Accepted = True, FullRerun = False\<rparr>)"

definition Submit_body :: "string \<Rightarrow> string \<Rightarrow> RerunMode \<Rightarrow> SubmitResult tx" where
  "Submit_body docID text mode =
     tx_bind (Submit_decide docID text mode) (\<lambda>res.
       if Accepted res then
         tx_bind (EnqueueExtract \<lparr>ej_DocumentID = doc_ID (sub_Document res),
                                  ej_RunVersion = doc_RunVersion (sub_Document res)\<rparr>)
           (\<lambda>_. tx_return res)
       else tx_return res)"

definition Submit :: "string \<Rightarrow> string \<Rightarrow> RerunMode \<Rightarrow> SubmitResult tx" where
  "Submit docID text mode =
     tx_wrap (''submit document '' @ docID) (WithinTx (Submit_body docID text mode))"

definition Status :: "string \<Rightarrow> Document tx" where
  "Status docID = GetDocument docID"

definition Tokens :: "string \<Rightarrow> TokenFilter \<Rightarrow> Token list tx" where
  "Tokens docID f = tx_bind (GetDocument docID) (\<lambda>_. ListTokens docID f)"

text \<open>\<^verbatim>\<open>Health\<close>: the outcomes of the two pings, in order.\<close>

definition Health :: "go_error option \<Rightarrow> go_error option \<Rightarrow> go_error option" where
  "Health store_ping broker_ping =
     (case store_ping of
        Some e \<Rightarrow> Some (Wrap ''postgres'' e)
      | None \<Rightarrow> (case broker_ping of
                   Some e \<Rightarrow> Some (Wrap ''broker'' e)
                 | None \<Rightarrow> None))"

section \<open>What a submission does\<close>

definition extract_msg :: "Document \<Rightarrow> string \<times> string \<times> string" where
  "extract_msg d = (StreamExtract, doc_ID d,
     marshal_ExtractJob \<lparr>ej_DocumentID = doc_ID d, ej_RunVersion = doc_RunVersion d\<rparr>)"

lemma keeps_Submit [keeps_intros]:
  "keeps quiet (Submit_decide i text mode)" "keeps quiet (Submit_body i text mode)"
proof -
  show d: "keeps quiet (Submit_decide i text mode)"
    unfolding Submit_decide_def by (auto intro!: keeps_intros split: sum.split)
  show "keeps quiet (Submit_body i text mode)"
    unfolding Submit_body_def by (auto intro!: d keeps_intros)
qed

lemma Submit_decide_cases:
  assumes "Submit_decide i text mode s = (Inr res, s')"
  obtains (new_doc) "text_ok i" "documents (tbl s) i = None"
      "res = \<lparr>sub_Document = new_document i text (now s), Accepted = True, FullRerun = False\<rparr>"
      "tbl s' = (tbl s)\<lparr>documents := (documents (tbl s))(i \<mapsto> new_document i text (now s))\<rparr>"
      "same_frame s s'"
  | (full_rerun) d where "documents (tbl s) i = Some d" "mode = RerunFull" "int4_ok (doc_RunVersion d + 1)"
      "res = \<lparr>sub_Document = reset_row text (now s) d, Accepted = True, FullRerun = True\<rparr>"
      "tbl s' = (tbl s)\<lparr>documents := (documents (tbl s))(i \<mapsto> reset_row text (now s) d),
                       tokens := filter (\<lambda>t. tok_DocumentID t \<noteq> i) (tokens (tbl s))\<rparr>"
      "same_frame s s'"
  | (already_done) d where "documents (tbl s) i = Some d" "mode \<noteq> RerunFull" "doc_Status d = DocCompleted"
      "res = \<lparr>sub_Document = d, Accepted = False, FullRerun = False\<rparr>"
      "tbl s' = tbl s" "same_frame s s'"
  | (resume_failed) d where "documents (tbl s) i = Some d" "mode \<noteq> RerunFull" "doc_Status d = DocFailed"
      "res = \<lparr>sub_Document = d\<lparr>doc_Status := DocPending\<rparr>, Accepted = True, FullRerun = False\<rparr>"
      "tbl s' = (tbl s)\<lparr>documents := (documents (tbl s))(i \<mapsto> d\<lparr>doc_Status := DocPending, doc_UpdatedAt := now s\<rparr>)\<rparr>"
      "same_frame s s'"
  | (resume) d where "documents (tbl s) i = Some d" "mode \<noteq> RerunFull" "doc_Status d \<noteq> DocCompleted"
      "doc_Status d \<noteq> DocFailed" "res = \<lparr>sub_Document = d, Accepted = True, FullRerun = False\<rparr>"
      "tbl s' = tbl s" "same_frame s s'"
proof -
  from assms obtain r t where g: "GetDocumentForUpdate i s = (r, t)"
    and k: "(case r of
         Inl e \<Rightarrow>
           if errors_Is e ErrNotFound then
             tx_bind (InsertDocument i text) (\<lambda>doc.
               tx_return \<lparr>sub_Document = doc, Accepted = True, FullRerun = False\<rparr>)
           else tx_fail e
       | Inr existing \<Rightarrow>
           if mode = RerunFull then
             tx_bind (ResetDocument i text) (\<lambda>doc.
               tx_return \<lparr>sub_Document = doc, Accepted = True, FullRerun = True\<rparr>)
           else if doc_Status existing = DocCompleted then
             tx_return \<lparr>sub_Document = existing, Accepted = False, FullRerun = False\<rparr>
           else if doc_Status existing = DocFailed then
             tx_bind (SetDocumentPending i) (\<lambda>_.
               tx_return \<lparr>sub_Document = existing\<lparr>doc_Status := DocPending\<rparr>,
                          Accepted = True, FullRerun = False\<rparr>)
           else
             tx_return \<lparr>sub_Document = existing, Accepted = True, FullRerun = False\<rparr>) t = (Inr res, s')"
    by (auto simp: Submit_decide_def tx_succ)
  show thesis
  proof (cases r)
    case (Inl e)
    from g Inl have "t = pop_fault s" by (auto simp: GetDocumentForUpdate_def dest: getDocumentTx_Inl)
    with k Inl show thesis
      by (intro new_doc) (auto simp: tx_succ tx_fail_def same_frame_def split: if_splits
          dest!: InsertDocument_succ)
  next
    case (Inr d)
    with g have d: "documents (tbl s) i = Some d" and t: "t = pop_fault s" by (auto simp: tx_succ)
    have fr: "same_frame s u" if "same_frame t u" for u using that by (simp add: t same_frame_def)
    consider "mode = RerunFull" | "mode \<noteq> RerunFull" "doc_Status d = DocCompleted"
      | "mode \<noteq> RerunFull" "doc_Status d = DocFailed"
      | "mode \<noteq> RerunFull" "doc_Status d \<noteq> DocCompleted" "doc_Status d \<noteq> DocFailed" by blast
    then show thesis
    proof cases
      case 1
      with k Inr d t show thesis
        by (intro full_rerun [of d]) (auto simp: tx_succ intro: fr dest!: ResetDocument_succ)
    next
      case 2
      with k Inr d t show thesis
        by (intro already_done [of d]) (auto simp: tx_succ same_frame_def)
    next
      case 3
      with k Inr d t show thesis
        by (intro resume_failed [of d])
          (auto simp: tx_succ doc_updated_def intro: fr dest!: doc_update_succ(1))
    next
      case 4
      with k Inr d t show thesis
        by (intro resume [of d]) (auto simp: tx_succ same_frame_def)
    qed
  qed
qed

text \<open>Acceptance and the extract job go together.\<close>

lemma Submit_body_succ:
  "Submit_body i text mode s = (Inr res, s') \<Longrightarrow>
     \<exists>t. Submit_decide i text mode s = (Inr res, t) \<and>
         enqueued (if Accepted res then [extract_msg (sub_Document res)] else []) t s'"
  by (auto simp: Submit_body_def tx_succ EnqueueExtract_def extract_msg_def enqueued_Nil
      split: if_splits dest: enqueued_one)

end
