(* ===== verification/Extraction_Worker.thy ===== *)
theory Extraction_Worker
  imports Tx_Laws
begin

text \<open>
  \<^verbatim>\<open>internal/pipeline/extractor.go\<close>: the extraction worker. The NLP component is the
  interface \<^verbatim>\<open>nlp.Extractor\<close>, an argument of the model.
\<close>

type_synonym Extractor = "Document \<Rightarrow> go_error + Entity list"

section \<open>Claim and persist\<close>

definition claim_body :: "string \<Rightarrow> Document tx" where
  "claim_body docID =
     tx_bind (GetDocumentForUpdate docID) (\<lambda>d.
       if doc_Status d = DocPending then
         tx_bind (SetExtractionStarted docID) (\<lambda>_. tx_return (d\<lparr>doc_Status := DocExtracting\<rparr>))
       else tx_return d)"

definition claim :: "string \<Rightarrow> Document tx" where
  "claim docID = WithinTx (claim_body docID)"

text \<open>The fan-out loop of \<open>persist\<close>: one job per token that is not classified yet.\<close>

fun enqueue_pending :: "string \<Rightarrow> int \<Rightarrow> Token list \<Rightarrow> unit tx" where
  "enqueue_pending docID runVersion [] = tx_return ()"
| "enqueue_pending docID runVersion (t # ts) =
     (if tok_Status t = TokenClassified then enqueue_pending docID runVersion ts
      else tx_bind (EnqueueClassify \<lparr>cj_TokenID = tok_ID t, cj_DocumentID = docID,
                                     cj_RunVersion = runVersion\<rparr>)
             (\<lambda>_. enqueue_pending docID runVersion ts))"

definition persist_body :: "Document \<Rightarrow> Entity list \<Rightarrow> int tx" where
  "persist_body doc entities =
     tx_bind (GetDocumentForUpdate (doc_ID doc)) (\<lambda>cur.
       if doc_RunVersion cur \<noteq> doc_RunVersion doc then tx_fail ErrStaleWrite
       else
         tx_bind (UpsertTokens (doc_ID doc) (doc_RunVersion doc) entities) (\<lambda>_.
         tx_bind (CountTokens (doc_ID doc) (doc_RunVersion doc)) (\<lambda>tot.
           if tot = 0 then
             tx_bind (MarkExtractionCompletedEmpty (doc_ID doc)) (\<lambda>_. tx_return tot)
           else
             tx_bind (AdvanceToClassifying (doc_ID doc) tot) (\<lambda>_.
             tx_bind (ListTokensForRun (doc_ID doc) (doc_RunVersion doc)) (\<lambda>ts.
             tx_bind (enqueue_pending (doc_ID doc) (doc_RunVersion doc) ts) (\<lambda>_.
               tx_return tot))))))"

definition persist :: "Document \<Rightarrow> Entity list \<Rightarrow> int tx" where
  "persist doc entities = WithinTx (persist_body doc entities)"

section \<open>The handler\<close>

text \<open>What \<open>Process\<close> does with the document it claimed: nothing once extraction is over.\<close>

definition extraction_over :: "Document \<Rightarrow> bool" where
  "extraction_over doc \<longleftrightarrow> doc_Status doc = DocCompleted \<or> doc_Status doc = DocClassifying"

definition Process_extract :: "Extractor \<Rightarrow> ExtractJob \<Rightarrow> unit tx" where
  "Process_extract extract job =
     tx_bind (claim (ej_DocumentID job)) (\<lambda>doc.
       if extraction_over doc then tx_return ()
       else case extract doc of
              Inl e \<Rightarrow> tx_fail e
            | Inr entities \<Rightarrow> tx_bind (persist doc entities) (\<lambda>_. tx_return ()))"

text \<open>
  Domain errors become delivery decisions: \<open>None\<close> acknowledges the message, an error leaves
  it pending. Both workers drop jobs whose target is gone or superseded.
\<close>

definition delivery :: "go_error + unit \<Rightarrow> go_error option" where
  "delivery r =
     (case r of
        Inr _ \<Rightarrow> None
      | Inl e \<Rightarrow> if errors_Is e ErrNotFound then None
                  else if errors_Is e ErrStaleWrite then None
                  else Some e)"

definition handle_extract :: "Extractor \<Rightarrow> Message \<Rightarrow> pg \<Rightarrow> go_error option \<times> pg" where
  "handle_extract extract msg s =
     (case decode_ExtractJob (msg_Payload msg) of
        Inl e \<Rightarrow> (None, s)
      | Inr job \<Rightarrow> (case Process_extract extract job s of (r, s') \<Rightarrow> (delivery r, s')))"

section \<open>What the transactions do\<close>

definition classify_msg :: "string \<Rightarrow> int \<Rightarrow> Token \<Rightarrow> string \<times> string \<times> string" where
  "classify_msg i v t = (StreamClassify, FormatInt (tok_ID t),
     marshal_ClassifyJob \<lparr>cj_TokenID = tok_ID t, cj_DocumentID = i, cj_RunVersion = v\<rparr>)"

definition unclassified :: "Token \<Rightarrow> bool" where
  "unclassified t \<longleftrightarrow> tok_Status t \<noteq> TokenClassified"

lemma keeps_enqueue_pending [keeps_intros]: "keeps quiet (enqueue_pending i v ts)"
  by (induction ts) (auto intro!: keeps_intros)

lemma keeps_extraction [keeps_intros]: "keeps quiet (claim_body i)" "keeps quiet (persist_body doc es)"
  unfolding claim_body_def persist_body_def by (auto intro!: keeps_intros)

lemma claim_body_succ:
  assumes "claim_body i s = (Inr doc, s')"
  shows "\<exists>d. documents (tbl s) i = Some d \<and> same_frame s s' \<and>
     (if doc_Status d = DocPending
      then doc = d\<lparr>doc_Status := DocExtracting\<rparr> \<and>
           tbl s' = (tbl s)\<lparr>documents := (documents (tbl s))(i \<mapsto> d\<lparr>doc_Status := DocExtracting,
              ExtractionStartedAt := Some (now s), doc_UpdatedAt := now s\<rparr>)\<rparr>
      else doc = d \<and> tbl s' = tbl s)"
proof -
  from assms obtain d where d: "documents (tbl s) i = Some d"
    and k: "(if doc_Status d = DocPending
        then tx_bind (SetExtractionStarted i) (\<lambda>_. tx_return (d\<lparr>doc_Status := DocExtracting\<rparr>))
        else tx_return d) (pop_fault s) = (Inr doc, s')"
    by (auto simp: claim_body_def tx_succ)
  show ?thesis
  proof (cases "doc_Status d = DocPending")
    case True
    with k have "SetExtractionStarted i (pop_fault s) = (Inr (), s')"
      and "doc = d\<lparr>doc_Status := DocExtracting\<rparr>" by (auto simp: tx_succ)
    with doc_update_succ(2) [OF this(1)] True d show ?thesis
      by (simp add: doc_updated_def same_frame_def)
  next
    case False
    with k d show ?thesis by (auto simp: tx_succ same_frame_def)
  qed
qed

lemma enqueue_pending_succ:
  "enqueue_pending i v ts s = (Inr u, s') \<Longrightarrow> enqueued (map (classify_msg i v) (filter unclassified ts)) s s'"
proof (induction ts arbitrary: s)
  case Nil
  then show ?case by (simp add: tx_succ enqueued_Nil)
next
  case (Cons t ts)
  show ?case
  proof (cases "tok_Status t = TokenClassified")
    case True
    with Cons show ?thesis by (simp add: unclassified_def)
  next
    case False
    with Cons.prems obtain u' w where "EnqueueClassify \<lparr>cj_TokenID = tok_ID t, cj_DocumentID = i,
        cj_RunVersion = v\<rparr> s = (Inr u', w)" and rest: "enqueue_pending i v ts w = (Inr u, s')"
      by (auto simp: tx_succ)
    then have "enqueued [classify_msg i v t] s w"
      by (simp add: EnqueueClassify_def classify_msg_def enqueued_one)
    with Cons.IH [OF rest] False show ?thesis by (simp add: enqueued_Cons unclassified_def)
  qed
qed

text \<open>The manifest after a successful \<open>persist\<close> that leaves \<open>n\<close> tokens.\<close>

definition persisted_row :: "int \<Rightarrow> time \<Rightarrow> Document \<Rightarrow> Document" where
  "persisted_row n t d =
     (if n = 0
      then d\<lparr>doc_Status := DocCompleted, doc_TotalTokens := 0,
             ExtractionCompletedAt := Some t, ClassificationStartedAt := Some t,
             ClassificationCompletedAt := Some t, doc_UpdatedAt := t\<rparr>
      else d\<lparr>doc_Status := DocClassifying, doc_TotalTokens := n,
             ExtractionCompletedAt := Some t, ClassificationStartedAt := Some t, doc_UpdatedAt := t\<rparr>)"

lemma persist_body_succ:
  assumes "persist_body doc es s = (Inr n, s')"
  shows "\<exists>cur new s1 s2.
     documents (tbl s) (doc_ID doc) = Some cur \<and> doc_RunVersion cur = doc_RunVersion doc \<and>
     upserted (doc_ID doc) (doc_RunVersion doc) es s new s1 \<and>
     n = int (length (run_tokens (doc_ID doc) (doc_RunVersion doc) (tokens (tbl s1)))) \<and>
     doc_updated (doc_ID doc) (persisted_row n (now s)) s1 s2 \<and>
     enqueued (map (classify_msg (doc_ID doc) (doc_RunVersion doc))
       (filter unclassified (sort_key tok_ID (run_tokens (doc_ID doc) (doc_RunVersion doc) (tokens (tbl s1)))))) s2 s'"
proof -
  let ?i = "doc_ID doc" and ?v = "doc_RunVersion doc"
  from assms obtain cur u1 t1 where cur: "documents (tbl s) ?i = Some cur" "doc_RunVersion cur = ?v"
    and up: "UpsertTokens ?i ?v es (pop_fault s) = (Inr u1, t1)"
    and rest: "(if run_tokens ?i ?v (tokens (tbl t1)) = []
        then tx_bind (MarkExtractionCompletedEmpty ?i) (\<lambda>_. tx_return (0 :: int))
        else tx_bind (AdvanceToClassifying ?i (int (length (run_tokens ?i ?v (tokens (tbl t1)))))) (\<lambda>_.
             tx_bind (ListTokensForRun ?i ?v) (\<lambda>ts.
             tx_bind (enqueue_pending ?i ?v ts) (\<lambda>_.
               tx_return (int (length (run_tokens ?i ?v (tokens (tbl t1)))))))))
        (pop_fault t1) = (Inr n, s')"
    by (auto simp: persist_body_def tx_succ tx_fail_def split: if_splits)
  from UpsertTokens_succ [OF up] obtain new where "upserted ?i ?v es (pop_fault s) new t1" ..
  then have new: "upserted ?i ?v es s new t1" by (simp add: upserted_def)
  then have now1: "now t1 = now s" by (simp add: upserted_def)
  let ?r = "run_tokens ?i ?v (tokens (tbl t1))"
  have "\<exists>s2. n = int (length ?r) \<and> doc_updated ?i (persisted_row n (now s)) t1 s2 \<and>
     enqueued (map (classify_msg ?i ?v) (filter unclassified (sort_key tok_ID ?r))) s2 s'"
  proof (cases "?r = []")
    case True
    with rest have "MarkExtractionCompletedEmpty ?i (pop_fault t1) = (Inr (), s')" and n: "n = 0"
      by (auto simp: tx_succ)
    then have "doc_updated ?i (persisted_row n (now s)) t1 s'"
      by (drule_tac doc_update_succ(4)) (simp add: doc_updated_def same_frame_def now1 persisted_row_def [abs_def] n)
    with True n show ?thesis by (intro exI [of _ s']) (simp add: enqueued_Nil)
  next
    case False
    with rest obtain u2 t2 u3 t3 where adv: "AdvanceToClassifying ?i (int (length ?r)) (pop_fault t1) = (Inr u2, t2)"
      and enq: "enqueue_pending ?i ?v (sort_key tok_ID (run_tokens ?i ?v (tokens (tbl t2)))) (pop_fault t2) = (Inr u3, s')"
      and n: "n = int (length ?r)"
      by (auto simp: tx_succ)
    have d: "doc_updated ?i (persisted_row n (now s)) t1 t2"
      using doc_update_succ(3) [OF adv] False
      by (simp add: doc_updated_def same_frame_def now1 persisted_row_def [abs_def] n)
    then have "tokens (tbl t2) = tokens (tbl t1)" by (simp add: doc_updated_def)
    with enqueue_pending_succ [OF enq]
    have "enqueued (map (classify_msg ?i ?v) (filter unclassified (sort_key tok_ID ?r))) t2 s'"
      by (simp add: enqueued_def)
    with d n show ?thesis by blast
  qed
  with cur new show ?thesis by blast
qed

end
