(* ===== verification/Classification_Worker.thy ===== *)
theory Classification_Worker
  imports Extraction_Worker
begin

text \<open>
  \<^verbatim>\<open>internal/pipeline/classifier.go\<close>: the classification worker. The LLM component is the
  interface \<^verbatim>\<open>llm.Classifier\<close>, an argument of the model.
\<close>

type_synonym Classifier = "Token \<Rightarrow> go_error + Classification"

definition apply_body :: "int \<Rightarrow> int \<Rightarrow> Classification \<Rightarrow> unit tx" where
  "apply_body tokenID runVersion result =
     tx_bind (GetTokenForUpdate tokenID) (\<lambda>tok.
       if tok_RunVersion tok \<noteq> runVersion then tx_fail ErrStaleWrite
       else if tok_Status tok = TokenClassified then tx_return ()
       else
         tx_bind (GetDocumentForUpdate (tok_DocumentID tok)) (\<lambda>doc.
           if doc_RunVersion doc \<noteq> runVersion then tx_fail ErrStaleWrite
           else
             tx_bind (SetTokenClassified tokenID result) (\<lambda>_.
             tx_bind (IncrementClassifiedCount (tok_DocumentID tok)) (\<lambda>newCount.
               if doc_TotalTokens doc \<le> newCount then
                 tx_bind (MarkDocumentCompleted (tok_DocumentID tok)) (\<lambda>_. tx_return ())
               else tx_return ()))))"

definition apply_result :: "int \<Rightarrow> int \<Rightarrow> Classification \<Rightarrow> unit tx" where
  "apply_result tokenID runVersion result = WithinTx (apply_body tokenID runVersion result)"

definition Process_classify :: "Classifier \<Rightarrow> ClassifyJob \<Rightarrow> unit tx" where
  "Process_classify classify job =
     tx_bind (GetToken (cj_TokenID job)) (\<lambda>tok.
       if tok_Status tok = TokenClassified then tx_return ()
       else case classify tok of
              Inl e \<Rightarrow> tx_fail e
            | Inr result \<Rightarrow> apply_result (cj_TokenID job) (cj_RunVersion job) result)"

definition handle_classify :: "Classifier \<Rightarrow> Message \<Rightarrow> pg \<Rightarrow> go_error option \<times> pg" where
  "handle_classify classify msg s =
     (case decode_ClassifyJob (msg_Payload msg) of
        Inl e \<Rightarrow> (None, s)
      | Inr job \<Rightarrow> (case Process_classify classify job s of (r, s') \<Rightarrow> (delivery r, s')))"

section \<open>What the transaction does\<close>

lemma keeps_apply [keeps_intros]: "keeps quiet (apply_body i v c)"
  unfolding apply_body_def by (auto intro!: keeps_intros)

definition classified_row :: "time \<Rightarrow> Document \<Rightarrow> Document" where
  "classified_row t d =
     (if doc_TotalTokens d \<le> doc_ClassifiedCount d + 1
      then d\<lparr>doc_ClassifiedCount := doc_ClassifiedCount d + 1, doc_Status := DocCompleted,
             ClassificationCompletedAt := Some t, doc_UpdatedAt := t\<rparr>
      else d\<lparr>doc_ClassifiedCount := doc_ClassifiedCount d + 1, doc_UpdatedAt := t\<rparr>)"

lemma apply_body_cases:
  assumes "apply_body i v c s = (Inr u, s')"
  obtains (already) tok where "filter (\<lambda>t. tok_ID t = i) (tokens (tbl s)) = [tok]" "tok_RunVersion tok = v"
      "tok_Status tok = TokenClassified" "tbl s' = tbl s" "same_frame s s'"
  | (classified) tok d where "filter (\<lambda>t. tok_ID t = i) (tokens (tbl s)) = [tok]" "tok_RunVersion tok = v"
      "tok_Status tok \<noteq> TokenClassified" "documents (tbl s) (tok_DocumentID tok) = Some d"
      "doc_RunVersion d = v"
      "tbl s' = (tbl s)\<lparr>documents := (documents (tbl s))(tok_DocumentID tok \<mapsto> classified_row (now s) d),
         tokens := map (\<lambda>t. if tok_ID t = i then classify_row c (now s) t else t) (tokens (tbl s))\<rparr>"
      "same_frame s s'"
proof -
  from assms obtain tok where tok: "filter (\<lambda>t. tok_ID t = i) (tokens (tbl s)) = [tok]" "tok_RunVersion tok = v"
    and rest: "(if tok_Status tok = TokenClassified then tx_return ()
       else
         tx_bind (GetDocumentForUpdate (tok_DocumentID tok)) (\<lambda>doc.
           if doc_RunVersion doc \<noteq> v then tx_fail ErrStaleWrite
           else
             tx_bind (SetTokenClassified i c) (\<lambda>_.
             tx_bind (IncrementClassifiedCount (tok_DocumentID tok)) (\<lambda>newCount.
               if doc_TotalTokens doc \<le> newCount then
                 tx_bind (MarkDocumentCompleted (tok_DocumentID tok)) (\<lambda>_. tx_return ())
               else tx_return ())))) (pop_fault s) = (Inr u, s')"
    by (auto simp: apply_body_def tx_succ split: if_splits)
  show thesis
  proof (cases "tok_Status tok = TokenClassified")
    case True
    with rest tok show thesis by (intro already [of tok]) (auto simp: tx_succ same_frame_def)
  next
    case False
    with rest obtain d u1 t1 n t2 where
      d: "documents (tbl s) (tok_DocumentID tok) = Some d" "doc_RunVersion d = v"
      and set: "SetTokenClassified i c (pop_fault (pop_fault s)) = (Inr u1, t1)"
      and inc: "IncrementClassifiedCount (tok_DocumentID tok) t1 = (Inr n, t2)"
      and fin: "(if doc_TotalTokens d \<le> n then tx_bind (MarkDocumentCompleted (tok_DocumentID tok)) (\<lambda>_. tx_return ())
               else tx_return ()) t2 = (Inr u, s')"
      by (auto simp: tx_succ split: if_splits)
    have t1: "tbl t1 = (tbl s)\<lparr>tokens := map (\<lambda>t. if tok_ID t = i then classify_row c (now s) t else t) (tokens (tbl s))\<rparr>"
      "same_frame s t1" using SetTokenClassified_succ [OF set] by (simp_all add: same_frame_def)
    have t2: "n = doc_ClassifiedCount d + 1"
      "tbl t2 = (tbl t1)\<lparr>documents := (documents (tbl s))(tok_DocumentID tok \<mapsto>
          d\<lparr>doc_ClassifiedCount := doc_ClassifiedCount d + 1, doc_UpdatedAt := now s\<rparr>)\<rparr>" "same_frame s t2"
      using IncrementClassifiedCount_succ [OF inc] t1 d by (auto simp: doc_updated_def same_frame_def)
    show thesis
    proof (cases "doc_TotalTokens d \<le> n")
      case True
      with fin have "MarkDocumentCompleted (tok_DocumentID tok) t2 = (Inr (), s')" by (auto simp: tx_succ)
      from doc_update_succ(5) [OF this] True t1 t2 tok d False show thesis
        by (intro classified [of tok d]) (auto simp: doc_updated_def same_frame_def classified_row_def)
    next
      case no: False
      with fin have "s' = t2" by (simp add: tx_succ)
      with no t1 t2 tok d False show thesis
        by (intro classified [of tok d]) (auto simp: classified_row_def)
    qed
  qed
qed

end
