(* ===== verification/Relay.thy ===== *)
theory Relay
  imports Tx_Laws
begin

text \<open>
  \<^verbatim>\<open>internal/outbox/relay.go\<close>: the relay that drains the transactional outbox to the broker.
  \<open>Publish\<close> is the broker's append (\<^verbatim>\<open>RedisBroker.Publish\<close>, an \<^verbatim>\<open>XADD\<close>): it may fail before or
  after the message is on the stream, and no rollback takes a message back.
\<close>

definition Publish :: "string \<Rightarrow> Message \<Rightarrow> unit tx" where
  "Publish stream msg = tx_wrap (''xadd '' @ stream) (\<lambda>s.
     (case next_fault s of
        OK \<Rightarrow> (Inr (), (pop_fault s)\<lparr>broker_log := broker_log s @ [(stream, msg)]\<rparr>)
      | Fail \<Rightarrow> (Inl ErrBroker, pop_fault s)
      | FailAfter \<Rightarrow> (Inl ErrBroker, (pop_fault s)\<lparr>broker_log := broker_log s @ [(stream, msg)]\<rparr>)))"

definition row_message :: "OutboxRow \<Rightarrow> string \<times> Message" where
  "row_message row = (obx_Stream row, \<lparr>msg_Key = obx_Key row, msg_Payload = obx_Payload row\<rparr>)"

fun publish_rows :: "OutboxRow list \<Rightarrow> int \<Rightarrow> int tx" where
  "publish_rows [] n = tx_return n"
| "publish_rows (row # rows) n =
     tx_bind (Publish (obx_Stream row) \<lparr>msg_Key = obx_Key row, msg_Payload = obx_Payload row\<rparr>) (\<lambda>_.
     tx_bind (DeleteOutbox (obx_ID row)) (\<lambda>_.
       publish_rows rows (n + 1)))"

definition drainBatch_body :: "int set \<Rightarrow> int \<Rightarrow> int tx" where
  "drainBatch_body locked batch =
     tx_bind (ClaimOutboxBatch locked batch) (\<lambda>rows. publish_rows rows 0)"

definition drainBatch :: "int set \<Rightarrow> int \<Rightarrow> int tx" where
  "drainBatch locked batch = WithinTx (drainBatch_body locked batch)"

section \<open>One batch\<close>

lemma Publish_Inr [tx_succ]:
  "Publish a m s = (Inr u, s') \<longleftrightarrow>
     next_fault s = OK \<and> s' = (pop_fault s)\<lparr>broker_log := broker_log s @ [(a, m)]\<rparr>"
  by (auto simp: Publish_def tx_succ split: fault.splits)

lemma keeps_Publish: "keeps seqs_grow (Publish a m)"
  unfolding Publish_def
  by (intro growing.basic(4)) (auto simp: keeps_def seqs_grow_def split: fault.splits)

lemma keeps_relay: "keeps seqs_grow (publish_rows rows n)" "keeps seqs_grow (drainBatch_body locked batch)"
proof -
  show r: "keeps seqs_grow (publish_rows rows n)" for rows n
    by (induction rows arbitrary: n) (auto intro!: growing_intros keeps_Publish quiet_grows [OF keeps_outbox(4)])
  show "keeps seqs_grow (drainBatch_body locked batch)"
    unfolding drainBatch_body_def by (intro growing_intros r quiet_grows [OF keeps_outbox(3)])
qed

text \<open>The rows a relay takes when \<open>locked\<close> are held by others.\<close>

definition claimable :: "int set \<Rightarrow> int \<Rightarrow> pg \<Rightarrow> OutboxRow list" where
  "claimable locked batch s =
     take (nat batch) (filter (\<lambda>r. obx_ID r \<notin> locked) (sort_key obx_ID (outbox (tbl s))))"

text \<open>
  What publishing rows does to the world: the tables lose exactly these rows, the broker
  gains exactly their messages, in order.
\<close>

definition published :: "OutboxRow list \<Rightarrow> pg \<Rightarrow> pg \<Rightarrow> bool" where
  "published rows s s' \<longleftrightarrow>
     tbl s' = (tbl s)\<lparr>outbox := filter (\<lambda>r. obx_ID r \<notin> obx_ID ` set rows) (outbox (tbl s))\<rparr> \<and>
     broker_log s' = broker_log s @ map row_message rows \<and>
     tokens_id_seq s' = tokens_id_seq s \<and> outbox_id_seq s' = outbox_id_seq s \<and> now s' = now s"

lemma publish_rows_succ:
  "publish_rows rows n s = (Inr m, s') \<Longrightarrow> m = n + int (length rows) \<and> published rows s s'"
proof (induction rows arbitrary: n s)
  case Nil
  then show ?case by (simp add: tx_succ published_def)
next
  case (Cons row rows)
  then obtain u t where d: "DeleteOutbox (obx_ID row)
      ((pop_fault s)\<lparr>broker_log := broker_log s @ [row_message row]\<rparr>) = (Inr u, t)"
    and rest: "publish_rows rows (n + 1) t = (Inr m, s')"
    by (auto simp: tx_succ row_message_def)
  from Cons.IH [OF rest] DeleteOutbox_succ [OF d] show ?case
    by (auto simp: published_def same_frame_def intro!: arg_cong2 [where f = filter])
qed

lemma drainBatch_body_succ:
  "drainBatch_body locked batch s = (Inr n, s') \<Longrightarrow>
     n = int (length (claimable locked batch s)) \<and> published (claimable locked batch s) s s'"
  by (auto simp: drainBatch_body_def tx_succ claimable_def published_def dest!: publish_rows_succ)

text \<open>
  Whether the batch succeeds or not, only rows of the outbox are published: the broker gains
  the messages of a first part of the claimed rows.
\<close>

lemma publish_rows_log:
  "publish_rows rows n s = (r, s') \<Longrightarrow>
     \<exists>k. broker_log s' = broker_log s @ map row_message (take k rows)"
proof (induction rows arbitrary: n s)
  case Nil
  then show ?case by (simp add: tx_return_def)
next
  case (Cons row rows)
  let ?s1 = "(pop_fault s)\<lparr>broker_log := broker_log s @ [row_message row]\<rparr>"
  show ?case
  proof (cases "next_fault s")
    case OK
    show ?thesis
    proof (cases "fst (DeleteOutbox (obx_ID row) ?s1)")
      case (Inl e)
      with Cons.prems OK have "broker_log s' = broker_log s @ [row_message row]"
        by (auto simp: tx_bind_def Publish_def tx_wrap_def row_message_def DeleteOutbox_def stmt_def
            split: prod.splits sum.splits if_splits)
      then show ?thesis by (intro exI [of _ 1]) simp
    next
      case (Inr u)
      then obtain t where t: "DeleteOutbox (obx_ID row) ?s1 = (Inr u, t)" by (metis prod.collapse)
      with Cons.prems OK have rest: "publish_rows rows (n + 1) t = (r, s')"
        by (simp add: tx_bind_def Publish_def tx_wrap_def row_message_def)
      from DeleteOutbox_succ [OF t] have "broker_log t = broker_log s @ [row_message row]"
        by (simp add: same_frame_def)
      with Cons.IH [OF rest] obtain k where
        "broker_log s' = broker_log s @ row_message row # map row_message (take k rows)" by auto
      then show ?thesis by (intro exI [of _ "Suc k"]) simp
    qed
  next
    case Fail
    with Cons.prems show ?thesis
      by (intro exI [of _ 0]) (auto simp: tx_bind_def Publish_def tx_wrap_def)
  next
    case FailAfter
    with Cons.prems show ?thesis
      by (intro exI [of _ 1]) (auto simp: tx_bind_def Publish_def tx_wrap_def row_message_def)
  qed
qed

lemma drainBatch_log:
  assumes "drainBatch locked batch s = (r, s')"
  shows "\<exists>k. broker_log s' = broker_log s @ map row_message (take k (claimable locked batch s))"
proof (cases "next_fault s = OK \<and> next_fault (pop_fault s) = OK")
  case False
  with assms show ?thesis
    by (intro exI [of _ 0])
      (auto simp: drainBatch_def WithinTx_def drainBatch_body_def ClaimOutboxBatch_def tx_bind_def
        tx_wrap_def stmt_def split: if_splits)
next
  case True
  let ?rows = "claimable locked batch s"
  obtain q t where q: "publish_rows ?rows 0 (pop_fault (pop_fault s)) = (q, t)" by fastforce
  with True have "drainBatch_body locked batch (pop_fault s) = (q, t)"
    by (simp add: drainBatch_body_def ClaimOutboxBatch_def tx_bind_def tx_wrap_def stmt_def claimable_def)
  with assms True have "broker_log s' = broker_log t"
    by (auto simp: drainBatch_def WithinTx_def split: sum.splits fault.splits)
  with publish_rows_log [OF q] show ?thesis by simp
qed

section \<open>Draining to empty\<close>

text \<open>The batch size the constructor fixes.\<close>

definition relay_batch :: int where
  "relay_batch = 200"

lemma drainBatch_succ:
  assumes "drainBatch locked batch s = (Inr n, s')"
  shows "n = int (length (claimable locked batch s))" and "published (claimable locked batch s) s s'"
proof -
  from uow.success [OF assms [unfolded drainBatch_def]]
  obtain s0 s1 where "tbl s0 = tbl s" "same_frame s s0" "drainBatch_body locked batch s0 = (Inr n, s1)"
    "tbl s' = tbl s1" "same_frame s1 s'" unfolding ran_def by blast
  moreover from this have "claimable locked batch s0 = claimable locked batch s"
    by (simp add: claimable_def)
  ultimately show "n = int (length (claimable locked batch s))"
    and "published (claimable locked batch s) s s'"
    using drainBatch_body_succ [of locked batch s0 n s1] by (auto simp: published_def same_frame_def)
qed

lemma claimable_subset: "set (claimable locked batch s) \<subseteq> set (outbox (tbl s))"
  unfolding claimable_def by (rule order_trans [OF set_take_subset]) auto

lemma published_shrinks:
  assumes "published rows s s'" and "rows \<noteq> []" and "set rows \<subseteq> set (outbox (tbl s))"
  shows "length (outbox (tbl s')) < length (outbox (tbl s))"
proof -
  obtain r where "r \<in> set rows" using assms(2) by (cases rows) auto
  with assms show ?thesis
    by (auto simp: published_def intro!: length_filter_less [of r])
qed

text \<open>
  The loop of \<open>drainAll\<close>. Iteration \<open>i\<close> sees the locks \<open>locked i\<close> of other relays and the
  cancellation \<open>cancelled i\<close> of the context; errors are logged and end the loop.
\<close>

function drainAll :: "(nat \<Rightarrow> int set) \<Rightarrow> (nat \<Rightarrow> bool) \<Rightarrow> nat \<Rightarrow> pg \<Rightarrow> pg" where
  "drainAll locked cancelled i s =
     (case drainBatch (locked i) relay_batch s of
        (Inl _, s') \<Rightarrow> s'
      | (Inr n, s') \<Rightarrow>
          if n < relay_batch then s'
          else if cancelled i then s'
          else drainAll locked cancelled (Suc i) s')"
  by pat_completeness auto

termination
proof (relation "measure (\<lambda>(locked, cancelled, i, s). length (outbox (tbl s)))")
  fix locked :: "nat \<Rightarrow> int set" and cancelled :: "nat \<Rightarrow> bool" and i s r s' n
  assume "(r, s') = drainBatch (locked i) relay_batch s" "r = Inr n" "\<not> n < relay_batch"
  then have d: "drainBatch (locked i) relay_batch s = (Inr n, s')" and n: "200 \<le> n"
    by (simp_all add: relay_batch_def)
  from drainBatch_succ [OF d] n have "claimable (locked i) relay_batch s \<noteq> []"
    and "published (claimable (locked i) relay_batch s) s s'" by auto
  then have "length (outbox (tbl s')) < length (outbox (tbl s))"
    using claimable_subset published_shrinks by blast
  then show "((locked, cancelled, Suc i, s'), (locked, cancelled, i, s))
      \<in> measure (\<lambda>(locked, cancelled, i, s). length (outbox (tbl s)))" by simp
qed simp

declare drainAll.simps [simp del]

text \<open>
  \<open>Run\<close>: one \<open>drainAll\<close> per tick of the ticker, until the context is done; \<^verbatim>\<open>time.NewTicker\<close> panics
  on an interval that is not positive, which is \<open>None\<close>.
\<close>

definition relay_Run :: "int \<Rightarrow> ((nat \<Rightarrow> int set) \<times> (nat \<Rightarrow> bool)) list \<Rightarrow> pg \<Rightarrow> pg option" where
  "relay_Run interval ticks s =
     (if interval \<le> 0 then None
      else Some (fold (\<lambda>(locked, cancelled). drainAll locked cancelled 0) ticks s))"

section \<open>A relay alone empties the outbox, in order\<close>

lemma no_faults_DeleteOutbox:
  "faults s = [] \<Longrightarrow> DeleteOutbox i s = (Inr (), upd_outbox (filter (\<lambda>r. obx_ID r \<noteq> i)) s)"
  by (simp add: DeleteOutbox_def stmt_def tx_wrap_def)

lemma no_faults_publish_rows:
  "faults s = [] \<Longrightarrow> \<exists>s'. publish_rows rows n s = (Inr (n + int (length rows)), s') \<and> faults s' = []"
proof (induction rows arbitrary: n s)
  case Nil
  then show ?case by (simp add: tx_return_def)
next
  case (Cons row rows)
  let ?s1 = "upd_outbox (filter (\<lambda>r. obx_ID r \<noteq> obx_ID row)) (s\<lparr>broker_log := broker_log s @ [row_message row]\<rparr>)"
  from Cons.prems have "publish_rows (row # rows) n s = publish_rows rows (n + 1) ?s1"
    by (simp add: tx_bind_def Publish_def tx_wrap_def no_faults_DeleteOutbox row_message_def)
  with Cons.IH [of ?s1 "n + 1"] Cons.prems show ?case by (auto simp: add_ac)
qed

lemma no_faults_drainBatch:
  assumes "faults s = []"
  shows "\<exists>s'. drainBatch locked batch s = (Inr (int (length (claimable locked batch s))), s') \<and> faults s' = []"
proof -
  obtain s1 where "publish_rows (claimable locked batch s) 0 s = (Inr (int (length (claimable locked batch s))), s1)"
    and "faults s1 = []" using no_faults_publish_rows [OF assms, of "claimable locked batch s" 0] by auto
  with assms show ?thesis
    by (simp add: drainBatch_def WithinTx_def drainBatch_body_def ClaimOutboxBatch_def tx_bind_def
        tx_wrap_def stmt_def claimable_def)
qed

lemma sort_key_filter_rest:
  assumes "distinct (map f xs)"
  shows "sort_key f (filter (\<lambda>x. f x \<notin> f ` set (take k (sort_key f xs))) xs) = drop k (sort_key f xs)"
proof -
  let ?ys = "sort_key f xs"
  have d: "distinct (map f ?ys)" using assms by (simp add: distinct_map)
  have "filter (\<lambda>x. f x \<notin> f ` set (take k ?ys)) ?ys =
      filter (\<lambda>x. f x \<notin> f ` set (take k ?ys)) (take k ?ys) @ filter (\<lambda>x. f x \<notin> f ` set (take k ?ys)) (drop k ?ys)"
    by (metis append_take_drop_id filter_append)
  moreover have "filter (\<lambda>x. f x \<notin> f ` set (take k ?ys)) (take k ?ys) = []" by simp
  moreover have "filter (\<lambda>x. f x \<notin> f ` set (take k ?ys)) (drop k ?ys) = drop k ?ys"
  proof -
    have "distinct (map f (take k ?ys) @ map f (drop k ?ys))"
      using d by (metis append_take_drop_id map_append)
    then show ?thesis by (intro filter_True) auto
  qed
  ultimately show ?thesis by (simp flip: filter_sort)
qed

lemma drainAll_empties:
  assumes "faults s = []" and "distinct (map obx_ID (outbox (tbl s)))"
  shows "broker_log (drainAll (\<lambda>_. {}) (\<lambda>_. False) i s) =
           broker_log s @ map row_message (sort_key obx_ID (outbox (tbl s))) \<and>
         outbox (tbl (drainAll (\<lambda>_. {}) (\<lambda>_. False) i s)) = []"
  using assms
proof (induction "length (outbox (tbl s))" arbitrary: s i rule: less_induct)
  case less
  let ?c = "claimable {} relay_batch s"
  let ?q = "sort_key obx_ID (outbox (tbl s))"
  from no_faults_drainBatch [OF less.prems(1), of "{}" relay_batch] obtain s' where
    s': "drainBatch {} relay_batch s = (Inr (int (length ?c)), s')" "faults s' = []" by blast
  note pub = drainBatch_succ(2) [OF s'(1)]
  have c: "?c = take 200 ?q" by (simp add: claimable_def relay_batch_def)
  have rest: "sort_key obx_ID (outbox (tbl s')) = drop 200 ?q"
    using pub sort_key_filter_rest [OF less.prems(2), of 200] by (simp add: published_def c)
  show ?case
  proof (cases "int (length ?c) < relay_batch")
    case True
    then have "length ?q < 200" unfolding c by (simp add: relay_batch_def)
    with rest have "outbox (tbl s') = []" by (metis drop_all length_0_conv length_sort less_imp_le)
    with True pub s'(1) c \<open>length ?q < 200\<close> show ?thesis
      by (simp add: drainAll.simps [of _ _ i s] published_def)
  next
    case False
    then have "?c \<noteq> []" by (auto simp: relay_batch_def)
    with pub have "length (outbox (tbl s')) < length (outbox (tbl s))"
      using claimable_subset published_shrinks by blast
    moreover have "distinct (map obx_ID (outbox (tbl s')))"
      using pub less.prems(2) by (simp add: published_def distinct_map_filter)
    ultimately show ?thesis
      using less.hyps [of s' "Suc i"] s' False pub rest c append_take_drop_id [of 200 ?q]
      by (simp add: drainAll.simps [of _ _ i s] published_def) (metis append_take_drop_id map_append)
  qed
qed

section \<open>Properties\<close>

lemma published_keeps:
  assumes "published rows s s'" and "set rows \<subseteq> set (outbox (tbl s))"
    and "distinct (map obx_ID (outbox (tbl s)))" and "row \<in> set (outbox (tbl s))"
  shows "row \<in> set (outbox (tbl s')) \<or> row \<in> set rows"
proof (cases "obx_ID row \<in> obx_ID ` set rows")
  case True
  then obtain x where x: "x \<in> set rows" "obx_ID row = obx_ID x" by auto
  with assms(2-4) have "row = x" by (auto simp: distinct_map inj_on_def)
  with x show ?thesis by simp
next
  case False
  with assms show ?thesis by (simp add: published_def)
qed

lemma drainBatch_outcome:
  assumes "drainBatch locked batch s = (r, s')"
  obtains (rolled_back) "isl r" "tbl s' = tbl s"
  | (committed) "published (claimable locked batch s) s s'"
      "r = Inr (int (length (claimable locked batch s))) \<or> r = Inl ErrDB"
  using assms [unfolded drainBatch_def]
proof (cases rule: uow.outcome)
  case rolled_back
  show thesis by (rule that(1)) (use rolled_back in simp_all)
next
  case (effect n)
  then obtain s0 s1 where "tbl s0 = tbl s" "same_frame s s0" "drainBatch_body locked batch s0 = (Inr n, s1)"
    "tbl s' = tbl s1" "same_frame s1 s'" unfolding ran_def by blast
  moreover from this have "claimable locked batch s0 = claimable locked batch s"
    by (simp add: claimable_def)
  ultimately show thesis
    using drainBatch_body_succ [of locked batch s0 n s1] effect(2)
    by (intro that(2)) (auto simp: published_def same_frame_def)
qed

text \<open>
  C14. The relay loses nothing, whatever fails and whatever other relays hold: after a batch,
  every row that was in the outbox is still there or its message was published by this very
  batch; only messages of the outbox are published; documents and tokens are untouched; and a
  batch that reports success has published and deleted exactly the rows it claimed, in the
  order of their ids.
\<close>

theorem relay_no_loss:
  assumes "distinct (map obx_ID (outbox (tbl s)))"
    and "drainBatch locked batch s = (r, s')"
  shows "\<exists>new. broker_log s' = broker_log s @ map row_message new \<and>
     set new \<subseteq> set (outbox (tbl s)) \<and> sorted (map obx_ID new) \<and>
     (\<forall>row \<in> set (outbox (tbl s)). row \<in> set (outbox (tbl s')) \<or> row \<in> set new) \<and>
     documents (tbl s') = documents (tbl s) \<and> tokens (tbl s') = tokens (tbl s) \<and>
     (\<forall>n. r = Inr n \<longrightarrow> n = int (length new) \<and>
        new = take (nat batch) (filter (\<lambda>row. obx_ID row \<notin> locked) (sort_key obx_ID (outbox (tbl s)))) \<and>
        outbox (tbl s') = filter (\<lambda>row. row \<notin> set new) (outbox (tbl s)))"
proof -
  let ?c = "claimable locked batch s"
  have sorted_c: "sorted (map obx_ID ?c)"
    unfolding claimable_def by (simp add: sorted_filter take_map [symmetric] sorted_wrt_take)
  from assms(2) show ?thesis
  proof (cases rule: drainBatch_outcome)
    case rolled_back
    from drainBatch_log [OF assms(2)] obtain k where
      "broker_log s' = broker_log s @ map row_message (take k ?c)" ..
    moreover have "set (take k ?c) \<subseteq> set (outbox (tbl s))"
      using claimable_subset set_take_subset by (metis order_trans)
    moreover have "sorted (map obx_ID (take k ?c))"
      using sorted_c by (simp add: take_map [symmetric] sorted_wrt_take)
    ultimately show ?thesis using rolled_back by (intro exI [of _ "take k ?c"]) auto
  next
    case committed
    have "(obx_ID r \<notin> obx_ID ` set ?c) = (r \<notin> set ?c)" if "r \<in> set (outbox (tbl s))" for r
      using that assms(1) claimable_subset [of locked batch s] by (auto simp: distinct_map inj_on_def)
    then have "filter (\<lambda>r. obx_ID r \<notin> obx_ID ` set ?c) (outbox (tbl s)) = filter (\<lambda>r. r \<notin> set ?c) (outbox (tbl s))"
      by (rule filter_cong [OF refl])
    with committed sorted_c claimable_subset [of locked batch s] published_keeps [OF committed(1) claimable_subset assms(1)]
    show ?thesis
      by (intro exI [of _ ?c]) (auto simp: published_def claimable_def)
  qed
qed

text \<open>A database with two rows in its outbox and the given faults to come.\<close>

definition two_rows :: "fault list \<Rightarrow> pg" where
  "two_rows fs = \<lparr>tbl = \<lparr>documents = Map.empty, tokens = [],
       outbox = [outbox_row 2 StreamClassify ''2'' ''b'', outbox_row 1 StreamExtract ''d'' ''a'']\<rparr>,
     tokens_id_seq = 1, outbox_id_seq = 3, now = 0, faults = fs, broker_log = []\<rparr>"

lemma relay_no_loss_witness:
  "\<exists>new s'. drainBatch {} 200 (two_rows [OK, OK, OK, OK, FailAfter]) = (Inl (Wrap ''xadd pipeline:classify'' ErrBroker), s') \<and>
     broker_log s' = map row_message new \<and> set new \<subseteq> set (outbox (tbl (two_rows []))) \<and> length new = 2 \<and>
     (\<forall>row \<in> set (outbox (tbl (two_rows []))). row \<in> set (outbox (tbl s')) \<or> row \<in> set new)"
proof -
  let ?s = "two_rows [OK, OK, OK, OK, FailAfter]"
  obtain r s' where d: "drainBatch {} 200 ?s = (r, s')" by fastforce
  have "distinct (map obx_ID (outbox (tbl ?s)))" by (simp add: two_rows_def)
  from relay_no_loss [OF this d] obtain new where new: "broker_log s' = map row_message new"
    "set new \<subseteq> set (outbox (tbl (two_rows [])))"
    "\<forall>row \<in> set (outbox (tbl (two_rows []))). row \<in> set (outbox (tbl s')) \<or> row \<in> set new"
    by (auto simp: two_rows_def)
  from d have "r = Inl (Wrap ''xadd pipeline:classify'' ErrBroker)" and "length (broker_log s') = 2"
    by (auto simp: two_rows_def drainBatch_def WithinTx_def drainBatch_body_def ClaimOutboxBatch_def
        tx_bind_def tx_wrap_def stmt_def next_fault_def pop_fault_def insort_key.simps Publish_def
        DeleteOutbox_def upd_outbox_def StreamClassify_def)
  with d new show ?thesis by (metis length_map)
qed

text \<open>
  C15. With no faults, no other relay and no cancellation, one tick of the relay empties the
  outbox: the loop ends, every message is published exactly once and in the order of the rows'
  ids, however many batches that takes.
\<close>

theorem relay_drains:
  assumes "faults s = []" and "distinct (map obx_ID (outbox (tbl s)))" and "0 < interval"
  shows "\<exists>s'. relay_Run interval [(\<lambda>_. {}, \<lambda>_. False)] s = Some s' \<and> outbox (tbl s') = [] \<and>
         broker_log s' = broker_log s @ map row_message (sort_key obx_ID (outbox (tbl s)))"
  using drainAll_empties [OF assms(1,2)] assms(3) by (simp add: relay_Run_def)

lemma relay_drains_witness:
  "\<exists>s'. relay_Run 1000000000 [(\<lambda>_. {}, \<lambda>_. False)] (two_rows []) = Some s' \<and> outbox (tbl s') = [] \<and>
   broker_log s' =
     [(StreamExtract, \<lparr>msg_Key = ''d'', msg_Payload = ''a''\<rparr>), (StreamClassify, \<lparr>msg_Key = ''2'', msg_Payload = ''b''\<rparr>)]"
  using relay_drains [of "two_rows []" 1000000000]
  by (simp add: two_rows_def row_message_def)

end
