(* ===== verification/Db_Invariant.thy ===== *)
theory Db_Invariant
  imports Service Classification_Worker Relay
begin

text \<open>
  The invariant of the database: keys are keys, every token belongs to its document's current
  run, and the manifest's counters count the rows they stand for. Every unit of work keeps
  it, whatever the environment does to the connection, by the contract of \<^verbatim>\<open>WithinTx\<close>.
\<close>

section \<open>The invariant\<close>

definition tokens_of :: "string \<Rightarrow> Token list \<Rightarrow> Token list" where
  "tokens_of i ts = filter (\<lambda>t. tok_DocumentID t = i) ts"

definition classified :: "Token \<Rightarrow> bool" where
  "classified t \<longleftrightarrow> tok_Status t = TokenClassified"

definition doc_ok :: "Token list \<Rightarrow> string \<Rightarrow> Document \<Rightarrow> bool" where
  "doc_ok ts i d \<longleftrightarrow>
     doc_ID d = i \<and> text_ok i \<and> DocStatus_Valid (doc_Status d) \<and>
     1 \<le> doc_RunVersion d \<and> int4_ok (doc_RunVersion d) \<and>
     doc_TotalTokens d = int (length (tokens_of i ts)) \<and>
     doc_ClassifiedCount d = int (length (filter classified (tokens_of i ts))) \<and>
     (doc_Status d = DocCompleted \<longrightarrow> doc_ClassifiedCount d = doc_TotalTokens d)"

definition token_ok :: "(string \<rightharpoonup> Document) \<Rightarrow> Token \<Rightarrow> bool" where
  "token_ok docs t \<longleftrightarrow>
     (\<exists>d. docs (tok_DocumentID t) = Some d \<and> tok_RunVersion t = doc_RunVersion d) \<and>
     (tok_Status t = TokenPending \<or> tok_Status t = TokenClassified) \<and> int8_ok (tok_ID t)"

definition docs_inv :: "tables \<Rightarrow> bool" where
  "docs_inv tb \<longleftrightarrow> (\<forall>i d. documents tb i = Some d \<longrightarrow> doc_ok (tokens tb) i d)"

definition tokens_inv :: "tables \<Rightarrow> bool" where
  "tokens_inv tb \<longleftrightarrow> (\<forall>t \<in> set (tokens tb). token_ok (documents tb) t) \<and>
     distinct (map tok_ID (tokens tb)) \<and> distinct (map natural_key (tokens tb))"

definition outbox_inv :: "tables \<Rightarrow> bool" where
  "outbox_inv tb \<longleftrightarrow> distinct (map obx_ID (outbox tb))"

definition seqs_inv :: "pg \<Rightarrow> bool" where
  "seqs_inv s \<longleftrightarrow> (\<forall>t \<in> set (tokens (tbl s)). tok_ID t < tokens_id_seq s) \<and>
     (\<forall>r \<in> set (outbox (tbl s)). obx_ID r < outbox_id_seq s)"

definition db_inv :: "pg \<Rightarrow> bool" where
  "db_inv s \<longleftrightarrow> docs_inv (tbl s) \<and> tokens_inv (tbl s) \<and> outbox_inv (tbl s) \<and> seqs_inv s"

lemmas db_inv_defs = db_inv_def docs_inv_def tokens_inv_def outbox_inv_def seqs_inv_def

lemma db_inv_frame: "db_inv s \<Longrightarrow> tbl s' = tbl s \<Longrightarrow> seqs_grow s s' \<Longrightarrow> db_inv s'"
  by (auto simp: db_inv_defs seqs_grow_def intro: less_le_trans)

lemma db_inv_doc: "db_inv s \<Longrightarrow> documents (tbl s) i = Some d \<Longrightarrow> doc_ok (tokens (tbl s)) i d"
  by (simp add: db_inv_defs)

lemma db_inv_token: "db_inv s \<Longrightarrow> t \<in> set (tokens (tbl s)) \<Longrightarrow> token_ok (documents (tbl s)) t"
  by (simp add: db_inv_defs)

lemma db_inv_outbox_distinct: "db_inv s \<Longrightarrow> distinct (map obx_ID (outbox (tbl s)))"
  by (simp add: db_inv_defs)

text \<open>All tokens of a document are tokens of its current run.\<close>

lemma run_tokens_current:
  assumes "db_inv s" and "documents (tbl s) i = Some d"
  shows "run_tokens i (doc_RunVersion d) (tokens (tbl s)) = tokens_of i (tokens (tbl s))"
  unfolding run_tokens_def tokens_of_def
  by (rule filter_cong [OF refl]) (use assms db_inv_token in \<open>force simp: token_ok_def\<close>)

text \<open>A document's part of the invariant reads its own tokens only.\<close>

lemma doc_ok_cong: "tokens_of i ts = tokens_of i us \<Longrightarrow> doc_ok ts i d \<longleftrightarrow> doc_ok us i d"
  by (simp add: doc_ok_def)

lemma docs_inv_update:
  assumes "docs_inv tb" and "doc_ok us i d'"
    and "\<And>j. j \<noteq> i \<Longrightarrow> tokens_of j us = tokens_of j (tokens tb)"
  shows "docs_inv (tb\<lparr>documents := (documents tb)(i \<mapsto> d'), tokens := us\<rparr>)"
  using assms doc_ok_cong [of _ us "tokens tb"] by (auto simp: docs_inv_def)

section \<open>Changing one document\<close>

text \<open>A document may change its row, if counters and run are kept.\<close>

lemma db_inv_update_doc:
  assumes "db_inv s" and "documents (tbl s) i = Some d"
    and "tbl s' = (tbl s)\<lparr>documents := (documents (tbl s))(i \<mapsto> d')\<rparr>" and "seqs_grow s s'"
    and "doc_ok (tokens (tbl s)) i d'" and "doc_RunVersion d' = doc_RunVersion d"
  shows "db_inv s'"
  using assms by (auto simp: db_inv_defs token_ok_def seqs_grow_def intro: less_le_trans)

text \<open>A document may be new, if it has no tokens.\<close>

lemma db_inv_insert_doc:
  assumes "db_inv s" and "documents (tbl s) i = None"
    and "tbl s' = (tbl s)\<lparr>documents := (documents (tbl s))(i \<mapsto> d')\<rparr>" and "seqs_grow s s'"
    and "doc_ok [] i d'"
  shows "db_inv s'"
proof -
  have "tokens_of i (tokens (tbl s)) = []"
    unfolding tokens_of_def
    by (rule filter_none) (use assms(1,2) db_inv_token in \<open>fastforce simp: token_ok_def\<close>)
  with assms(5) have "doc_ok (tokens (tbl s)) i d'" by (simp add: doc_ok_def tokens_of_def)
  with assms show ?thesis
    by (auto simp: db_inv_defs token_ok_def seqs_grow_def intro: less_le_trans)
qed

lemma tokens_of_remove:
  "tokens_of j (filter (\<lambda>t. tok_DocumentID t \<noteq> i) ts) = (if j = i then [] else tokens_of j ts)"
  by (auto simp: tokens_of_def intro: filter_cong)

text \<open>A document may start a new run, if its tokens go.\<close>

lemma db_inv_reset_doc:
  assumes "db_inv s"
    and "tbl s' = (tbl s)\<lparr>documents := (documents (tbl s))(i \<mapsto> d'),
                        tokens := filter (\<lambda>t. tok_DocumentID t \<noteq> i) (tokens (tbl s))\<rparr>"
    and "seqs_grow s s'" and "doc_ok [] i d'"
  shows "db_inv s'"
proof -
  let ?us = "filter (\<lambda>t. tok_DocumentID t \<noteq> i) (tokens (tbl s))"
  have "doc_ok ?us i d'" using assms(4) doc_ok_cong [of i "[]" ?us d'] by (simp add: tokens_of_remove tokens_of_def)
  with assms(1,2) have "docs_inv (tbl s')"
    using docs_inv_update [of "tbl s" ?us i d'] by (simp add: db_inv_def tokens_of_remove)
  with assms(1-3) show ?thesis
    by (auto simp: db_inv_def tokens_inv_def outbox_inv_def seqs_inv_def token_ok_def seqs_grow_def
        distinct_map_filter intro: less_le_trans)
qed

lemma db_inv_enqueued: "db_inv s \<Longrightarrow> enqueued xs s s' \<Longrightarrow> db_inv s'"
  by (auto simp: db_inv_defs enqueued_def number_rows_distinct dest: number_rows_ids)
    (metis linorder_not_le number_rows_ids)

lemma db_inv_published: "db_inv s \<Longrightarrow> published rows s s' \<Longrightarrow> db_inv s'"
  by (auto simp: db_inv_defs published_def distinct_map_filter)

section \<open>Changing tokens\<close>

lemma length_sum_zero: "int (length xs) + int (length ys) = 0 \<longleftrightarrow> xs = [] \<and> ys = []"
  by (cases xs; cases ys) auto

lemma tokens_of_append: "tokens_of i (ts @ us) = tokens_of i ts @ tokens_of i us"
  by (simp add: tokens_of_def)

lemma tokens_of_new:
  "(\<forall>t \<in> set new. tok_DocumentID t = i) \<Longrightarrow> tokens_of j new = (if j = i then new else [])"
  by (auto simp: tokens_of_def)

text \<open>
  An extraction that persists: new pending tokens of the current run, and a manifest row that
  counts them.
\<close>

lemma db_inv_persist:
  assumes inv: "db_inv s" and cur: "documents (tbl s) i = Some cur" "doc_RunVersion cur = v"
    and up: "upserted i v es s new s1"
    and row: "doc_updated i (persisted_row (int (length (run_tokens i v (tokens (tbl s1))))) (now s)) s1 s2"
  shows "db_inv s2"
proof -
  let ?ts = "tokens (tbl s)"
  let ?n = "int (length (run_tokens i v (tokens (tbl s1))))"
  from up have ts1: "tokens (tbl s1) = ?ts @ new" and docs1: "documents (tbl s1) = documents (tbl s)"
    by (simp_all add: upserted_def)
  have new: "\<forall>t \<in> set new. tok_DocumentID t = i \<and> tok_RunVersion t = v \<and> tok_Status t = TokenPending \<and> int8_ok (tok_ID t)"
    and fresh: "\<forall>t \<in> set new. tokens_id_seq s \<le> tok_ID t \<and> tok_ID t < tokens_id_seq s1"
    and keys: "natural_key ` set new \<inter> natural_key ` set ?ts = {}" "distinct (map natural_key new)"
      "sorted_wrt (<) (map tok_ID new)"
    using up by (auto simp: upserted_def)
  have run: "run_tokens i v (tokens (tbl s1)) = tokens_of i (?ts @ new)"
    using run_tokens_current [OF inv cur(1)] cur(2) new
    by (simp add: ts1 run_tokens_def tokens_of_def)
  from row cur(1) docs1 have s2: "tbl s2 = (tbl s1)\<lparr>documents := (documents (tbl s))(i \<mapsto> persisted_row ?n (now s) cur)\<rparr>"
    and seqs: "tokens_id_seq s2 = tokens_id_seq s1" "outbox_id_seq s2 = outbox_id_seq s"
    using up by (auto simp: doc_updated_def same_frame_def upserted_def)
  have of_new: "tokens_of j new = (if j = i then new else [])" for j
    by (rule tokens_of_new) (use new in blast)
  have uncl: "filter classified new = []" using new by (auto simp: classified_def)
  from db_inv_doc [OF inv cur(1)] have "doc_ok (?ts @ new) i (persisted_row ?n (now s) cur)"
    by (auto simp: doc_ok_def persisted_row_def run tokens_of_append of_new uncl cur length_sum_zero)
  moreover have "doc_ok (?ts @ new) j d" if "documents (tbl s) j = Some d" "j \<noteq> i" for j d
    using db_inv_doc [OF inv that(1)] that(2) doc_ok_cong [of j ?ts "?ts @ new" d]
    by (simp add: tokens_of_append of_new)
  ultimately have "docs_inv (tbl s2)"
    by (simp add: docs_inv_def s2 ts1)
  moreover have "tokens_inv (tbl s2)"
    using inv new fresh keys cur
    by (auto simp: tokens_inv_def db_inv_def s2 ts1 token_ok_def seqs_inv_def persisted_row_def
        strict_sorted_iff) (metis linorder_not_le)
  moreover have "outbox_inv (tbl s2)" "seqs_inv s2"
    using inv fresh up by (auto simp: db_inv_defs s2 ts1 seqs upserted_def intro: less_le_trans)
  ultimately show ?thesis by (simp add: db_inv_def)
qed

text \<open>A classification applied: one pending token becomes classified, the counter counts it.\<close>

lemma tokens_of_map:
  "(\<And>t. t \<in> set ts \<Longrightarrow> tok_DocumentID (f t) = tok_DocumentID t) \<Longrightarrow> tokens_of i (map f ts) = map f (tokens_of i ts)"
  unfolding tokens_of_def by (rule filter_map_same) simp

lemma classify_row_sel [simp]:
  "tok_ID (classify_row c t tok) = tok_ID tok" "tok_DocumentID (classify_row c t tok) = tok_DocumentID tok"
  "tok_RunVersion (classify_row c t tok) = tok_RunVersion tok" "tok_Status (classify_row c t tok) = TokenClassified"
  "natural_key (classify_row c t tok) = natural_key tok"
  by (simp_all add: classify_row_def natural_key_def)

lemma db_inv_classified:
  assumes inv: "db_inv s" and tok: "filter (\<lambda>t. tok_ID t = i) (tokens (tbl s)) = [tok]"
    and pending: "tok_Status tok \<noteq> TokenClassified"
    and d: "documents (tbl s) (tok_DocumentID tok) = Some d"
    and s': "tbl s' = (tbl s)\<lparr>documents := (documents (tbl s))(tok_DocumentID tok \<mapsto> classified_row (now s) d),
         tokens := map (\<lambda>t. if tok_ID t = i then classify_row c (now s) t else t) (tokens (tbl s))\<rparr>"
    and frame: "same_frame s s'"
  shows "db_inv s'"
proof -
  let ?f = "\<lambda>t. if tok_ID t = i then classify_row c (now s) t else t"
  let ?ts = "tokens (tbl s)" and ?j = "tok_DocumentID tok"
  have tok_in: "tok \<in> set ?ts" "tok_ID tok = i" using filter_eq_singletonD [OF tok] by auto
  have only: "t = tok" if "t \<in> set ?ts" "tok_ID t = i" for t
  proof -
    have "t \<in> set (filter (\<lambda>t. tok_ID t = i) ?ts)" using that by simp
    then show ?thesis unfolding tok by simp
  qed
  have of_map: "tokens_of k (map ?f ?ts) = map ?f (tokens_of k ?ts)" for k
    by (rule tokens_of_map) simp
  have ids: "distinct (map tok_ID (tokens_of ?j ?ts))"
    using inv by (simp add: db_inv_defs tokens_of_def distinct_map_filter)
  have "length (filter classified (map ?f (tokens_of ?j ?ts))) = Suc (length (filter classified (tokens_of ?j ?ts)))"
    by (rule length_filter_update_one [OF ids, of tok])
      (use tok_in pending in \<open>simp_all add: tokens_of_def classified_def\<close>)
  with db_inv_doc [OF inv d] have "doc_ok (map ?f ?ts) ?j (classified_row (now s) d)"
    using length_filter_le [of classified "map ?f (tokens_of ?j ?ts)"]
    by (auto simp: doc_ok_def classified_row_def of_map)
  moreover have "tokens_of k (map ?f ?ts) = tokens_of k ?ts" if "k \<noteq> ?j" for k
    unfolding of_map using only that by (intro map_idI) (auto simp: tokens_of_def)
  ultimately have "docs_inv (tbl s')"
    using docs_inv_update [of "tbl s" "map ?f ?ts" ?j] inv s' by (simp add: db_inv_def)
  moreover have "map tok_ID (map ?f ?ts) = map tok_ID ?ts" "map natural_key (map ?f ?ts) = map natural_key ?ts"
    by simp_all
  ultimately show ?thesis
    using inv s' frame d
    by (auto simp: db_inv_def tokens_inv_def outbox_inv_def seqs_inv_def same_frame_def token_ok_def
        classified_row_def simp del: map_map)
qed

section \<open>Every body keeps it\<close>

lemma Submit_body_inv:
  assumes "db_inv s" and "Submit_body i text mode s = (Inr res, s')"
  shows "db_inv s'"
proof -
  from Submit_body_succ [OF assms(2)] obtain t where d: "Submit_decide i text mode s = (Inr res, t)"
    and enq: "enqueued (if Accepted res then [extract_msg (sub_Document res)] else []) t s'" by blast
  from d have "db_inv t"
  proof (cases rule: Submit_decide_cases)
    case new_doc
    then show ?thesis
      by (intro db_inv_insert_doc [OF assms(1) new_doc(2) new_doc(4)])
        (simp_all add: same_frame_grow doc_ok_def new_document_def tokens_of_def int4_ok_def)
  next
    case (full_rerun d)
    then show ?thesis
      using db_inv_doc [OF assms(1) full_rerun(1)]
      by (intro db_inv_reset_doc [OF assms(1) full_rerun(5)])
        (simp_all add: same_frame_grow doc_ok_def reset_row_def tokens_of_def)
  next
    case (resume_failed d)
    then show ?thesis
      using db_inv_doc [OF assms(1) resume_failed(1)]
      by (intro db_inv_update_doc [OF assms(1) resume_failed(1,5)])
        (simp_all add: same_frame_grow doc_ok_def)
  qed (use assms(1) db_inv_frame same_frame_grow in blast)+
  with enq show ?thesis using db_inv_enqueued by blast
qed

lemma claim_body_inv:
  assumes "db_inv s" and "claim_body i s = (Inr doc, s')"
  shows "db_inv s'"
proof -
  from claim_body_succ [OF assms(2)] obtain d where d: "documents (tbl s) i = Some d" "same_frame s s'"
    and k: "if doc_Status d = DocPending
      then doc = d\<lparr>doc_Status := DocExtracting\<rparr> \<and>
           tbl s' = (tbl s)\<lparr>documents := (documents (tbl s))(i \<mapsto> d\<lparr>doc_Status := DocExtracting,
              ExtractionStartedAt := Some (now s), doc_UpdatedAt := now s\<rparr>)\<rparr>
      else doc = d \<and> tbl s' = tbl s" by blast
  show ?thesis
  proof (cases "doc_Status d = DocPending")
    case True
    with k have "tbl s' = (tbl s)\<lparr>documents := (documents (tbl s))(i \<mapsto> d\<lparr>doc_Status := DocExtracting,
              ExtractionStartedAt := Some (now s), doc_UpdatedAt := now s\<rparr>)\<rparr>" by simp
    then show ?thesis
      by (rule db_inv_update_doc [OF assms(1) d(1)])
        (use db_inv_doc [OF assms(1) d(1)] d(2) in \<open>simp_all add: doc_ok_def same_frame_grow\<close>)
  next
    case False
    with k d show ?thesis using assms(1) db_inv_frame same_frame_grow by auto
  qed
qed

lemma persist_body_inv: "db_inv s \<Longrightarrow> persist_body doc es s = (Inr n, s') \<Longrightarrow> db_inv s'"
  using persist_body_succ [of doc es s n s'] db_inv_persist db_inv_enqueued by metis

lemma apply_body_inv:
  assumes "db_inv s" and "apply_body i v c s = (Inr u, s')"
  shows "db_inv s'"
  using assms(2)
proof (cases rule: apply_body_cases)
  case already
  then show ?thesis using assms(1) db_inv_frame same_frame_grow by blast
next
  case (classified tok d)
  then show ?thesis using assms(1) db_inv_classified by blast
qed

lemma drainBatch_body_inv: "db_inv s \<Longrightarrow> drainBatch_body locked batch s = (Inr n, s') \<Longrightarrow> db_inv s'"
  using drainBatch_body_succ db_inv_published by blast

section \<open>Every operation keeps it\<close>

lemma WithinTx_inv:
  assumes "keeps quiet fn" and "\<And>x s s'. db_inv s \<Longrightarrow> fn s = (Inr x, s') \<Longrightarrow> db_inv s'" and "db_inv s"
  shows "db_inv (snd (WithinTx fn s))"
proof -
  obtain r s' where w: "WithinTx fn s = (r, s')" by fastforce
  have "db_inv s'"
  proof (rule uow.invariant [where I = db_inv, OF assms(1) w assms(3)])
    show "db_inv b" if "db_inv a" "tbl b = tbl a" "quiet a b" for a b
      using that db_inv_frame [of a b] by (simp add: quiet_def)
  qed (rule assms(2))
  with w show ?thesis by simp
qed

lemma drainBatch_inv:
  assumes "db_inv s"
  shows "db_inv (snd (drainBatch locked batch s))"
proof -
  obtain r s' where d: "drainBatch locked batch s = (r, s')" by fastforce
  have grow: "seqs_grow s s'"
    using uow.frame [OF growing.frame_relation_axioms keeps_relay(2) d [unfolded drainBatch_def]] .
  from d have "db_inv s'"
    by (cases rule: drainBatch_outcome) (use assms grow db_inv_frame db_inv_published in blast)+
  with d show ?thesis by simp
qed

lemma snd_tx_wrap [simp]: "snd (tx_wrap w m s) = snd (m s)"
  by (simp add: tx_wrap_def split: prod.split sum.split)

lemma MarkFailed_inv:
  assumes "db_inv s"
  shows "db_inv (snd (MarkFailed i s))"
proof -
  have inv: "db_inv (update_doc i (\<lambda>d. d\<lparr>doc_Status := DocFailed, doc_UpdatedAt := t\<rparr>) (pop_fault s))" for t
  proof (cases "documents (tbl s) i")
    case None
    then show ?thesis using db_inv_frame [OF assms] by (simp add: update_doc_def seqs_grow_def)
  next
    case (Some d)
    then show ?thesis
      using db_inv_doc [OF assms Some]
      by (intro db_inv_update_doc [OF assms Some, where d' = "d\<lparr>doc_Status := DocFailed, doc_UpdatedAt := t\<rparr>"])
        (simp_all add: update_doc_def seqs_grow_def doc_ok_def)
  qed
  have "db_inv (pop_fault s)" by (rule db_inv_frame [OF assms]) (simp_all add: seqs_grow_def)
  with inv show ?thesis by (simp add: MarkFailed_def autocommit_def split: fault.split)
qed

text \<open>
  C5. The database invariant. Keys are unique and below their sequence, every token belongs to
  an existing document and to its current run, \<^verbatim>\<open>total_tokens\<close> is the number of its token rows,
  \<^verbatim>\<open>classified_count\<close> the number of those that are classified, and a completed document has
  all of them classified. Every operation that writes to the database keeps this, whatever
  statement or commit fails on the way.
\<close>

theorem db_inv_kept:
  assumes "db_inv s"
  shows "db_inv (snd (Submit i text mode s)) \<and> db_inv (snd (claim i s)) \<and>
     db_inv (snd (persist doc es s)) \<and> db_inv (snd (apply_result k v c s)) \<and>
     db_inv (snd (MarkFailed i s)) \<and> db_inv (snd (drainBatch locked batch s))"
proof (intro conjI)
  show "db_inv (snd (Submit i text mode s))"
    using WithinTx_inv [OF keeps_Submit(2) Submit_body_inv assms] by (simp add: Submit_def)
  show "db_inv (snd (claim i s))"
    using WithinTx_inv [OF keeps_extraction(1) claim_body_inv assms] by (simp add: claim_def)
  show "db_inv (snd (persist doc es s))"
    using WithinTx_inv [OF keeps_extraction(2) persist_body_inv assms] by (simp add: persist_def)
  show "db_inv (snd (apply_result k v c s))"
    using WithinTx_inv [OF keeps_apply apply_body_inv assms] by (simp add: apply_result_def)
  show "db_inv (snd (MarkFailed i s))" by (rule MarkFailed_inv [OF assms])
  show "db_inv (snd (drainBatch locked batch s))" by (rule drainBatch_inv [OF assms])
qed

text \<open>The database after the migrations: empty tables, both sequences at one.\<close>

definition empty_db :: "time \<Rightarrow> fault list \<Rightarrow> pg" where
  "empty_db t fs = \<lparr>tbl = \<lparr>documents = Map.empty, tokens = [], outbox = []\<rparr>,
     tokens_id_seq = 1, outbox_id_seq = 1, now = t, faults = fs, broker_log = []\<rparr>"

lemma empty_db_inv: "db_inv (empty_db t fs)"
  by (simp add: db_inv_defs empty_db_def)

lemma db_inv_kept_witness:
  "let s = snd (Submit ''d'' ''x'' RerunPartial (empty_db 5 [OK, OK, OK, OK, OK, FailAfter]))
   in documents (tbl s) ''d'' \<noteq> None \<and> db_inv s"
proof -
  let ?s = "empty_db 5 [OK, OK, OK, OK, OK, FailAfter]"
  have ok: "text_ok ''d''" "text_ok ''x''" by code_simp+
  have "documents (tbl (snd (Submit ''d'' ''x'' RerunPartial ?s))) ''d'' \<noteq> None"
    by (simp add: tx_eval Submit_def Submit_body_def Submit_decide_def GetDocumentForUpdate_def
        getDocumentTx_def InsertDocument_def EnqueueExtract_def EnqueueOutbox_def empty_db_def ok
        new_document_def)
  moreover have "db_inv ?s" by (rule empty_db_inv)
  ultimately show ?thesis using db_inv_kept [of ?s "''d''" "''x''" RerunPartial] by (simp add: Let_def)
qed

end
