(* ===== verification/Worker_Properties.thy ===== *)
theory Worker_Properties
  imports Db_Invariant
begin

text \<open>
  What one unit of work promises to its callers: the outcome of a submission on every branch,
  the fan-out of an extraction and its convergence under repetition, fencing of superseded
  runs, and exactly-once counting of classifications.
\<close>

lemma ran_E:
  assumes "ran fn s x s'"
  obtains s0 s1 where "tbl s0 = tbl s" "now s0 = now s" "outbox_id_seq s0 = outbox_id_seq s"
    "tokens_id_seq s0 = tokens_id_seq s" "broker_log s0 = broker_log s" "fn s0 = (Inr x, s1)" "tbl s' = tbl s1"
  using assms unfolding ran_def same_frame_def by metis

section \<open>Submission\<close>

text \<open>
  C8. The outcome of a successful submission, branch by branch: a new document is inserted as
  \<^verbatim>\<open>PENDING\<close> at run 1; a full rerun discards the tokens and starts the next run with the new
  text; a completed document is left alone and not accepted; a failed one goes back to
  \<^verbatim>\<open>PENDING\<close>; any other is resumed in place. Exactly the accepted submissions put one extract
  job, for the resulting run, into the outbox, in the same transaction.
\<close>

theorem Submit_outcome:
  assumes "Submit i x mode s = (Inr res, s')"
  shows "let job = (\<lambda>d. outbox_row (outbox_id_seq s) StreamExtract (doc_ID d)
               (marshal_ExtractJob \<lparr>ej_DocumentID = doc_ID d, ej_RunVersion = doc_RunVersion d\<rparr>));
             submitted = (\<lambda>d full. res = \<lparr>sub_Document = d, Accepted = True, FullRerun = full\<rparr> \<and>
               outbox (tbl s') = outbox (tbl s) @ [job d])
         in case documents (tbl s) i of
              None \<Rightarrow>
                let d = new_document i x (now s)
                in submitted d False \<and> documents (tbl s') = (documents (tbl s))(i \<mapsto> d) \<and>
                   tokens (tbl s') = tokens (tbl s)
            | Some d0 \<Rightarrow>
                if mode = RerunFull then
                  let d = reset_row x (now s) d0
                  in submitted d True \<and> documents (tbl s') = (documents (tbl s))(i \<mapsto> d) \<and>
                     tokens (tbl s') = filter (\<lambda>t. tok_DocumentID t \<noteq> i) (tokens (tbl s))
                else if doc_Status d0 = DocCompleted then
                  res = \<lparr>sub_Document = d0, Accepted = False, FullRerun = False\<rparr> \<and> tbl s' = tbl s
                else if doc_Status d0 = DocFailed then
                  submitted (d0\<lparr>doc_Status := DocPending\<rparr>) False \<and>
                  documents (tbl s') = (documents (tbl s))(i \<mapsto> d0\<lparr>doc_Status := DocPending, doc_UpdatedAt := now s\<rparr>) \<and>
                  tokens (tbl s') = tokens (tbl s)
                else submitted d0 False \<and> documents (tbl s') = documents (tbl s) \<and> tokens (tbl s') = tokens (tbl s)"
proof -
  from assms have w: "WithinTx (Submit_body i x mode) s = (Inr res, s')" by (simp add: Submit_def tx_succ)
  from uow.success [OF w] obtain s0 s1 where s0: "tbl s0 = tbl s" "now s0 = now s" "outbox_id_seq s0 = outbox_id_seq s"
    and body: "Submit_body i x mode s0 = (Inr res, s1)" and s1: "tbl s' = tbl s1" by (rule ran_E)
  from Submit_body_succ [OF body] obtain t where d: "Submit_decide i x mode s0 = (Inr res, t)"
    and enq: "enqueued (if Accepted res then [extract_msg (sub_Document res)] else []) t s1" by blast
  from d show ?thesis
    by (cases rule: Submit_decide_cases)
      (use enq s0 s1 in \<open>auto simp: enqueued_def extract_msg_def same_frame_def Let_def outbox_row_def\<close>)
qed

definition sample_submit :: pg where
  "sample_submit = snd (Submit ''d'' ''x'' RerunPartial (empty_db 5 []))"

lemmas submit_eval = tx_eval Submit_def Submit_body_def Submit_decide_def GetDocumentForUpdate_def
  getDocumentTx_def InsertDocument_def EnqueueExtract_def EnqueueOutbox_def empty_db_def

lemma text_ok_samples: "text_ok ''d''" "text_ok ''x''"
  by code_simp+

lemma Submit_outcome_witness:
  "documents (tbl sample_submit) = [''d'' \<mapsto> new_document ''d'' ''x'' 5] \<and> length (outbox (tbl sample_submit)) = 1"
proof -
  have "\<exists>res s'. Submit ''d'' ''x'' RerunPartial (empty_db 5 []) = (Inr res, s')"
    by (simp add: submit_eval text_ok_samples new_document_def)
  then obtain res where "Submit ''d'' ''x'' RerunPartial (empty_db 5 []) = (Inr res, sample_submit)"
    by (auto simp: sample_submit_def)
  from Submit_outcome [OF this] show ?thesis by (simp add: empty_db_def Let_def)
qed

text \<open>
  With no fault to come, a submission of valid text always returns a result: it never fails on
  its own account, unless a key or a run number has run out of range.
\<close>

lemma Submit_returns:
  assumes "db_inv s" and "faults s = []" and "text_ok i" and "text_ok x" and "int8_ok (outbox_id_seq s)"
    and "\<forall>d. documents (tbl s) i = Some d \<longrightarrow> int4_ok (doc_RunVersion d + 1)"
  shows "\<exists>res s'. Submit i x mode s = (Inr res, s')"
proof (cases "documents (tbl s) i")
  case None
  with assms show ?thesis
    by (simp add: tx_eval Submit_def Submit_body_def Submit_decide_def GetDocumentForUpdate_def getDocumentTx_def
        InsertDocument_def EnqueueExtract_def EnqueueOutbox_def new_document_def)
next
  case (Some d)
  with assms(1) have "doc_ID d = i" using db_inv_doc by (fastforce simp: doc_ok_def)
  with Some assms show ?thesis
    by (simp add: tx_eval Submit_def Submit_body_def Submit_decide_def GetDocumentForUpdate_def getDocumentTx_def
        ResetDocument_def SetDocumentPending_def EnqueueExtract_def EnqueueOutbox_def reset_row_def)
qed

section \<open>Extraction\<close>

lemma persist_ran:
  assumes "persist doc es s = (Inr n, s')" and inv: "db_inv s"
  obtains s0 s1 where "db_inv s0" "tbl s0 = tbl s" "now s0 = now s" "outbox_id_seq s0 = outbox_id_seq s"
    "persist_body doc es s0 = (Inr n, s1)" "tbl s' = tbl s1"
proof -
  from uow.success [OF assms(1) [unfolded persist_def]] obtain s0 s1 where
    "tbl s0 = tbl s" "same_frame s s0" "persist_body doc es s0 = (Inr n, s1)" "tbl s' = tbl s1"
    unfolding ran_def by blast
  moreover from this have "db_inv s0" using inv db_inv_frame same_frame_grow by metis
  ultimately show thesis by (intro that) (simp_all add: same_frame_def)
qed

lemma persist_effect:
  assumes "persist doc es s = (Inr n, s')" and "db_inv s"
  obtains cur t new where
    "documents (tbl s') (doc_ID doc) = Some (persisted_row n t cur)" "doc_RunVersion cur = doc_RunVersion doc"
    "tokens (tbl s') = tokens (tbl s) @ new"
    "\<forall>t \<in> set new. tok_DocumentID t = doc_ID doc \<and> tok_Status t = TokenPending"
    "natural_key ` set new = entity_key (doc_ID doc) (doc_RunVersion doc) ` set es - natural_key ` set (tokens (tbl s))"
    "n = int (length (tokens_of (doc_ID doc) (tokens (tbl s'))))"
    "outbox (tbl s') = outbox (tbl s) @ number_rows (outbox_id_seq s)
       (map (classify_msg (doc_ID doc) (doc_RunVersion doc))
         (filter unclassified (sort_key tok_ID (tokens_of (doc_ID doc) (tokens (tbl s'))))))"
proof -
  let ?i = "doc_ID doc" and ?v = "doc_RunVersion doc"
  from assms obtain s0 s3 where inv: "db_inv s0" and s0: "tbl s0 = tbl s" "now s0 = now s" "outbox_id_seq s0 = outbox_id_seq s"
    and body: "persist_body doc es s0 = (Inr n, s3)" and s3: "tbl s' = tbl s3" by (rule persist_ran)
  from persist_body_succ [OF body] obtain cur new s1 s2 where
    cur: "documents (tbl s0) ?i = Some cur" "doc_RunVersion cur = ?v"
    and up: "upserted ?i ?v es s0 new s1"
    and n: "n = int (length (run_tokens ?i ?v (tokens (tbl s1))))"
    and row: "doc_updated ?i (persisted_row n (now s0)) s1 s2"
    and enq: "enqueued (map (classify_msg ?i ?v) (filter unclassified (sort_key tok_ID (run_tokens ?i ?v (tokens (tbl s1)))))) s2 s3"
    by blast
  have toks: "tokens (tbl s') = tokens (tbl s) @ new" "tokens (tbl s1) = tokens (tbl s) @ new"
    and docs: "documents (tbl s') ?i = Some (persisted_row n (now s0) cur)"
    using up row enq cur s0 s3 by (auto simp: upserted_def doc_updated_def enqueued_def)
  have new: "\<forall>t \<in> set new. tok_DocumentID t = ?i \<and> tok_RunVersion t = ?v \<and> tok_Status t = TokenPending"
    and keys: "natural_key ` set new = entity_key ?i ?v ` set es - natural_key ` set (tokens (tbl s))"
    using up s0 by (auto simp: upserted_def)
  have run: "run_tokens ?i ?v (tokens (tbl s1)) = tokens_of ?i (tokens (tbl s'))"
    using run_tokens_current [OF inv cur(1)] cur(2) new s0(1) by (simp add: toks run_tokens_def tokens_of_def)
  have out: "outbox (tbl s') = outbox (tbl s) @ number_rows (outbox_id_seq s)
       (map (classify_msg ?i ?v) (filter unclassified (sort_key tok_ID (tokens_of ?i (tokens (tbl s'))))))"
    using up row enq s0 s3 run by (auto simp: upserted_def doc_updated_def enqueued_def same_frame_def)
  show thesis by (rule that [OF docs cur(2) toks(1) _ keys _ out]) (use new n run in auto)
qed

lemma tokens_of_keys:
  "natural_key ` set (tokens_of i ts) = {k \<in> natural_key ` set ts. fst k = i}"
  by (auto simp: tokens_of_def natural_key_def image_iff)

text \<open>
  C9. A successful extraction makes the manifest and the fan-out agree. It returns the number of
  the document's tokens, which is the new \<^verbatim>\<open>total_tokens\<close>; the document is \<^verbatim>\<open>CLASSIFYING\<close>, or
  \<^verbatim>\<open>COMPLETED\<close> if there are none; its token rows are the old ones plus one new pending row for
  every extracted entity that has none yet; and the outbox gains exactly one classify job per
  token that is not classified, in the order of the tokens' ids, carrying document and run.
\<close>

theorem persist_fan_out:
  assumes "persist doc es s = (Inr n, s')" and "db_inv s"
  shows "\<exists>d new. documents (tbl s') (doc_ID doc) = Some d \<and> doc_RunVersion d = doc_RunVersion doc \<and>
     tokens (tbl s') = tokens (tbl s) @ new \<and>
     (\<forall>t \<in> set new. tok_DocumentID t = doc_ID doc \<and> tok_Status t = TokenPending) \<and>
     natural_key ` set (tokens_of (doc_ID doc) (tokens (tbl s'))) =
       natural_key ` set (tokens_of (doc_ID doc) (tokens (tbl s))) \<union> entity_key (doc_ID doc) (doc_RunVersion doc) ` set es \<and>
     n = int (length (tokens_of (doc_ID doc) (tokens (tbl s')))) \<and> doc_TotalTokens d = n \<and>
     doc_Status d = (if n = 0 then DocCompleted else DocClassifying) \<and>
     outbox (tbl s') = outbox (tbl s) @ number_rows (outbox_id_seq s)
       (map (classify_msg (doc_ID doc) (doc_RunVersion doc))
         (filter unclassified (sort_key tok_ID (tokens_of (doc_ID doc) (tokens (tbl s'))))))"
proof -
  from assms obtain cur t new where e:
    "documents (tbl s') (doc_ID doc) = Some (persisted_row n t cur)" "doc_RunVersion cur = doc_RunVersion doc"
    "tokens (tbl s') = tokens (tbl s) @ new"
    "\<forall>t \<in> set new. tok_DocumentID t = doc_ID doc \<and> tok_Status t = TokenPending"
    "natural_key ` set new = entity_key (doc_ID doc) (doc_RunVersion doc) ` set es - natural_key ` set (tokens (tbl s))"
    "n = int (length (tokens_of (doc_ID doc) (tokens (tbl s'))))"
    "outbox (tbl s') = outbox (tbl s) @ number_rows (outbox_id_seq s)
       (map (classify_msg (doc_ID doc) (doc_RunVersion doc))
         (filter unclassified (sort_key tok_ID (tokens_of (doc_ID doc) (tokens (tbl s'))))))"
    by (rule persist_effect)
  have "natural_key ` set (tokens_of (doc_ID doc) (tokens (tbl s'))) =
      natural_key ` set (tokens_of (doc_ID doc) (tokens (tbl s))) \<union> entity_key (doc_ID doc) (doc_RunVersion doc) ` set es"
    unfolding tokens_of_keys e(3) set_append image_Un e(5) by (auto simp: entity_key_def)
  moreover have "doc_Status (persisted_row n t cur) = (if n = 0 then DocCompleted else DocClassifying)"
    "doc_TotalTokens (persisted_row n t cur) = n" "doc_RunVersion (persisted_row n t cur) = doc_RunVersion doc"
    using e(2) by (simp_all add: persisted_row_def)
  ultimately show ?thesis using e by blast
qed

definition sample_entity :: "string \<Rightarrow> int \<Rightarrow> Entity" where
  "sample_entity x k = \<lparr>ent_Text = x, ent_Context = x, ent_Position = \<lparr>Page = 1, Sentence = 0, CharOffset = k\<rparr>\<rparr>"

definition sample_persist :: "pg \<Rightarrow> (go_error + int) \<times> pg" where
  "sample_persist s = persist (new_document ''d'' ''x'' 5) [sample_entity ''x'' 0, sample_entity ''d'' 2] s"

lemma sample_submit_eq:
  "sample_submit = \<lparr>tbl = \<lparr>documents = [''d'' \<mapsto> new_document ''d'' ''x'' 5], tokens = [],
       outbox = [outbox_row 1 StreamExtract ''d'' (marshal_ExtractJob \<lparr>ej_DocumentID = ''d'', ej_RunVersion = 1\<rparr>)]\<rparr>,
     tokens_id_seq = 1, outbox_id_seq = 2, now = 5, faults = [], broker_log = []\<rparr>"
  by (simp add: sample_submit_def submit_eval text_ok_samples new_document_def outbox_row_def)

lemma sample_submit_inv: "db_inv sample_submit"
  unfolding sample_submit_def Submit_def snd_tx_wrap
  by (rule WithinTx_inv [OF keeps_Submit(2) Submit_body_inv empty_db_inv])

lemma text_ok_numbers: "text_ok (FormatInt 1)" "text_ok (FormatInt 2)"
  by code_simp+

lemmas persist_eval = tx_eval persist_def persist_body_def GetDocumentForUpdate_def getDocumentTx_def
  insert_token_def CountTokens_def AdvanceToClassifying_def ListTokensForRun_def run_tokens_def new_token_def
  EnqueueClassify_def EnqueueOutbox_def TokenPending_def TokenClassified_def natural_key_def

lemma sample_persist_once: "\<exists>s'. sample_persist sample_submit = (Inr 2, s') \<and> faults s' = []"
  by (simp add: sample_persist_def sample_submit_eq persist_eval sample_entity_def text_ok_samples text_ok_numbers
      new_document_def)

lemma persist_fan_out_witness:
  "\<exists>s'. sample_persist sample_submit = (Inr 2, s') \<and> length (tokens_of ''d'' (tokens (tbl s'))) = 2 \<and>
     length (outbox (tbl s')) = length (outbox (tbl sample_submit)) +
       length (filter unclassified (sort_key tok_ID (tokens_of ''d'' (tokens (tbl s')))))"
proof -
  obtain s' where s': "sample_persist sample_submit = (Inr 2, s')" using sample_persist_once by blast
  from persist_fan_out [OF s' [unfolded sample_persist_def] sample_submit_inv] s' show ?thesis
    by (intro exI [of _ s']) (auto simp: new_document_def)
qed

text \<open>
  C13. Extraction converges: persisting the same entities again, for instance after a redelivery,
  adds no token and changes none, and returns the same count.
\<close>

theorem persist_idempotent:
  assumes "db_inv s" and "persist doc es s = (Inr n, s1)" and "persist doc es s1 = (Inr m, s2)"
  shows "tokens (tbl s2) = tokens (tbl s1) \<and> m = n"
proof -
  have inv1: "db_inv s1"
    using WithinTx_inv [OF keeps_extraction(2) persist_body_inv assms(1), of doc es] assms(2) by (simp add: persist_def)
  from assms(2,1) obtain new where n: "n = int (length (tokens_of (doc_ID doc) (tokens (tbl s1))))"
    and k: "tokens (tbl s1) = tokens (tbl s) @ new"
      "natural_key ` set new = entity_key (doc_ID doc) (doc_RunVersion doc) ` set es - natural_key ` set (tokens (tbl s))"
    by (rule persist_effect)
  from assms(3) inv1 obtain new' where m: "m = int (length (tokens_of (doc_ID doc) (tokens (tbl s2))))"
    and k': "tokens (tbl s2) = tokens (tbl s1) @ new'"
      "natural_key ` set new' = entity_key (doc_ID doc) (doc_RunVersion doc) ` set es - natural_key ` set (tokens (tbl s1))"
    by (rule persist_effect)
  have "natural_key ` set new' = {}" unfolding k'(2) k(1) set_append image_Un k(2) by blast
  then have "new' = []" by simp
  with n m k' show ?thesis by simp
qed

lemma persist_idempotent_witness:
  "\<exists>s1 s2. sample_persist sample_submit = (Inr 2, s1) \<and> sample_persist s1 = (Inr 2, s2) \<and>
     tokens (tbl s2) = tokens (tbl s1)"
proof -
  have "\<exists>s1 s2 m. sample_persist sample_submit = (Inr 2, s1) \<and> sample_persist s1 = (Inr m, s2)"
    by (simp add: sample_persist_def sample_submit_eq persist_eval sample_entity_def text_ok_samples text_ok_numbers
        new_document_def)
  then obtain s1 s2 m where s: "sample_persist sample_submit = (Inr 2, s1)" "sample_persist s1 = (Inr m, s2)" by blast
  from persist_idempotent [OF sample_submit_inv s [unfolded sample_persist_def]] s show ?thesis by auto
qed

text \<open>
  The fences of the two transactions, whoever calls them: if the document's run is not the one
  the extraction worker claimed, or the token's run is not the one the classify job names, then
  whatever else happens the tables stay as they are and no success is reported; with no fault
  to come the error is \<^verbatim>\<open>ErrStaleWrite\<close>.
\<close>

lemma other_run_fenced:
  assumes "db_inv s"
  shows "(documents (tbl s) (doc_ID doc) = Some d \<and> doc_RunVersion d \<noteq> doc_RunVersion doc \<longrightarrow>
            tbl (snd (persist doc es s)) = tbl s \<and> isl (fst (persist doc es s)) \<and>
            (faults s = [] \<longrightarrow> fst (persist doc es s) = Inl ErrStaleWrite)) \<and>
         (t \<in> set (tokens (tbl s)) \<and> tok_RunVersion t \<noteq> v \<longrightarrow>
            tbl (snd (apply_result (tok_ID t) v c s)) = tbl s \<and> isl (fst (apply_result (tok_ID t) v c s)) \<and>
            (faults s = [] \<longrightarrow> fst (apply_result (tok_ID t) v c s) = Inl ErrStaleWrite))"
proof (intro conjI impI; elim conjE)
  have no_success: "tbl (snd (WithinTx fn s)) = tbl s \<and> isl (fst (WithinTx fn s))"
    if "\<And>x s0 s1. tbl s0 = tbl s \<Longrightarrow> fn s0 \<noteq> (Inr x, s1)" for fn :: "'z tx"
  proof -
    obtain r s' where w: "WithinTx fn s = (r, s')" by fastforce
    then show ?thesis by (cases rule: uow.outcome) (use that w in \<open>auto elim: ran_E\<close>)
  qed
  {
    assume d: "documents (tbl s) (doc_ID doc) = Some d" "doc_RunVersion d \<noteq> doc_RunVersion doc"
    have "persist_body doc es s0 \<noteq> (Inr x, s1)" if "tbl s0 = tbl s" for x s0 s1
      using that d persist_body_succ [of doc es s0 x s1] by auto
    from no_success [OF this] show "tbl (snd (persist doc es s)) = tbl s" "isl (fst (persist doc es s))"
      by (simp_all add: persist_def)
    assume "faults s = []"
    moreover have "text_ok (doc_ID doc)" using db_inv_doc [OF assms d(1)] by (simp add: doc_ok_def)
    ultimately show "fst (persist doc es s) = Inl ErrStaleWrite"
      using d by (simp add: persist_def persist_body_def tx_eval GetDocumentForUpdate_def getDocumentTx_def)
  }
  {
    assume t: "t \<in> set (tokens (tbl s))" "tok_RunVersion t \<noteq> v"
    have f: "filter (\<lambda>u. tok_ID u = tok_ID t) (tokens (tbl s)) = [t]"
      using assms t(1) by (intro filter_singleton_if_distinct) (simp_all add: db_inv_defs)
    have "apply_body (tok_ID t) v c s0 \<noteq> (Inr x, s1)" if "tbl s0 = tbl s" for x s0 s1
      using that t f by (auto elim!: apply_body_cases)
    from no_success [OF this] show "tbl (snd (apply_result (tok_ID t) v c s)) = tbl s"
      "isl (fst (apply_result (tok_ID t) v c s))" by (simp_all add: apply_result_def)
    assume "faults s = []"
    with f t show "fst (apply_result (tok_ID t) v c s) = Inl ErrStaleWrite"
      by (simp add: apply_result_def apply_body_def tx_eval GetTokenForUpdate_def)
  }
qed

definition sample_class :: Classification where
  "sample_class = \<lparr>cls_Category = CategoryUnknown, cls_Confidence = 1 / 2, cls_Reasoning = ''x''\<rparr>"

definition sample_persisted :: pg where
  "sample_persisted = snd (sample_persist sample_submit)"

lemma sample_persisted_inv: "db_inv sample_persisted"
  unfolding sample_persisted_def sample_persist_def persist_def
  by (rule WithinTx_inv [OF keeps_extraction(2) persist_body_inv sample_submit_inv])

lemma sample_persisted_eq:
  "tokens (tbl sample_persisted) = [new_token 1 ''d'' 1 5 (sample_entity ''x'' 0), new_token 2 ''d'' 1 5 (sample_entity ''d'' 2)]"
  "faults sample_persisted = []"
  "documents (tbl sample_persisted) = [''d'' \<mapsto> persisted_row 2 5 (new_document ''d'' ''x'' 5)]"
  by (simp_all add: sample_persisted_def sample_persist_def sample_submit_eq persist_eval sample_entity_def
      text_ok_samples text_ok_numbers new_document_def persisted_row_def)

section \<open>Classification\<close>

lemma length_filter_ge_iff: "length xs \<le> length (filter P xs) \<longleftrightarrow> (\<forall>x \<in> set xs. P x)"
  unfolding length_filter_all_iff [symmetric] using length_filter_le [of P xs] by linarith

lemma apply_ran:
  assumes "apply_result k v c s = (Inr u, s')" and inv: "db_inv s"
  obtains s0 s1 where "db_inv s0" "tbl s0 = tbl s" "now s0 = now s" "apply_body k v c s0 = (Inr u, s1)" "tbl s' = tbl s1"
proof -
  from uow.success [OF assms(1) [unfolded apply_result_def]] obtain s0 s1 where
    "tbl s0 = tbl s" "same_frame s s0" "apply_body k v c s0 = (Inr u, s1)" "tbl s' = tbl s1"
    unfolding ran_def by blast
  moreover from this have "db_inv s0" using inv db_inv_frame same_frame_grow by metis
  ultimately show thesis by (intro that) (simp_all add: same_frame_def)
qed

lemma token_of_id:
  assumes "db_inv s" and "t \<in> set (tokens (tbl s))"
  shows "filter (\<lambda>u. tok_ID u = tok_ID t) (tokens (tbl s)) = [t]"
  using assms by (intro filter_singleton_if_distinct) (simp_all add: db_inv_defs)

lemma apply_effect:
  assumes "db_inv s" and "t \<in> set (tokens (tbl s))" and "tok_Status t \<noteq> TokenClassified"
    and "apply_result (tok_ID t) v c s = (Inr (), s')"
  shows "\<exists>d d'. documents (tbl s) (tok_DocumentID t) = Some d \<and> doc_RunVersion d = v \<and>
     documents (tbl s') = (documents (tbl s))(tok_DocumentID t \<mapsto> d') \<and>
     tokens (tbl s') = map (\<lambda>u. if u = t then classify_row c (now s) t else u) (tokens (tbl s)) \<and>
     doc_ClassifiedCount d' = doc_ClassifiedCount d + 1 \<and> doc_TotalTokens d' = doc_TotalTokens d \<and>
     doc_Status d' = (if \<forall>u \<in> set (tokens_of (tok_DocumentID t) (tokens (tbl s'))). tok_Status u = TokenClassified
                      then DocCompleted else doc_Status d) \<and>
     outbox (tbl s') = outbox (tbl s)"
proof -
  from assms(4,1) obtain s0 s1 where inv: "db_inv s0" and s0: "tbl s0 = tbl s" "now s0 = now s"
    and body: "apply_body (tok_ID t) v c s0 = (Inr (), s1)" and s1: "tbl s' = tbl s1" by (rule apply_ran)
  note f = token_of_id [OF assms(1,2)]
  have same: "(tok_ID u = tok_ID t) = (u = t)" if "u \<in> set (tokens (tbl s))" for u
  proof
    assume "tok_ID u = tok_ID t"
    with that have "u \<in> set (filter (\<lambda>u. tok_ID u = tok_ID t) (tokens (tbl s)))" by simp
    then show "u = t" unfolding f by simp
  qed simp
  from body show ?thesis
  proof (cases rule: apply_body_cases)
    case (already tok)
    with f s0 assms(3) show ?thesis by simp
  next
    case (classified tok d)
    with f s0 have tok: "tok = t" by simp
    let ?d' = "classified_row (now s) d"
    have "tokens (tbl s') = map (\<lambda>u. if tok_ID u = tok_ID t then classify_row c (now s) u else u) (tokens (tbl s))"
      using classified s0 s1 by simp
    also have "\<dots> = map (\<lambda>u. if u = t then classify_row c (now s) t else u) (tokens (tbl s))"
      by (rule map_cong [OF refl]) (use same in auto)
    finally have toks: "tokens (tbl s') = map (\<lambda>u. if u = t then classify_row c (now s) t else u) (tokens (tbl s))" .
    have docs: "documents (tbl s') = (documents (tbl s))(tok_DocumentID t \<mapsto> ?d')"
      using classified s0 s1 tok by simp
    have "db_inv s'"
      using WithinTx_inv [OF keeps_apply apply_body_inv assms(1), of "tok_ID t" v c] assms(4) by (simp add: apply_result_def)
    then have ok: "doc_ok (tokens (tbl s')) (tok_DocumentID t) ?d'" using db_inv_doc docs by simp
    have "(doc_TotalTokens d \<le> doc_ClassifiedCount d + 1) =
        (length (tokens_of (tok_DocumentID t) (tokens (tbl s'))) \<le> length (filter Db_Invariant.classified (tokens_of (tok_DocumentID t) (tokens (tbl s')))))"
      using ok by (auto simp: doc_ok_def classified_row_def split: if_splits)
    also have "\<dots> = (\<forall>u \<in> set (tokens_of (tok_DocumentID t) (tokens (tbl s'))). Db_Invariant.classified u)"
      by (rule length_filter_ge_iff)
    finally have "doc_Status ?d' = (if \<forall>u \<in> set (tokens_of (tok_DocumentID t) (tokens (tbl s'))). tok_Status u = TokenClassified
                      then DocCompleted else doc_Status d)"
      by (simp add: classified_row_def Db_Invariant.classified_def)
    moreover have "doc_ClassifiedCount ?d' = doc_ClassifiedCount d + 1" "doc_TotalTokens ?d' = doc_TotalTokens d"
      by (simp_all add: classified_row_def)
    moreover have "outbox (tbl s') = outbox (tbl s)" using classified s0 s1 by simp
    ultimately show ?thesis using classified s0 tok toks docs
      by (intro exI [of _ d] exI [of _ ?d']) auto
  qed
qed

text \<open>
  C10. Applying a classification to a pending token records it and counts it once: the token row
  carries the category, the reasoning and the confidence at the column's precision, all other
  rows are untouched, \<^verbatim>\<open>classified_count\<close> goes up by exactly one, and the document becomes
  \<^verbatim>\<open>COMPLETED\<close> at exactly the moment when all of its tokens are classified.
\<close>

theorem apply_counts_once:
  assumes "db_inv s" and "t \<in> set (tokens (tbl s))" and "tok_Status t \<noteq> TokenClassified"
    and "apply_result (tok_ID t) v c s = (Inr (), s')"
  shows "\<exists>d d'. documents (tbl s) (tok_DocumentID t) = Some d \<and> doc_RunVersion d = v \<and>
     documents (tbl s') = (documents (tbl s))(tok_DocumentID t \<mapsto> d') \<and>
     tokens (tbl s') = map (\<lambda>u. if u = t then classify_row c (now s) t else u) (tokens (tbl s)) \<and>
     doc_ClassifiedCount d' = doc_ClassifiedCount d + 1 \<and> doc_TotalTokens d' = doc_TotalTokens d \<and>
     doc_Status d' = (if \<forall>u \<in> set (tokens_of (tok_DocumentID t) (tokens (tbl s'))). tok_Status u = TokenClassified
                      then DocCompleted else doc_Status d) \<and>
     outbox (tbl s') = outbox (tbl s)"
  using assms by (rule apply_effect)

lemma text_ok_unknown: "text_ok CategoryUnknown"
  by code_simp

lemmas apply_eval = tx_eval apply_result_def apply_body_def GetTokenForUpdate_def GetDocumentForUpdate_def
  getDocumentTx_def SetTokenClassified_def IncrementClassifiedCount_def MarkDocumentCompleted_def

lemma sample_apply:
  "\<exists>s'. apply_result 2 1 sample_class sample_persisted = (Inr (), s') \<and> faults s' = []"
  by (simp add: apply_eval sample_class_def sample_persisted_eq new_token_def text_ok_samples text_ok_unknown
      persisted_row_def new_document_def)

lemma apply_counts_once_witness:
  "\<exists>s' d. apply_result 2 1 sample_class sample_persisted = (Inr (), s') \<and> documents (tbl s') ''d'' = Some d \<and>
     doc_ClassifiedCount d = 1 \<and> doc_TotalTokens d = 2"
proof -
  let ?t = "new_token 2 ''d'' 1 5 (sample_entity ''d'' 2)"
  obtain s' where s': "apply_result (tok_ID ?t) 1 sample_class sample_persisted = (Inr (), s')"
    using sample_apply by (auto simp: new_token_def)
  have t: "?t \<in> set (tokens (tbl sample_persisted))" "tok_Status ?t \<noteq> TokenClassified"
    by (simp_all add: sample_persisted_eq, simp add: new_token_def)
  from apply_counts_once [OF sample_persisted_inv t s'] s' show ?thesis
    by (intro exI [of _ s'])
      (auto simp: sample_persisted_eq(3) persisted_row_def new_document_def new_token_def)
qed

text \<open>
  C11. Classification is idempotent: once an attempt has succeeded, every further attempt at the same
  token, by a redelivery or a concurrent worker, with the same or another result, leaves all
  tables as they are, whatever it reports. Nothing is counted twice.
\<close>

theorem apply_idempotent:
  assumes "db_inv s" and "apply_result k v c s = (Inr (), s1)" and "apply_result k w c' s1 = (r, s2)"
  shows "tbl s2 = tbl s1"
proof -
  have inv1: "db_inv s1"
    using WithinTx_inv [OF keeps_apply apply_body_inv assms(1), of k v c] assms(2) by (simp add: apply_result_def)
  from assms(2,1) obtain s0 s3 where inv: "db_inv s0" and s0: "tbl s0 = tbl s"
    and body: "apply_body k v c s0 = (Inr (), s3)" and s3: "tbl s1 = tbl s3" by (rule apply_ran)
  have cl: "tok_Status t = TokenClassified" if "t \<in> set (tokens (tbl s1))" "tok_ID t = k" for t
    using body
  proof (cases rule: apply_body_cases)
    case (already tok)
    have "t \<in> set (filter (\<lambda>t. tok_ID t = k) (tokens (tbl s0)))" using that s3 already(4) by simp
    then show ?thesis unfolding already(1) using already(3) by simp
  next
    case (classified tok d)
    with that(1) s3 have "t \<in> (\<lambda>t. if tok_ID t = k then classify_row c (now s0) t else t) ` set (tokens (tbl s0))" by simp
    then obtain u where "t = (if tok_ID u = k then classify_row c (now s0) u else u)" by blast
    with that(2) show ?thesis by (simp split: if_splits)
  qed
  from assms(3) [unfolded apply_result_def] show ?thesis
  proof (cases rule: uow.outcome)
    case (effect x)
    from effect(1) obtain a b where ab: "tbl a = tbl s1" "apply_body k w c' a = (Inr x, b)" "tbl s2 = tbl b"
      by (rule ran_E)
    from ab(2) show ?thesis
    proof (cases rule: apply_body_cases)
      case (already tok)
      with ab show ?thesis by simp
    next
      case (classified tok d)
      with cl [of tok] ab filter_eq_singletonD [OF classified(1)] show ?thesis by simp
    qed
  qed
qed

lemma apply_idempotent_witness:
  "\<exists>s1 s2. apply_result 2 1 sample_class sample_persisted = (Inr (), s1) \<and>
     apply_result 2 1 (sample_class\<lparr>cls_Category := CategoryDate\<rparr>) s1 = (Inr (), s2) \<and> tbl s2 = tbl s1"
proof -
  have "\<exists>s1 s2. apply_result 2 1 sample_class sample_persisted = (Inr (), s1) \<and>
     apply_result 2 1 (sample_class\<lparr>cls_Category := CategoryDate\<rparr>) s1 = (Inr (), s2)"
    by (simp add: apply_eval sample_class_def sample_persisted_eq new_token_def text_ok_samples text_ok_unknown
        persisted_row_def new_document_def classify_row_def)
  then show ?thesis using apply_idempotent [OF sample_persisted_inv] by blast
qed

section \<open>Token queries\<close>

lemma paginate_page: "0 < l \<Longrightarrow> paginate l (int k * l) xs = take (nat l) (drop (k * nat l) xs)"
proof -
  assume l: "0 < l"
  then have "nat (int k * l) = k * nat l" by (simp add: nat_mult_distrib)
  with l show ?thesis by (cases "k = 0") (simp_all add: paginate_def zero_less_mult_iff)
qed

lemma pages_concat: "concat (map (\<lambda>k. take m (drop (k * m) xs)) [0..<n]) = take (n * m) xs"
proof (induction n)
  case (Suc n)
  then show ?case using take_add [of "n * m" m xs] by (simp add: add.commute)
qed simp

text \<open>
  C18. A token query returns rows of the document's current run only, in the order of their ids, and
  those the filter asks for: without limit and offset it is all of them, and the pages of a
  positive size, read one after the other, give the listing with nothing lost or repeated.
\<close>

theorem ListTokens_pages:
  assumes "faults s = []" and "text_ok i" and "pred_option int4_ok (flt_Page f)"
    and "pred_option text_ok (flt_Classification f)" and "pred_option text_ok (flt_Status f)"
    and "documents (tbl s) i = Some d" and "0 < l"
  shows "\<exists>ts. fst (ListTokens i (f\<lparr>flt_Limit := 0, flt_Offset := 0\<rparr>) s) = Inr ts \<and>
     sorted (map tok_ID ts) \<and>
     set ts = {t \<in> set (tokens (tbl s)). tok_DocumentID t = i \<and> tok_RunVersion t = doc_RunVersion d \<and>
                 (\<forall>c. flt_Classification f = Some c \<longrightarrow> tok_Classification t = Some c) \<and>
                 (\<forall>st. flt_Status f = Some st \<longrightarrow> tok_Status t = st) \<and>
                 (\<forall>p. flt_Page f = Some p \<longrightarrow> Page (tok_Position t) = p)} \<and>
     (\<exists>pages. (\<forall>k < length pages. fst (ListTokens i (f\<lparr>flt_Limit := l, flt_Offset := int k * l\<rparr>) s) = Inr (pages ! k)) \<and>
        concat pages = ts)"
proof -
  define ts where "ts = sort_key tok_ID (matching_tokens i f (tbl s))"
  have m: "matching_tokens i (f\<lparr>flt_Limit := a, flt_Offset := b\<rparr>) (tbl s) = matching_tokens i f (tbl s)" for a b
    by (simp add: matching_tokens_def split: option.split)
  have page: "fst (ListTokens i (f\<lparr>flt_Limit := a, flt_Offset := b\<rparr>) s) = Inr (paginate a b ts)" for a b
    using assms m by (simp add: ListTokens_def stmt_def ts_def)
  define pages where "pages = map (\<lambda>k. take (nat l) (drop (k * nat l) ts)) [0..<length ts]"
  have "concat pages = take (length ts * nat l) ts" unfolding pages_def by (rule pages_concat)
  also have "\<dots> = ts" using assms(7) by (intro take_all) (cases "nat l"; simp)
  finally have "concat pages = ts" .
  moreover have "fst (ListTokens i (f\<lparr>flt_Limit := l, flt_Offset := int k * l\<rparr>) s) = Inr (pages ! k)" if "k < length pages" for k
    using that page [where a = l and b = "int k * l"] paginate_page [OF assms(7), of k ts] by (simp add: pages_def)
  moreover have "sorted (map tok_ID ts)" by (simp add: ts_def)
  moreover have "fst (ListTokens i (f\<lparr>flt_Limit := 0, flt_Offset := 0\<rparr>) s) = Inr ts" using page by (simp add: paginate_def)
  moreover have "set ts = {t \<in> set (tokens (tbl s)). tok_DocumentID t = i \<and> tok_RunVersion t = doc_RunVersion d \<and>
                 (\<forall>c. flt_Classification f = Some c \<longrightarrow> tok_Classification t = Some c) \<and>
                 (\<forall>st. flt_Status f = Some st \<longrightarrow> tok_Status t = st) \<and>
                 (\<forall>p. flt_Page f = Some p \<longrightarrow> Page (tok_Position t) = p)}"
    using assms(6) by (auto simp: ts_def matching_tokens_def filter_ok_def split: option.splits)
  ultimately show ?thesis by blast
qed

lemma ListTokens_pages_witness:
  "\<exists>ts pages. length ts = 2 \<and> concat pages = ts \<and>
     fst (ListTokens ''d'' \<lparr>flt_Classification = None, flt_Status = Some TokenPending, flt_Page = None, flt_Limit = 0, flt_Offset = 0\<rparr>
       sample_persisted) = Inr ts"
proof -
  let ?f = "\<lparr>flt_Classification = None, flt_Status = Some TokenPending, flt_Page = None, flt_Limit = 0, flt_Offset = 0\<rparr>"
  have "text_ok TokenPending" by code_simp
  then obtain ts where ts: "fst (ListTokens ''d'' ?f sample_persisted) = Inr ts" "\<exists>pages. concat pages = ts"
    using ListTokens_pages [of sample_persisted "''d''" ?f "persisted_row 2 5 (new_document ''d'' ''x'' 5)" 1]
    by (auto simp: sample_persisted_eq text_ok_samples)
  moreover have "length ts = 2"
    using ts(1) \<open>text_ok TokenPending\<close>
    by (auto simp: ListTokens_def stmt_def sample_persisted_eq text_ok_samples paginate_def matching_tokens_def
        persisted_row_def new_document_def new_token_def filter_ok_def)
  ultimately show ?thesis by blast
qed

end
