(* ===== verification/Pipeline_System.thy ===== *)
theory Pipeline_System
  imports Worker_Properties
begin

text \<open>
  The whole pipeline as a state machine: clients submitting documents, relays draining the
  outbox, and any number of extraction and classification workers, all over one database and
  one broker. A step is one unit of work of one process (a transaction, a delivery, an
  acknowledgement) or an act of the environment: time passes, statements and commits fail, a
  worker crashes between any two of its units of work, a message is delivered again.

  The broker is its contract: everything published stays deliverable, to anyone and any
  number of times, until it is acknowledged. A message is named by its index in the log.
\<close>

section \<open>State and steps\<close>

text \<open>
  Where a worker is in its handler for message \<open>k\<close>: it was delivered (\<open>EGot\<close>, \<open>CGot\<close>), the
  document is claimed and extraction is running (\<open>EClaimed\<close>), the token was read and
  classification is running (\<open>CChecked\<close>), or the handler returned \<open>nil\<close> and the
  acknowledgement is next (\<open>Handled\<close>).
\<close>

datatype phase =
    Idle
  | EGot nat
  | EClaimed nat Document
  | CGot nat
  | CChecked nat
  | Handled nat

record sys =
  db :: pg
  acked :: "nat set"
  workers :: "nat \<Rightarrow> phase"

abbreviation mlog :: "sys \<Rightarrow> (string \<times> Message) list" where
  "mlog \<sigma> \<equiv> broker_log (db \<sigma>)"

definition payload_at :: "sys \<Rightarrow> nat \<Rightarrow> string" where
  "payload_at \<sigma> k = msg_Payload (snd (mlog \<sigma> ! k))"

text \<open>The end of a handler: acknowledge, or leave the message pending.\<close>

definition settle :: "nat \<Rightarrow> go_error + 'a \<Rightarrow> phase" where
  "settle k r = (if delivery (map_sum id (\<lambda>_. ()) r) = None then Handled k else Idle)"

definition after_claim :: "nat \<Rightarrow> go_error + Document \<Rightarrow> phase" where
  "after_claim k r =
     (case r of
        Inl e \<Rightarrow> settle k r
      | Inr doc \<Rightarrow> if extraction_over doc then Handled k else EClaimed k doc)"

definition after_check :: "nat \<Rightarrow> go_error + Token \<Rightarrow> phase" where
  "after_check k r =
     (case r of
        Inl e \<Rightarrow> settle k r
      | Inr tok \<Rightarrow> if tok_Status tok = TokenClassified then Handled k else CChecked k)"

definition at_db :: "sys \<Rightarrow> pg \<Rightarrow> sys" where
  "at_db \<sigma> s = \<sigma>\<lparr>db := s\<rparr>"

definition at_worker :: "sys \<Rightarrow> nat \<Rightarrow> phase \<Rightarrow> sys" where
  "at_worker \<sigma> w p = \<sigma>\<lparr>workers := (workers \<sigma>)(w := p)\<rparr>"

inductive sys_step :: "sys \<Rightarrow> sys \<Rightarrow> bool" where
  submit: "Submit i text mode (db \<sigma>) = (r, s') \<Longrightarrow> sys_step \<sigma> (at_db \<sigma> s')"
| mark_failed: "MarkFailed i (db \<sigma>) = (r, s') \<Longrightarrow> sys_step \<sigma> (at_db \<sigma> s')"
| relay: "drainBatch locked relay_batch (db \<sigma>) = (r, s') \<Longrightarrow> sys_step \<sigma> (at_db \<sigma> s')"
| environment: "now (db \<sigma>) \<le> t \<Longrightarrow> sys_step \<sigma> (at_db \<sigma> ((db \<sigma>)\<lparr>now := t, faults := fs\<rparr>))"
| deliver_extract: "workers \<sigma> w = Idle \<Longrightarrow> k < length (mlog \<sigma>) \<Longrightarrow> k \<notin> acked \<sigma> \<Longrightarrow>
    fst (mlog \<sigma> ! k) = StreamExtract \<Longrightarrow> sys_step \<sigma> (at_worker \<sigma> w (EGot k))"
| deliver_classify: "workers \<sigma> w = Idle \<Longrightarrow> k < length (mlog \<sigma>) \<Longrightarrow> k \<notin> acked \<sigma> \<Longrightarrow>
    fst (mlog \<sigma> ! k) = StreamClassify \<Longrightarrow> sys_step \<sigma> (at_worker \<sigma> w (CGot k))"
| extract_poison: "workers \<sigma> w = EGot k \<Longrightarrow> decode_ExtractJob (payload_at \<sigma> k) = Inl e \<Longrightarrow>
    sys_step \<sigma> (at_worker \<sigma> w (Handled k))"
| claim_doc: "workers \<sigma> w = EGot k \<Longrightarrow> decode_ExtractJob (payload_at \<sigma> k) = Inr job \<Longrightarrow>
    claim (ej_DocumentID job) (db \<sigma>) = (r, s') \<Longrightarrow>
    sys_step \<sigma> (at_worker (at_db \<sigma> s') w (after_claim k r))"
| persist_doc: "workers \<sigma> w = EClaimed k doc \<Longrightarrow> persist doc es (db \<sigma>) = (r, s') \<Longrightarrow>
    sys_step \<sigma> (at_worker (at_db \<sigma> s') w (settle k r))"
| classify_poison: "workers \<sigma> w = CGot k \<Longrightarrow> decode_ClassifyJob (payload_at \<sigma> k) = Inl e \<Longrightarrow>
    sys_step \<sigma> (at_worker \<sigma> w (Handled k))"
| check_token: "workers \<sigma> w = CGot k \<Longrightarrow> decode_ClassifyJob (payload_at \<sigma> k) = Inr job \<Longrightarrow>
    GetToken (cj_TokenID job) (db \<sigma>) = (r, s') \<Longrightarrow>
    sys_step \<sigma> (at_worker (at_db \<sigma> s') w (after_check k r))"
| apply_token: "workers \<sigma> w = CChecked k \<Longrightarrow> decode_ClassifyJob (payload_at \<sigma> k) = Inr job \<Longrightarrow>
    apply_result (cj_TokenID job) (cj_RunVersion job) c (db \<sigma>) = (r, s') \<Longrightarrow>
    sys_step \<sigma> (at_worker (at_db \<sigma> s') w (settle k r))"
| ack: "workers \<sigma> w = Handled k \<Longrightarrow>
    sys_step \<sigma> (at_worker (\<sigma>\<lparr>acked := insert k (acked \<sigma>)\<rparr>) w Idle)"
| give_up: "sys_step \<sigma> (at_worker \<sigma> w Idle)"

text \<open>
  \<open>give_up\<close> is every way a worker loses its message without acknowledging it: a crash, an
  error of the NLP or LLM component, a failed \<^verbatim>\<open>XACK\<close>.
\<close>

definition init_sys :: "sys \<Rightarrow> bool" where
  "init_sys \<sigma> \<longleftrightarrow> (\<exists>t fs. db \<sigma> = empty_db t fs) \<and> acked \<sigma> = {} \<and> workers \<sigma> = (\<lambda>_. Idle)"

inductive reachable :: "sys \<Rightarrow> bool" where
  start: "init_sys \<sigma> \<Longrightarrow> reachable \<sigma>"
| next_step: "reachable \<sigma> \<Longrightarrow> sys_step \<sigma> \<tau> \<Longrightarrow> reachable \<tau>"

lemma sel_at [simp]:
  "db (at_db \<sigma> s) = s" "acked (at_db \<sigma> s) = acked \<sigma>" "workers (at_db \<sigma> s) = workers \<sigma>"
  "db (at_worker \<sigma> w p) = db \<sigma>" "acked (at_worker \<sigma> w p) = acked \<sigma>"
  "workers (at_worker \<sigma> w p) = (workers \<sigma>)(w := p)"
  by (simp_all add: at_db_def at_worker_def)

section \<open>Handlers are runs of steps\<close>

lemma settle_unit: "settle k (Inl e) = (if delivery (Inl e) = None then Handled k else Idle)"
  "settle k (Inr x) = Handled k"
  by (simp_all add: settle_def delivery_def)

text \<open>
  A handler run undisturbed on a delivered message goes through steps of the machine to the
  state it computes, and its result is the machine's decision: acknowledge, or leave pending.
\<close>

lemma handle_extract_steps:
  assumes own: "\<And>doc e. extract doc = Inl e \<Longrightarrow> delivery (Inl e) \<noteq> None"
    and w: "workers \<sigma> w = EGot k"
    and h: "handle_extract extract (snd (mlog \<sigma> ! k)) (db \<sigma>) = (r, s')"
  shows "sys_step\<^sup>*\<^sup>* \<sigma> (at_worker (at_db \<sigma> s') w (if r = None then Handled k else Idle))"
proof (cases "decode_ExtractJob (payload_at \<sigma> k)")
  case (Inl e)
  with h have "r = None" "s' = db \<sigma>" by (auto simp: handle_extract_def payload_at_def)
  then show ?thesis using extract_poison [OF w Inl] by (simp add: at_db_def r_into_rtranclp)
next
  case (Inr job)
  obtain q s1 where c: "claim (ej_DocumentID job) (db \<sigma>) = (q, s1)" by fastforce
  note step1 = claim_doc [OF w Inr c]
  from h Inr obtain p where p: "Process_extract extract job (db \<sigma>) = (p, s')" and r: "r = delivery p"
    by (auto simp: handle_extract_def payload_at_def split: prod.splits)
  show ?thesis
  proof (cases q)
    case (Inl e)
    with p c have "p = Inl e" "s' = s1" by (auto simp: Process_extract_def tx_bind_def)
    with step1 Inl r show ?thesis by (simp add: after_claim_def settle_unit r_into_rtranclp)
  next
    case (Inr doc)
    show ?thesis
    proof (cases "extraction_over doc")
      case True
      with p c Inr have "p = Inr ()" "s' = s1" by (auto simp: Process_extract_def tx_bind_def tx_return_def)
      with step1 Inr True r show ?thesis by (simp add: after_claim_def delivery_def r_into_rtranclp)
    next
      case False
      let ?\<tau> = "at_worker (at_db \<sigma> s1) w (EClaimed k doc)"
      from step1 Inr False have s1: "sys_step \<sigma> ?\<tau>" by (simp add: after_claim_def)
      have at: "at_worker (at_db ?\<tau> t) w x = at_worker (at_db \<sigma> t) w x" for t x
        by (simp add: at_worker_def at_db_def)
      show ?thesis
      proof (cases "extract doc")
        case (Inl e)
        with p c Inr False have "p = Inl e" "s' = s1"
          by (auto simp: Process_extract_def tx_bind_def tx_fail_def)
        moreover have "sys_step ?\<tau> (at_worker ?\<tau> w Idle)" by (rule give_up)
        ultimately show ?thesis using s1 r own [OF Inl] by (auto simp: at_worker_def intro: converse_rtranclp_into_rtranclp)
      next
        case es: (Inr es)
        obtain z s2 where z: "persist doc es s1 = (z, s2)" by fastforce
        with p c Inr es False have "p = map_sum id (\<lambda>_. ()) z" "s' = s2"
          by (auto simp: Process_extract_def tx_bind_def tx_return_def split: sum.splits)
        moreover have "sys_step ?\<tau> (at_worker (at_db ?\<tau> s2) w (settle k z))"
          by (rule persist_doc) (use z in simp_all)
        ultimately show ?thesis
          using s1 r by (auto simp: at settle_def intro: converse_rtranclp_into_rtranclp)
      qed
    qed
  qed
qed

definition delivered_sys :: "string \<Rightarrow> phase \<Rightarrow> sys" where
  "delivered_sys stream p = \<lparr>db = (empty_db 5 [])\<lparr>broker_log := [(stream, \<lparr>msg_Key = [], msg_Payload = ''?''\<rparr>)]\<rparr>,
     acked = {}, workers = (\<lambda>_. Idle)(3 := p)\<rparr>"

lemma handle_classify_steps:
  assumes own: "\<And>tok e. classify tok = Inl e \<Longrightarrow> delivery (Inl e) \<noteq> None"
    and w: "workers \<sigma> w = CGot k"
    and h: "handle_classify classify (snd (mlog \<sigma> ! k)) (db \<sigma>) = (r, s')"
  shows "sys_step\<^sup>*\<^sup>* \<sigma> (at_worker (at_db \<sigma> s') w (if r = None then Handled k else Idle))"
proof (cases "decode_ClassifyJob (payload_at \<sigma> k)")
  case (Inl e)
  with h have "r = None" "s' = db \<sigma>" by (auto simp: handle_classify_def payload_at_def)
  then show ?thesis using classify_poison [OF w Inl] by (simp add: at_db_def r_into_rtranclp)
next
  case (Inr job)
  obtain q s1 where c: "GetToken (cj_TokenID job) (db \<sigma>) = (q, s1)" by fastforce
  note step1 = check_token [OF w Inr c]
  from h Inr obtain p where p: "Process_classify classify job (db \<sigma>) = (p, s')" and r: "r = delivery p"
    by (auto simp: handle_classify_def payload_at_def split: prod.splits)
  show ?thesis
  proof (cases q)
    case (Inl e)
    with p c have "p = Inl e" "s' = s1" by (auto simp: Process_classify_def tx_bind_def)
    with step1 Inl r show ?thesis by (simp add: after_check_def settle_unit r_into_rtranclp)
  next
    case tok: (Inr tok)
    show ?thesis
    proof (cases "tok_Status tok = TokenClassified")
      case True
      with p c tok have "p = Inr ()" "s' = s1" by (auto simp: Process_classify_def tx_bind_def tx_return_def)
      with step1 tok True r show ?thesis by (simp add: after_check_def delivery_def r_into_rtranclp)
    next
      case False
      let ?\<tau> = "at_worker (at_db \<sigma> s1) w (CChecked k)"
      from step1 tok False have s1: "sys_step \<sigma> ?\<tau>" by (simp add: after_check_def)
      have at: "at_worker (at_db ?\<tau> t) w x = at_worker (at_db \<sigma> t) w x" for t x
        by (simp add: at_worker_def at_db_def)
      have quiet: "broker_log s1 = mlog \<sigma>" using keepsD [OF keeps_tokens(2) c] by (simp add: quiet_def)
      show ?thesis
      proof (cases "classify tok")
        case (Inl e)
        with p c tok False have "p = Inl e" "s' = s1"
          by (auto simp: Process_classify_def tx_bind_def tx_fail_def)
        moreover have "sys_step ?\<tau> (at_worker ?\<tau> w Idle)" by (rule give_up)
        ultimately show ?thesis using s1 r own [OF Inl] by (auto simp: at_worker_def intro: converse_rtranclp_into_rtranclp)
      next
        case res: (Inr c)
        obtain z s2 where z: "apply_result (cj_TokenID job) (cj_RunVersion job) c s1 = (z, s2)" by fastforce
        with p c tok res False \<open>GetToken (cj_TokenID job) (db \<sigma>) = (q, s1)\<close> have "p = z" "s' = s2"
          by (auto simp: Process_classify_def tx_bind_def)
        moreover have "sys_step ?\<tau> (at_worker (at_db ?\<tau> s2) w (settle k z))"
          by (rule apply_token [where job = job and c = c])
            (use z Inr quiet in \<open>simp_all add: payload_at_def\<close>)
        moreover have "map_sum id (\<lambda>_. ()) z = z" by (cases z) simp_all
        ultimately show ?thesis
          using s1 r by (auto simp: at settle_def intro: converse_rtranclp_into_rtranclp)
      qed
    qed
  qed
qed

text \<open>
  C16. The handlers are compositions of the machine's steps. Run undisturbed on a delivered
  message, with an extractor and a classifier whose errors are their own (never the domain's
  sentinel errors), the handler of either kind of worker goes through steps of the machine to
  the state it computes, and its result is the machine's decision: acknowledge, or leave pending.
\<close>

theorem handlers_are_runs:
  assumes "\<And>doc e. extract doc = Inl e \<Longrightarrow> delivery (Inl e) \<noteq> None"
    and "\<And>tok e. classify tok = Inl e \<Longrightarrow> delivery (Inl e) \<noteq> None"
    and "workers \<sigma> w = EGot k \<and> handle_extract extract (snd (mlog \<sigma> ! k)) (db \<sigma>) = (r, s') \<or>
         workers \<sigma> w = CGot k \<and> handle_classify classify (snd (mlog \<sigma> ! k)) (db \<sigma>) = (r, s')"
  shows "sys_step\<^sup>*\<^sup>* \<sigma> (at_worker (at_db \<sigma> s') w (if r = None then Handled k else Idle))"
  using assms(3)
proof (elim disjE conjE)
  assume "workers \<sigma> w = EGot k" and "handle_extract extract (snd (mlog \<sigma> ! k)) (db \<sigma>) = (r, s')"
  with assms(1) show ?thesis by (rule handle_extract_steps)
next
  assume "workers \<sigma> w = CGot k" and "handle_classify classify (snd (mlog \<sigma> ! k)) (db \<sigma>) = (r, s')"
  with assms(2) show ?thesis by (rule handle_classify_steps)
qed

text \<open>A poison message, delivered to a worker of either kind, is acknowledged.\<close>

theorem handlers_are_runs_witness:
  "sys_step\<^sup>*\<^sup>* (delivered_sys StreamExtract (EGot 0))
     (at_worker (at_db (delivered_sys StreamExtract (EGot 0)) (db (delivered_sys StreamExtract (EGot 0)))) 3 (Handled 0)) \<and>
   sys_step\<^sup>*\<^sup>* (delivered_sys StreamClassify (CGot 0))
     (at_worker (at_db (delivered_sys StreamClassify (CGot 0)) (db (delivered_sys StreamClassify (CGot 0)))) 3 (Handled 0))"
proof -
  let ?e = "delivered_sys StreamExtract (EGot 0)" and ?c = "delivered_sys StreamClassify (CGot 0)"
  have "decode_ExtractJob ''?'' = Inl (Wrap ''decode job'' ErrDecode)" "decode_ClassifyJob ''?'' = Inl (Wrap ''decode job'' ErrDecode)"
    by code_simp+
  then have "workers ?e 3 = EGot 0 \<and> handle_extract (\<lambda>_. Inr []) (snd (mlog ?e ! 0)) (db ?e) = (None, db ?e)"
    "workers ?c 3 = CGot 0 \<and> handle_classify (\<lambda>_. Inl ErrDB) (snd (mlog ?c ! 0)) (db ?c) = (None, db ?c)"
    by (simp_all add: handle_extract_def handle_classify_def delivered_sys_def)
  then show ?thesis
    using handlers_are_runs [of "\<lambda>_. Inr []" "\<lambda>_. Inl ErrDB" ?e 3 0 None "db ?e"]
      handlers_are_runs [of "\<lambda>_. Inr []" "\<lambda>_. Inl ErrDB" ?c 3 0 None "db ?c"]
    by (simp add: delivery_def)
qed

end
