(* ===== verification/Evolution.thy ===== *)
theory Evolution
  imports Pipeline_System
begin

text \<open>
  What every database operation does to the work the pipeline owes: it never forgets a
  message, never lowers a run version, and leaves a message behind for all the work it
  creates. The errors by which a handler drops a message are traced to their causes.
\<close>

section \<open>Messages of the pipeline\<close>

definition extract_message :: "string \<Rightarrow> int \<Rightarrow> string \<times> Message" where
  "extract_message i v = (StreamExtract, \<lparr>msg_Key = i,
     msg_Payload = marshal_ExtractJob \<lparr>ej_DocumentID = i, ej_RunVersion = v\<rparr>\<rparr>)"

definition classify_message :: "int \<Rightarrow> string \<Rightarrow> int \<Rightarrow> string \<times> Message" where
  "classify_message k i v = (StreamClassify, \<lparr>msg_Key = FormatInt k,
     msg_Payload = marshal_ClassifyJob \<lparr>cj_TokenID = k, cj_DocumentID = i, cj_RunVersion = v\<rparr>\<rparr>)"

definition token_message :: "Token \<Rightarrow> string \<times> Message" where
  "token_message t = classify_message (tok_ID t) (tok_DocumentID t) (tok_RunVersion t)"

text \<open>
  A token id names one token for ever: it has been drawn from the sequence, and no token but
  one of this document and run has it.
\<close>

definition id_taken :: "int \<Rightarrow> string \<Rightarrow> int \<Rightarrow> pg \<Rightarrow> bool" where
  "id_taken k i v s \<longleftrightarrow> k < tokens_id_seq s \<and>
     (\<forall>t \<in> set (tokens (tbl s)). tok_ID t = k \<longrightarrow> tok_DocumentID t = i \<and> tok_RunVersion t = v)"

text \<open>
  A message the pipeline produced: an extract job for an existing document and one of its
  runs up to now, or a well-formed classify job for a token of such a run.
\<close>

definition msg_ok :: "pg \<Rightarrow> string \<times> Message \<Rightarrow> bool" where
  "msg_ok s p \<longleftrightarrow>
     (\<exists>i v d. p = extract_message i v \<and> documents (tbl s) i = Some d \<and> 1 \<le> v \<and> v \<le> doc_RunVersion d) \<or>
     (\<exists>k i v d. p = classify_message k i v \<and> wf_ClassifyJob \<lparr>cj_TokenID = k, cj_DocumentID = i, cj_RunVersion = v\<rparr> \<and>
        documents (tbl s) i = Some d \<and> v \<le> doc_RunVersion d \<and> id_taken k i v s)"

lemma msg_ok_extract:
  "documents (tbl s) i = Some d \<Longrightarrow> 1 \<le> v \<Longrightarrow> v \<le> doc_RunVersion d \<Longrightarrow> msg_ok s (extract_message i v)"
  by (auto simp: msg_ok_def)

lemma msg_ok_classify:
  "wf_ClassifyJob \<lparr>cj_TokenID = k, cj_DocumentID = i, cj_RunVersion = v\<rparr> \<Longrightarrow> documents (tbl s) i = Some d \<Longrightarrow>
     v \<le> doc_RunVersion d \<Longrightarrow> id_taken k i v s \<Longrightarrow> msg_ok s (classify_message k i v)"
  by (auto simp: msg_ok_def)

text \<open>Tokens keep their document and run, and new ones get new ids.\<close>

definition ids_stable :: "pg \<Rightarrow> pg \<Rightarrow> bool" where
  "ids_stable s s' \<longleftrightarrow> tokens_id_seq s \<le> tokens_id_seq s' \<and>
     (\<forall>t' \<in> set (tokens (tbl s')). tokens_id_seq s \<le> tok_ID t' \<or>
        (\<exists>t \<in> set (tokens (tbl s)). tok_ID t = tok_ID t' \<and> tok_DocumentID t = tok_DocumentID t' \<and>
           tok_RunVersion t = tok_RunVersion t'))"

lemma id_taken_stable: "ids_stable s s' \<Longrightarrow> id_taken k i v s \<Longrightarrow> id_taken k i v s'"
  unfolding ids_stable_def id_taken_def by fastforce

lemma ids_stable_subset:
  "set (tokens (tbl s')) \<subseteq> set (tokens (tbl s)) \<Longrightarrow> tokens_id_seq s \<le> tokens_id_seq s' \<Longrightarrow> ids_stable s s'"
  by (auto simp: ids_stable_def)

lemma extract_message_decode:
  assumes "text_ok i" and "1 \<le> v" and "v \<le> u" and "int4_ok u"
  shows "decode_ExtractJob (msg_Payload (snd (extract_message i v))) = Inr \<lparr>ej_DocumentID = i, ej_RunVersion = v\<rparr>"
  using assms by (simp add: extract_message_def extract_codec.roundtrip wf_ExtractJob_def text_ok_def
      int4_ok_def int8_ok_def)

lemma classify_message_decode:
  assumes "wf_ClassifyJob \<lparr>cj_TokenID = k, cj_DocumentID = i, cj_RunVersion = v\<rparr>"
  shows "decode_ClassifyJob (msg_Payload (snd (classify_message k i v))) =
    Inr \<lparr>cj_TokenID = k, cj_DocumentID = i, cj_RunVersion = v\<rparr>"
  using assms by (simp add: classify_message_def classify_codec.roundtrip)

lemma messages_differ [simp]: "extract_message i v \<noteq> classify_message k j u"
  "fst (extract_message i v) = StreamExtract" "fst (classify_message k j u) = StreamClassify"
  by (simp_all add: extract_message_def classify_message_def)

section \<open>Open work\<close>

definition open_doc :: "Document \<Rightarrow> bool" where
  "open_doc d \<longleftrightarrow> doc_Status d = DocPending \<or> doc_Status d = DocExtracting"

definition outbox_messages :: "pg \<Rightarrow> (string \<times> Message) set" where
  "outbox_messages s = row_message ` set (outbox (tbl s))"

definition evolves :: "pg \<Rightarrow> pg \<Rightarrow> bool" where
  "evolves s s' \<longleftrightarrow>
     prefix (broker_log s) (broker_log s') \<and> ids_stable s s' \<and>
     (\<forall>i d. documents (tbl s) i = Some d \<longrightarrow>
        (\<exists>d'. documents (tbl s') i = Some d' \<and> doc_RunVersion d \<le> doc_RunVersion d')) \<and>
     (\<forall>p \<in> outbox_messages s' \<union> set (broker_log s').
        p \<in> outbox_messages s \<union> set (broker_log s) \<or> msg_ok s' p) \<and>
     (\<forall>p \<in> outbox_messages s.
        p \<in> outbox_messages s' \<or> p \<in> set (drop (length (broker_log s)) (broker_log s'))) \<and>
     (\<forall>i d'. documents (tbl s') i = Some d' \<longrightarrow> open_doc d' \<longrightarrow>
        (\<exists>d. documents (tbl s) i = Some d \<and> open_doc d \<and> doc_RunVersion d = doc_RunVersion d') \<or>
        extract_message i (doc_RunVersion d') \<in> outbox_messages s') \<and>
     (\<forall>t' \<in> set (tokens (tbl s')). unclassified t' \<longrightarrow>
        (\<exists>t \<in> set (tokens (tbl s)). unclassified t \<and> token_message t = token_message t') \<or>
        token_message t' \<in> outbox_messages s')"

lemma evolves_same:
  "tbl s' = tbl s \<Longrightarrow> broker_log s' = broker_log s \<Longrightarrow> tokens_id_seq s \<le> tokens_id_seq s' \<Longrightarrow> evolves s s'"
  by (auto simp: evolves_def outbox_messages_def ids_stable_subset)

lemma evolves_cong:
  "tbl s = tbl a \<Longrightarrow> broker_log s = broker_log a \<Longrightarrow> tokens_id_seq s = tokens_id_seq a \<Longrightarrow>
     tbl s' = tbl b \<Longrightarrow> broker_log s' = broker_log b \<Longrightarrow> tokens_id_seq s' = tokens_id_seq b \<Longrightarrow>
     evolves s s' = evolves a b"
  by (simp add: evolves_def outbox_messages_def ids_stable_def msg_ok_def id_taken_def)

text \<open>The unit of work again: it evolves if its body does.\<close>

lemma evolves_WithinTx:
  assumes "keeps quiet fn" and "\<And>s x s'. db_inv s \<Longrightarrow> fn s = (Inr x, s') \<Longrightarrow> evolves s s'"
    and "db_inv s" and w: "WithinTx fn s = (r, s')"
  shows "evolves s s'"
  using w
proof (cases rule: uow.outcome)
  case rolled_back
  moreover have "quiet s s'" using uow.frame [OF quietly.frame_relation_axioms assms(1) w] .
  ultimately show ?thesis by (intro evolves_same) (simp_all add: quiet_def seqs_grow_def)
next
  case (effect x)
  then obtain s0 s1 where s0: "tbl s0 = tbl s" "same_frame s s0" "fn s0 = (Inr x, s1)"
    "tbl s' = tbl s1" "same_frame s1 s'" unfolding ran_def by blast
  then have "db_inv s0" using assms(3) db_inv_frame same_frame_grow by metis
  from assms(2) [OF this s0(3)] s0 show ?thesis
    using evolves_cong [of s s0 s' s1] by (simp add: same_frame_def)
qed

lemma outbox_messages_enqueued:
  assumes "enqueued xs s s'"
  shows "outbox_messages s' = outbox_messages s \<union> (\<lambda>(a, b, c). (a, \<lparr>msg_Key = b, msg_Payload = c\<rparr>)) ` set xs"
proof -
  have "row_message ` set (number_rows n xs) = (\<lambda>(a, b, c). (a, \<lparr>msg_Key = b, msg_Payload = c\<rparr>)) ` set xs" for n
    by (induction n xs rule: number_rows.induct) (auto simp: row_message_def)
  with assms show ?thesis by (simp add: outbox_messages_def enqueued_def image_Un)
qed

lemma extract_msg_message:
  "(\<lambda>(a, b, c). (a, \<lparr>msg_Key = b, msg_Payload = c\<rparr>)) (extract_msg d) = extract_message (doc_ID d) (doc_RunVersion d)"
  by (simp add: extract_msg_def extract_message_def)

lemma classify_msg_message:
  "(\<lambda>(a, b, c). (a, \<lparr>msg_Key = b, msg_Payload = c\<rparr>)) (classify_msg i v t) = classify_message (tok_ID t) i v"
  by (simp add: classify_msg_def classify_message_def)

text \<open>
  One document changes, tokens only go, and messages for that document are enqueued: the
  shape of a submission and of a claim.
\<close>

lemma evolves_doc:
  assumes docs: "documents (tbl s') = (documents (tbl s))(i \<mapsto> d')"
    and ver: "\<And>d. documents (tbl s) i = Some d \<Longrightarrow> doc_RunVersion d \<le> doc_RunVersion d'"
    and toks: "set (tokens (tbl s')) \<subseteq> set (tokens (tbl s))" "tokens_id_seq s \<le> tokens_id_seq s'"
    and log: "broker_log s' = broker_log s"
    and msgs: "outbox_messages s' = outbox_messages s \<union> ps"
    and ok: "\<And>p. p \<in> ps \<Longrightarrow> msg_ok s' p"
    and opened: "open_doc d' \<Longrightarrow> extract_message i (doc_RunVersion d') \<in> ps \<or>
        (\<exists>d. documents (tbl s) i = Some d \<and> open_doc d \<and> doc_RunVersion d = doc_RunVersion d')"
  shows "evolves s s'"
  unfolding evolves_def
proof (intro conjI)
  show "\<forall>i d. documents (tbl s) i = Some d \<longrightarrow>
        (\<exists>d'. documents (tbl s') i = Some d' \<and> doc_RunVersion d \<le> doc_RunVersion d')"
    using ver by (auto simp: docs)
  show "\<forall>j e. documents (tbl s') j = Some e \<longrightarrow> open_doc e \<longrightarrow>
        (\<exists>d. documents (tbl s) j = Some d \<and> open_doc d \<and> doc_RunVersion d = doc_RunVersion e) \<or>
        extract_message j (doc_RunVersion e) \<in> outbox_messages s'"
    using opened by (auto simp: docs msgs)
  show "ids_stable s s'" using toks by (rule ids_stable_subset)
qed (use toks ok in \<open>auto simp: log msgs\<close>)

lemma evolves_Submit_body:
  assumes inv: "db_inv s" and sub: "Submit_body i text mode s = (Inr res, s')"
  shows "evolves s s'"
proof -
  from Submit_body_succ [OF sub] obtain t where d: "Submit_decide i text mode s = (Inr res, t)"
    and enq: "enqueued (if Accepted res then [extract_msg (sub_Document res)] else []) t s'" by blast
  let ?ps = "if Accepted res then {extract_message (doc_ID (sub_Document res)) (doc_RunVersion (sub_Document res))} else {}"
  have s': "documents (tbl s') = documents (tbl t)" "tokens (tbl s') = tokens (tbl t)" "broker_log s' = broker_log t"
    "tokens_id_seq s' = tokens_id_seq t"
    and out_t: "outbox_messages s' = outbox_messages t \<union> ?ps"
    using enq outbox_messages_enqueued [OF enq] by (auto simp: enqueued_def extract_msg_message)
  have "outbox (tbl t) = outbox (tbl s)" using d by (cases rule: Submit_decide_cases) simp_all
  with out_t have out: "outbox_messages s' = outbox_messages s \<union> ?ps" by (simp add: outbox_messages_def)
  from d show ?thesis
  proof (cases rule: Submit_decide_cases)
    case new_doc
    then show ?thesis
      by (intro evolves_doc [of s' s i "new_document i text (now s)" ?ps])
        (auto simp: s' out same_frame_def new_document_def intro!: msg_ok_extract)
  next
    case (full_rerun d)
    with db_inv_doc [OF inv full_rerun(1)] show ?thesis
      by (intro evolves_doc [of s' s i "reset_row text (now s) d" ?ps])
        (auto simp: s' out same_frame_def reset_row_def doc_ok_def intro!: msg_ok_extract)
  next
    case (already_done d)
    then show ?thesis by (intro evolves_same) (use enq in \<open>simp_all add: enqueued_def same_frame_def\<close>)
  next
    case (resume_failed d)
    with db_inv_doc [OF inv resume_failed(1)] show ?thesis
      by (intro evolves_doc [of s' s i "d\<lparr>doc_Status := DocPending, doc_UpdatedAt := now s\<rparr>" ?ps])
        (auto simp: s' out same_frame_def doc_ok_def intro!: msg_ok_extract)
  next
    case (resume d)
    with db_inv_doc [OF inv resume(1)] show ?thesis
      by (intro evolves_doc [of s' s i d ?ps])
        (auto simp: s' out same_frame_def doc_ok_def fun_upd_idem intro!: msg_ok_extract)
  qed
qed

lemma evolves_claim_body:
  assumes "claim_body i s = (Inr doc, s')"
  shows "evolves s s'"
proof -
  from claim_body_succ [OF assms] obtain d where d: "documents (tbl s) i = Some d" "same_frame s s'"
    and k: "if doc_Status d = DocPending
      then doc = d\<lparr>doc_Status := DocExtracting\<rparr> \<and>
           tbl s' = (tbl s)\<lparr>documents := (documents (tbl s))(i \<mapsto> d\<lparr>doc_Status := DocExtracting,
              ExtractionStartedAt := Some (now s), doc_UpdatedAt := now s\<rparr>)\<rparr>
      else doc = d \<and> tbl s' = tbl s" by blast
  show ?thesis
  proof (cases "doc_Status d = DocPending")
    case True
    with k d show ?thesis
      by (intro evolves_doc [of s' s i "d\<lparr>doc_Status := DocExtracting, ExtractionStartedAt := Some (now s),
            doc_UpdatedAt := now s\<rparr>" "{}"])
        (auto simp: outbox_messages_def same_frame_def open_doc_def)
  next
    case False
    with k d show ?thesis by (intro evolves_same) (simp_all add: same_frame_def)
  qed
qed

lemma persisted_row_sel [simp]:
  "doc_RunVersion (persisted_row n t d) = doc_RunVersion d" "doc_ID (persisted_row n t d) = doc_ID d"
  "\<not> open_doc (persisted_row n t d)"
  by (simp_all add: persisted_row_def open_doc_def)

lemma evolves_persist_body:
  assumes inv: "db_inv s" and p: "persist_body doc es s = (Inr n, s')"
  shows "evolves s s'"
proof -
  let ?i = "doc_ID doc" and ?v = "doc_RunVersion doc"
  from persist_body_succ [OF p] obtain cur new s1 s2 where
    cur: "documents (tbl s) ?i = Some cur" "doc_RunVersion cur = ?v"
    and up: "upserted ?i ?v es s new s1"
    and n: "n = int (length (run_tokens ?i ?v (tokens (tbl s1))))"
    and row: "doc_updated ?i (persisted_row n (now s)) s1 s2"
    and enq: "enqueued (map (classify_msg ?i ?v) (filter unclassified (sort_key tok_ID (run_tokens ?i ?v (tokens (tbl s1)))))) s2 s'"
    by blast
  have inv2: "db_inv s2" using db_inv_persist [OF inv cur up row [unfolded n]] .
  have docs: "documents (tbl s') = (documents (tbl s))(?i \<mapsto> persisted_row n (now s) cur)"
    and toks: "tokens (tbl s') = tokens (tbl s) @ new" "tokens (tbl s2) = tokens (tbl s) @ new"
      "tokens (tbl s1) = tokens (tbl s) @ new"
    and log: "broker_log s' = broker_log s"
    and ob2: "outbox_messages s2 = outbox_messages s"
    using up row enq cur by (auto simp: upserted_def doc_updated_def enqueued_def same_frame_def outbox_messages_def)
  let ?run = "{t \<in> set (run_tokens ?i ?v (tokens (tbl s2))). unclassified t}"
  have "(\<lambda>(a, b, c). (a, \<lparr>msg_Key = b, msg_Payload = c\<rparr>)) `
      set (map (classify_msg ?i ?v) (filter unclassified (sort_key tok_ID (run_tokens ?i ?v (tokens (tbl s1)))))) = token_message ` ?run"
    unfolding set_map image_image classify_msg_message toks
    by (rule image_cong) (auto simp: token_message_def run_tokens_def)
  with outbox_messages_enqueued [OF enq] ob2
  have out: "outbox_messages s' = outbox_messages s \<union> token_message ` ?run" by simp
  have s'2: "documents (tbl s') = documents (tbl s2)" "tokens (tbl s') = tokens (tbl s2)"
      "tokens_id_seq s' = tokens_id_seq s2" using enq by (simp_all add: enqueued_def)
  have ok: "msg_ok s' (token_message t)" if "t \<in> ?run" for t
  proof -
    from that have t: "t \<in> set (tokens (tbl s2))" by (simp add: run_tokens_def)
    from db_inv_token [OF inv2 this] obtain d where d: "documents (tbl s2) (tok_DocumentID t) = Some d"
      "tok_RunVersion t = doc_RunVersion d" "int8_ok (tok_ID t)" by (auto simp: token_ok_def)
    have "distinct (map tok_ID (tokens (tbl s2)))" "tok_ID t < tokens_id_seq s2"
      using inv2 t by (auto simp: db_inv_defs)
    with t have "id_taken (tok_ID t) (tok_DocumentID t) (tok_RunVersion t) s'"
      by (auto simp: id_taken_def s'2 distinct_map dest: inj_onD)
    with db_inv_doc [OF inv2 d(1)] d show ?thesis unfolding token_message_def
      by (intro msg_ok_classify)
        (auto simp: s'2 wf_ClassifyJob_def doc_ok_def text_ok_def int4_ok_def int8_ok_def)
  qed
  have run: "t \<in> ?run" if "t \<in> set new" "unclassified t" for t
    using that up toks by (auto simp: upserted_def run_tokens_def)
  show ?thesis
    unfolding evolves_def
  proof (intro conjI)
    show "\<forall>t' \<in> set (tokens (tbl s')). unclassified t' \<longrightarrow>
        (\<exists>t \<in> set (tokens (tbl s)). unclassified t \<and> token_message t = token_message t') \<or>
        token_message t' \<in> outbox_messages s'"
      using run by (auto simp: toks(1) out)
    show "ids_stable s s'" using up row enq
      by (auto simp: ids_stable_def upserted_def doc_updated_def enqueued_def same_frame_def)
  qed (use cur ok in \<open>auto simp: docs log out\<close>)
qed

lemma evolves_apply_body:
  assumes inv: "db_inv s" and a: "apply_body i v c s = (Inr u, s')"
  shows "evolves s s'"
  using a
proof (cases rule: apply_body_cases)
  case (already tok)
  then show ?thesis by (intro evolves_same) (simp_all add: same_frame_def)
next
  case (classified tok d)
  have row: "doc_RunVersion (classified_row t d) = doc_RunVersion d" "open_doc (classified_row t d) \<Longrightarrow> open_doc d" for t
    by (auto simp: classified_row_def open_doc_def split: if_splits)
  show ?thesis
    unfolding evolves_def
  proof (intro conjI)
    show "\<forall>t' \<in> set (tokens (tbl s')). unclassified t' \<longrightarrow>
        (\<exists>t \<in> set (tokens (tbl s)). unclassified t \<and> token_message t = token_message t') \<or>
        token_message t' \<in> outbox_messages s'"
      using classified(6) by (auto simp: unclassified_def)
    show "ids_stable s s'" using classified by (fastforce simp: ids_stable_def same_frame_def classify_row_def)
  qed (use classified row in \<open>auto simp: outbox_messages_def same_frame_def\<close>)
qed

lemma evolves_MarkFailed:
  assumes "MarkFailed i s = (r, s')"
  shows "evolves s s'"
proof (cases "tbl s' = tbl s")
  case True
  with assms show ?thesis
    by (intro evolves_same) (auto simp: MarkFailed_def autocommit_def split: fault.splits)
next
  case False
  with assms have s': "s' = update_doc i (\<lambda>d. d\<lparr>doc_Status := DocFailed, doc_UpdatedAt := now s\<rparr>) (pop_fault s)"
    by (auto simp: MarkFailed_def autocommit_def split: fault.splits)
  with False obtain d where d: "documents (tbl s) i = Some d" by (cases "documents (tbl s) i") (auto simp: update_doc_def)
  with s' show ?thesis
    by (intro evolves_doc [of s' s i "d\<lparr>doc_Status := DocFailed, doc_UpdatedAt := now s\<rparr>" "{}"])
      (auto simp: outbox_messages_def open_doc_def update_doc_def)
qed

lemma evolves_drainBatch:
  assumes inv: "db_inv s" and d: "drainBatch locked batch s = (r, s')"
  shows "evolves s s'"
proof -
  let ?c = "claimable locked batch s"
  obtain k where log: "broker_log s' = broker_log s @ map row_message (take k ?c)"
    using drainBatch_log [OF d] by blast
  have grow: "tokens_id_seq s \<le> tokens_id_seq s'"
    using uow.frame [OF growing.frame_relation_axioms keeps_relay(2) d [unfolded drainBatch_def]]
    by (simp add: seqs_grow_def)
  have sub: "row_message ` set (take k ?c) \<subseteq> outbox_messages s"
    unfolding outbox_messages_def using claimable_subset [of locked batch s] set_take_subset [of k ?c] by blast
  from d show ?thesis
  proof (cases rule: drainBatch_outcome)
    case rolled_back
    with sub grow show ?thesis by (auto simp: evolves_def outbox_messages_def log ids_stable_subset)
  next
    case committed
    then have log': "broker_log s' = broker_log s @ map row_message ?c"
      and tbl': "documents (tbl s') = documents (tbl s)" "tokens (tbl s') = tokens (tbl s)"
        "set (outbox (tbl s')) \<subseteq> set (outbox (tbl s))"
      by (auto simp: published_def)
    have "p \<in> outbox_messages s' \<or> p \<in> row_message ` set ?c" if "p \<in> outbox_messages s" for p
      using that published_keeps [OF committed(1) claimable_subset db_inv_outbox_distinct [OF inv]]
      unfolding outbox_messages_def by blast
    moreover have "outbox_messages s' \<union> row_message ` set ?c \<subseteq> outbox_messages s"
      unfolding outbox_messages_def using tbl'(3) claimable_subset [of locked batch s] by blast
    ultimately show ?thesis using grow by (auto simp: evolves_def log' tbl' ids_stable_subset)
  qed
qed

section \<open>Why a handler drops a message\<close>

text \<open>
  Statements that only fail for reasons of the database, so that their error leaves the
  message pending.
\<close>

definition retried :: "'a tx \<Rightarrow> bool" where
  "retried m \<longleftrightarrow> (\<forall>s e s'. m s = (Inl e, s') \<longrightarrow> delivery (Inl e) \<noteq> None)"

named_theorems retried_intros \<open>statements whose errors are retried\<close>

lemma delivery_None: "delivery (Inl e) = None \<longleftrightarrow> errors_Is e ErrNotFound \<or> errors_Is e ErrStaleWrite"
  by (simp add: delivery_def)

lemma retried_basic [retried_intros]:
  "retried (tx_return x)" "retried m \<Longrightarrow> retried (tx_wrap w m)"
  "retried m \<Longrightarrow> (\<And>x. retried (f x)) \<Longrightarrow> retried (tx_bind m f)"
  by (auto simp: retried_def tx_return_def tx_wrap_def tx_bind_def delivery_None split: prod.splits sum.splits)

lemma retried_stmt:
  assumes "\<And>s e s'. f s = (Inl e, s') \<Longrightarrow> e = ErrDB \<or> e = ErrNoRows"
  shows "retried (stmt f)"
  using assms by (fastforce simp: retried_def stmt_def delivery_None split: if_splits)

lemma retried_statements [retried_intros]:
  "retried (SetExtractionStarted i)" "retried (AdvanceToClassifying i n)"
  "retried (MarkExtractionCompletedEmpty i)" "retried (IncrementClassifiedCount i)"
  "retried (MarkDocumentCompleted i)" "retried (CountTokens i v)" "retried (ListTokensForRun i v)"
  "retried (SetTokenClassified k c)" "retried (EnqueueClassify j)"
  unfolding SetExtractionStarted_def AdvanceToClassifying_def MarkExtractionCompletedEmpty_def
    IncrementClassifiedCount_def MarkDocumentCompleted_def CountTokens_def ListTokensForRun_def
    SetTokenClassified_def EnqueueClassify_def EnqueueOutbox_def
  by (intro retried_intros retried_stmt; auto split: if_splits option.splits)+

lemma retried_loops [retried_intros]: "retried (UpsertTokens i v es)" "retried (enqueue_pending i v ts)"
proof -
  show "retried (UpsertTokens i v es)"
    by (induction es)
      (auto intro!: retried_intros retried_stmt simp: insert_token_def Let_def split: if_splits)
  show "retried (enqueue_pending i v ts)"
    by (induction ts) (auto intro!: retried_intros)
qed

lemma retried_Inl: "retried m \<Longrightarrow> m s = (Inl e, s') \<Longrightarrow> delivery (Inl e) = None \<Longrightarrow> False"
  unfolding retried_def by metis

lemma tx_bind_Inl:
  "tx_bind m f s = (Inl e, s') \<longleftrightarrow> m s = (Inl e, s') \<or> (\<exists>x t. m s = (Inr x, t) \<and> f x t = (Inl e, s'))"
  by (auto simp: tx_bind_def split: prod.split sum.split)

lemma claim_body_dropped:
  assumes "claim_body i s = (Inl e, s')" and "delivery (Inl e) = None"
  shows "documents (tbl s) i = None"
proof (rule ccontr)
  assume "documents (tbl s) i \<noteq> None"
  with assms obtain d :: Document and t where
    "(if doc_Status d = DocPending
        then tx_bind (SetExtractionStarted i) (\<lambda>_. tx_return (d\<lparr>doc_Status := DocExtracting\<rparr>))
        else tx_return d) t = (Inl e, s')"
    unfolding claim_body_def tx_bind_Inl [of "GetDocumentForUpdate i"] GetDocumentForUpdate_Inr
    by (auto simp: GetDocumentForUpdate_def delivery_None dest!: getDocumentTx_Inl)
  moreover have "retried (if doc_Status d = DocPending
        then tx_bind (SetExtractionStarted i) (\<lambda>_. tx_return (d\<lparr>doc_Status := DocExtracting\<rparr>))
        else tx_return d)" by (auto intro!: retried_intros)
  ultimately show False using retried_Inl assms(2) by blast
qed

lemma persist_body_dropped:
  assumes "persist_body doc es s = (Inl e, s')" and "delivery (Inl e) = None"
    and "documents (tbl s) (doc_ID doc) = Some cur"
  shows "doc_RunVersion cur \<noteq> doc_RunVersion doc"
proof
  let ?rest = "tx_bind (UpsertTokens (doc_ID doc) (doc_RunVersion doc) es) (\<lambda>_.
         tx_bind (CountTokens (doc_ID doc) (doc_RunVersion doc)) (\<lambda>tot.
           if tot = 0 then
             tx_bind (MarkExtractionCompletedEmpty (doc_ID doc)) (\<lambda>_. tx_return tot)
           else
             tx_bind (AdvanceToClassifying (doc_ID doc) tot) (\<lambda>_.
             tx_bind (ListTokensForRun (doc_ID doc) (doc_RunVersion doc)) (\<lambda>ts.
             tx_bind (enqueue_pending (doc_ID doc) (doc_RunVersion doc) ts) (\<lambda>_.
               tx_return tot)))))"
  assume "doc_RunVersion cur = doc_RunVersion doc"
  with assms obtain t where "?rest t = (Inl e, s')"
    unfolding persist_body_def tx_bind_Inl [of "GetDocumentForUpdate (doc_ID doc)"] GetDocumentForUpdate_Inr
    by (auto simp: GetDocumentForUpdate_def delivery_None dest!: getDocumentTx_Inl)
  moreover have "retried ?rest" by (auto intro!: retried_intros)
  ultimately show False using retried_Inl assms(2) by blast
qed

lemma GetToken_dropped:
  assumes "db_inv s" and "GetToken k s = (Inl e, s')" and "delivery (Inl e) = None" and "t \<in> set (tokens (tbl s))"
  shows "tok_ID t \<noteq> k"
proof
  assume "tok_ID t = k"
  moreover have "distinct (map tok_ID (tokens (tbl s)))" using assms(1) by (simp add: db_inv_defs)
  ultimately have "filter (\<lambda>t. tok_ID t = k) (tokens (tbl s)) = [t]"
    using filter_singleton_if_distinct [of tok_ID "tokens (tbl s)" t] assms(4) by simp
  with assms(2,3) show False
    by (auto simp: GetToken_def stmt_def delivery_None split: if_splits)
qed

lemma apply_body_dropped:
  assumes inv: "db_inv s" and a: "apply_body k v c s = (Inl e, s')" and dr: "delivery (Inl e) = None"
    and t: "t \<in> set (tokens (tbl s))" and k: "tok_ID t = k"
  shows "tok_RunVersion t \<noteq> v"
proof
  assume v: "tok_RunVersion t = v"
  have "distinct (map tok_ID (tokens (tbl s)))" using inv by (simp add: db_inv_defs)
  then have f: "filter (\<lambda>t. tok_ID t = k) (tokens (tbl s)) = [t]"
    using filter_singleton_if_distinct [of tok_ID "tokens (tbl s)" t] t k by simp
  from db_inv_token [OF inv t] obtain d where d: "documents (tbl s) (tok_DocumentID t) = Some d" "doc_RunVersion d = v"
    using v by (auto simp: token_ok_def)
  let ?rest = "tx_bind (SetTokenClassified k c) (\<lambda>_.
             tx_bind (IncrementClassifiedCount (tok_DocumentID t)) (\<lambda>newCount.
               if doc_TotalTokens d \<le> newCount then
                 tx_bind (MarkDocumentCompleted (tok_DocumentID t)) (\<lambda>_. tx_return ())
               else tx_return ()))"
  have first: "\<not> (\<exists>s'. GetTokenForUpdate k s = (Inl e, s'))"
    using dr f by (auto simp: GetTokenForUpdate_def stmt_def delivery_None split: if_splits)
  with a f have a': "tok_Status t \<noteq> TokenClassified"
    "tx_bind (GetDocumentForUpdate (tok_DocumentID t)) (\<lambda>doc. if doc_RunVersion doc \<noteq> v then tx_fail ErrStaleWrite
       else tx_bind (SetTokenClassified k c) (\<lambda>_.
             tx_bind (IncrementClassifiedCount (tok_DocumentID t)) (\<lambda>newCount.
               if doc_TotalTokens doc \<le> newCount then
                 tx_bind (MarkDocumentCompleted (tok_DocumentID t)) (\<lambda>_. tx_return ())
               else tx_return ()))) (pop_fault s) = (Inl e, s')"
    unfolding apply_body_def tx_bind_Inl [of "GetTokenForUpdate k"] GetTokenForUpdate_Inr
    using v by (auto simp: tx_return_def split: if_splits)
  have "\<not> (\<exists>s'. GetDocumentForUpdate (tok_DocumentID t) (pop_fault s) = (Inl e, s'))"
    using dr d(1) by (auto simp: GetDocumentForUpdate_def delivery_None dest!: getDocumentTx_Inl)
  with a'(2) d obtain u where "?rest u = (Inl e, s')"
    unfolding tx_bind_Inl [of "GetDocumentForUpdate (tok_DocumentID t)"] GetDocumentForUpdate_Inr by auto
  moreover have "retried ?rest" by (auto intro!: retried_intros)
  ultimately show False using retried_Inl dr by blast
qed

end
