(* ===== verification/No_Lost_Work.thy ===== *)
theory No_Lost_Work
  imports Evolution
begin

text \<open>
  The invariant of the whole system and its consequences: in every reachable state, all the
  work the pipeline still owes has a message in the outbox or in the broker that some worker
  will be given; when there are none left, all work is done.
\<close>

section \<open>The invariant\<close>

text \<open>A message that will still be delivered to a worker that has not finished with it.\<close>

definition awaiting :: "sys \<Rightarrow> string \<times> Message \<Rightarrow> bool" where
  "awaiting \<sigma> p \<longleftrightarrow> p \<in> outbox_messages (db \<sigma>) \<or>
     (\<exists>k < length (mlog \<sigma>). mlog \<sigma> ! k = p \<and> k \<notin> acked \<sigma> \<and> (\<forall>w. workers \<sigma> w \<noteq> Handled k))"

definition needed :: "pg \<Rightarrow> string \<times> Message \<Rightarrow> bool" where
  "needed s p \<longleftrightarrow>
     (\<exists>i d. documents (tbl s) i = Some d \<and> open_doc d \<and> p = extract_message i (doc_RunVersion d)) \<or>
     (\<exists>t \<in> set (tokens (tbl s)). unclassified t \<and> p = token_message t)"

definition phase_ok :: "sys \<Rightarrow> phase \<Rightarrow> bool" where
  "phase_ok \<sigma> p =
     (case p of
        Idle \<Rightarrow> True
      | EGot k \<Rightarrow> k < length (mlog \<sigma>) \<and> fst (mlog \<sigma> ! k) = StreamExtract
      | EClaimed k doc \<Rightarrow> k < length (mlog \<sigma>) \<and>
          (\<exists>v d. mlog \<sigma> ! k = extract_message (doc_ID doc) v \<and> 1 \<le> v \<and> v \<le> doc_RunVersion doc \<and>
             documents (tbl (db \<sigma>)) (doc_ID doc) = Some d \<and> doc_RunVersion doc \<le> doc_RunVersion d)
      | CGot k \<Rightarrow> k < length (mlog \<sigma>) \<and> fst (mlog \<sigma> ! k) = StreamClassify
      | CChecked k \<Rightarrow> k < length (mlog \<sigma>) \<and> fst (mlog \<sigma> ! k) = StreamClassify
      | Handled k \<Rightarrow> k < length (mlog \<sigma>))"

definition sys_inv :: "sys \<Rightarrow> bool" where
  "sys_inv \<sigma> \<longleftrightarrow> db_inv (db \<sigma>) \<and>
     (\<forall>p \<in> outbox_messages (db \<sigma>) \<union> set (mlog \<sigma>). msg_ok (db \<sigma>) p) \<and>
     acked \<sigma> \<subseteq> {..<length (mlog \<sigma>)} \<and> (\<forall>w. phase_ok \<sigma> (workers \<sigma> w)) \<and>
     (\<forall>p. needed (db \<sigma>) p \<longrightarrow> awaiting \<sigma> p)"

lemma sys_invD:
  assumes "sys_inv \<sigma>"
  shows "db_inv (db \<sigma>)" and "p \<in> outbox_messages (db \<sigma>) \<union> set (mlog \<sigma>) \<Longrightarrow> msg_ok (db \<sigma>) p"
    and "k \<in> acked \<sigma> \<Longrightarrow> k < length (mlog \<sigma>)" and "phase_ok \<sigma> (workers \<sigma> w)"
    and "needed (db \<sigma>) q \<Longrightarrow> awaiting \<sigma> q"
  using assms unfolding sys_inv_def by blast+

lemma init_inv: "init_sys \<sigma> \<Longrightarrow> sys_inv \<sigma>"
  by (auto simp: init_sys_def sys_inv_def empty_db_inv phase_ok_def needed_def)
    (simp_all add: empty_db_def outbox_messages_def)

section \<open>Database steps\<close>

lemma prefix_nth: "prefix xs ys \<Longrightarrow> k < length xs \<Longrightarrow> ys ! k = xs ! k \<and> k < length ys"
  by (auto simp: prefix_def nth_append)

lemma msg_ok_mono:
  assumes "msg_ok s p" and "ids_stable s s'"
    and "\<And>i d. documents (tbl s) i = Some d \<Longrightarrow>
      \<exists>d'. documents (tbl s') i = Some d' \<and> doc_RunVersion d \<le> doc_RunVersion d'"
  shows "msg_ok s' p"
proof -
  consider (ext) i v d where "p = extract_message i v" "documents (tbl s) i = Some d" "1 \<le> v" "v \<le> doc_RunVersion d"
    | (cls) k i v d where "p = classify_message k i v" "documents (tbl s) i = Some d" "v \<le> doc_RunVersion d"
      "wf_ClassifyJob \<lparr>cj_TokenID = k, cj_DocumentID = i, cj_RunVersion = v\<rparr>" "id_taken k i v s"
    using assms(1) unfolding msg_ok_def by blast
  then show ?thesis
  proof cases
    case ext
    with assms(3) obtain d' where "documents (tbl s') i = Some d'" "v \<le> doc_RunVersion d'" by fastforce
    with ext show ?thesis by (simp add: msg_ok_extract)
  next
    case cls
    with assms(3) obtain d' where "documents (tbl s') i = Some d'" "v \<le> doc_RunVersion d'" by fastforce
    with cls id_taken_stable [OF assms(2)] show ?thesis by (simp add: msg_ok_classify)
  qed
qed

lemma phase_ok_evolves:
  assumes ev: "evolves (db \<sigma>) s'" and ph: "phase_ok \<sigma> p"
  shows "phase_ok (at_db \<sigma> s') p"
proof (cases p)
  case (EClaimed k doc)
  with ph obtain v d where vd: "k < length (mlog \<sigma>)" "mlog \<sigma> ! k = extract_message (doc_ID doc) v" "1 \<le> v"
    "v \<le> doc_RunVersion doc" "documents (tbl (db \<sigma>)) (doc_ID doc) = Some d" "doc_RunVersion doc \<le> doc_RunVersion d"
    by (auto simp: phase_ok_def)
  moreover from vd(5) ev obtain d' where "documents (tbl s') (doc_ID doc) = Some d'" "doc_RunVersion d \<le> doc_RunVersion d'"
    unfolding evolves_def by blast
  moreover have "broker_log s' ! k = mlog \<sigma> ! k" "k < length (broker_log s')"
    using ev prefix_nth vd(1) by (auto simp: evolves_def)
  ultimately show ?thesis using EClaimed by (auto simp: phase_ok_def)
qed (use ph ev prefix_nth [of "mlog \<sigma>" "broker_log s'"] in \<open>auto simp: phase_ok_def evolves_def\<close>)

lemma awaiting_evolves:
  assumes inv: "sys_inv \<sigma>" and ev: "evolves (db \<sigma>) s'" and p: "awaiting \<sigma> p"
  shows "awaiting (at_db \<sigma> s') p"
proof -
  let ?n = "length (mlog \<sigma>)"
  from ev have pre: "prefix (mlog \<sigma>) (broker_log s')" by (simp add: evolves_def)
  consider (stays) "p \<in> outbox_messages s'" | (moves) "p \<in> set (drop ?n (broker_log s'))"
    | (logged) k where "k < ?n" "mlog \<sigma> ! k = p" "k \<notin> acked \<sigma>" "\<forall>w. workers \<sigma> w \<noteq> Handled k"
    using p ev unfolding awaiting_def evolves_def by blast
  then show ?thesis
  proof cases
    case stays
    then show ?thesis by (simp add: awaiting_def)
  next
    case moves
    then obtain j where "j < length (drop ?n (broker_log s'))" "drop ?n (broker_log s') ! j = p"
      by (meson in_set_conv_nth)
    then have j: "?n + j < length (broker_log s')" "broker_log s' ! (?n + j) = p"
      using prefix_length_le [OF pre] by simp_all
    have "?n + j \<notin> acked \<sigma>" using sys_invD(3) [OF inv, of "?n + j"] by auto
    moreover have "workers \<sigma> w \<noteq> Handled (?n + j)" for w
      using sys_invD(4) [OF inv, of w] by (auto simp: phase_ok_def)
    ultimately show ?thesis using j by (auto simp: awaiting_def)
  next
    case logged
    with prefix_nth [OF pre] show ?thesis by (auto simp: awaiting_def)
  qed
qed

lemma needed_evolves: "evolves s s' \<Longrightarrow> needed s' p \<Longrightarrow> needed s p \<or> p \<in> outbox_messages s'"
  unfolding evolves_def needed_def by metis

lemma sys_inv_evolves:
  assumes inv: "sys_inv \<sigma>" and ev: "evolves (db \<sigma>) s'" and db: "db_inv s'"
  shows "sys_inv (at_db \<sigma> s')"
  unfolding sys_inv_def
proof (intro conjI allI ballI impI)
  fix p
  assume "p \<in> outbox_messages (db (at_db \<sigma> s')) \<union> set (mlog (at_db \<sigma> s'))"
  then show "msg_ok (db (at_db \<sigma> s')) p"
    using ev sys_invD(2) [OF inv, of p] msg_ok_mono [of "db \<sigma>" p s']
    unfolding evolves_def by auto
next
  show "acked (at_db \<sigma> s') \<subseteq> {..<length (mlog (at_db \<sigma> s'))}"
    using ev sys_invD(3) [OF inv] by (auto simp: evolves_def dest: prefix_length_le less_le_trans)
next
  fix w
  show "phase_ok (at_db \<sigma> s') (workers (at_db \<sigma> s') w)"
    using phase_ok_evolves [OF ev] sys_invD(4) [OF inv] by simp
next
  fix p
  assume "needed (db (at_db \<sigma> s')) p"
  with needed_evolves [OF ev] have "needed (db \<sigma>) p \<or> p \<in> outbox_messages s'" by simp
  then show "awaiting (at_db \<sigma> s') p"
  proof
    assume "needed (db \<sigma>) p"
    then show ?thesis by (intro awaiting_evolves [OF inv ev] sys_invD(5) [OF inv])
  qed (simp add: awaiting_def)
qed (use db in simp)

section \<open>Worker steps\<close>

lemma phase_ok_worker [simp]: "phase_ok (at_worker \<sigma> w p) q \<longleftrightarrow> phase_ok \<sigma> q"
  by (simp add: phase_ok_def split: phase.split)

text \<open>A worker may take any step that is not the end of a message some work still needs.\<close>

lemma sys_inv_worker:
  assumes inv: "sys_inv \<sigma>" and ph: "phase_ok \<sigma> p" and over: "\<And>k. p = Handled k \<Longrightarrow> \<not> needed (db \<sigma>) (mlog \<sigma> ! k)"
  shows "sys_inv (at_worker \<sigma> w p)"
proof -
  have "awaiting (at_worker \<sigma> w p) q" if q: "needed (db \<sigma>) q" for q
    using sys_invD(5) [OF inv q] over q unfolding awaiting_def by auto
  with inv ph show ?thesis by (simp add: sys_inv_def)
qed

lemma sys_inv_ack:
  assumes inv: "sys_inv \<sigma>" and w: "workers \<sigma> w = Handled k"
  shows "sys_inv (at_worker (\<sigma>\<lparr>acked := insert k (acked \<sigma>)\<rparr>) w Idle)"
proof -
  have "k < length (mlog \<sigma>)" using sys_invD(4) [OF inv, of w] w by (simp add: phase_ok_def)
  moreover have "awaiting (at_worker (\<sigma>\<lparr>acked := insert k (acked \<sigma>)\<rparr>) w Idle) p" if "awaiting \<sigma> p" for p
    using that w unfolding awaiting_def by auto
  moreover have "phase_ok (\<sigma>\<lparr>acked := insert k (acked \<sigma>)\<rparr>) q = phase_ok \<sigma> q" for q
    by (simp add: phase_ok_def split: phase.split)
  ultimately show ?thesis using inv by (auto simp: sys_inv_def phase_ok_def [of _ Idle])
qed

text \<open>What the payload of a delivered message is.\<close>

lemma extract_payload:
  assumes inv: "sys_inv \<sigma>" and k: "k < length (mlog \<sigma>)" and st: "fst (mlog \<sigma> ! k) = StreamExtract"
  obtains i v d where "mlog \<sigma> ! k = extract_message i v" "documents (tbl (db \<sigma>)) i = Some d" "1 \<le> v"
    "v \<le> doc_RunVersion d" "decode_ExtractJob (payload_at \<sigma> k) = Inr \<lparr>ej_DocumentID = i, ej_RunVersion = v\<rparr>"
proof -
  have "msg_ok (db \<sigma>) (mlog \<sigma> ! k)" using sys_invD(2) [OF inv] k by simp
  with st obtain i v d where m: "mlog \<sigma> ! k = extract_message i v" "documents (tbl (db \<sigma>)) i = Some d" "1 \<le> v"
    "v \<le> doc_RunVersion d" unfolding msg_ok_def by auto
  moreover from db_inv_doc [OF sys_invD(1) [OF inv] m(2)]
  have "decode_ExtractJob (payload_at \<sigma> k) = Inr \<lparr>ej_DocumentID = i, ej_RunVersion = v\<rparr>"
    using extract_message_decode [of i v "doc_RunVersion d"] m by (simp add: payload_at_def doc_ok_def)
  ultimately show thesis by (rule that)
qed

lemma classify_payload:
  assumes inv: "sys_inv \<sigma>" and k: "k < length (mlog \<sigma>)" and st: "fst (mlog \<sigma> ! k) = StreamClassify"
  obtains j i v d where "mlog \<sigma> ! k = classify_message j i v"
    "decode_ClassifyJob (payload_at \<sigma> k) = Inr \<lparr>cj_TokenID = j, cj_DocumentID = i, cj_RunVersion = v\<rparr>"
    "documents (tbl (db \<sigma>)) i = Some d" "v \<le> doc_RunVersion d" "id_taken j i v (db \<sigma>)"
proof -
  have "msg_ok (db \<sigma>) (mlog \<sigma> ! k)" using sys_invD(2) [OF inv] k by simp
  with st obtain j i v d where m: "mlog \<sigma> ! k = classify_message j i v"
    "wf_ClassifyJob \<lparr>cj_TokenID = j, cj_DocumentID = i, cj_RunVersion = v\<rparr>"
    "documents (tbl (db \<sigma>)) i = Some d" "v \<le> doc_RunVersion d" "id_taken j i v (db \<sigma>)" unfolding msg_ok_def by auto
  then show thesis using classify_message_decode [OF m(2)] by (intro that [of j i v d]) (simp_all add: payload_at_def)
qed

text \<open>Messages name their work: the payload determines document and run, or token and run.\<close>

lemma needed_extract:
  assumes inv: "db_inv s" and n: "needed s (extract_message i v)"
    and d: "documents (tbl s) i = Some d" and v: "1 \<le> v" "v \<le> u" "int4_ok u"
  shows "open_doc d \<and> doc_RunVersion d = v"
proof -
  from n obtain j e where j: "documents (tbl s) j = Some e" "open_doc e" "extract_message i v = extract_message j (doc_RunVersion e)"
    unfolding needed_def token_message_def by auto
  have "text_ok i" using db_inv_doc [OF inv d] by (simp add: doc_ok_def)
  moreover have "text_ok j" "1 \<le> doc_RunVersion e" "int4_ok (doc_RunVersion e)"
    using db_inv_doc [OF inv j(1)] by (simp_all add: doc_ok_def)
  ultimately have "decode_ExtractJob (msg_Payload (snd (extract_message i v))) = Inr \<lparr>ej_DocumentID = i, ej_RunVersion = v\<rparr>"
    and "decode_ExtractJob (msg_Payload (snd (extract_message j (doc_RunVersion e)))) =
      Inr \<lparr>ej_DocumentID = j, ej_RunVersion = doc_RunVersion e\<rparr>"
    using v by (intro extract_message_decode; simp)+
  then have "i = j \<and> v = doc_RunVersion e" unfolding j(3) by simp
  with j d show ?thesis by simp
qed

lemma needed_classify:
  assumes inv: "db_inv s" and n: "needed s (classify_message k i v)"
    and dec: "decode_ClassifyJob (msg_Payload (snd (classify_message k i v))) = Inr \<lparr>cj_TokenID = k, cj_DocumentID = i, cj_RunVersion = v\<rparr>"
  shows "\<exists>t \<in> set (tokens (tbl s)). unclassified t \<and> tok_ID t = k \<and> tok_RunVersion t = v"
proof -
  have "classify_message k i v \<noteq> extract_message j u" for j u
    using messages_differ(1) [of j u k i v] by (rule not_sym)
  with n obtain t where t: "t \<in> set (tokens (tbl s))" "unclassified t"
    "classify_message k i v = token_message t" unfolding needed_def by blast
  from db_inv_token [OF inv t(1)] obtain d where d: "documents (tbl s) (tok_DocumentID t) = Some d"
      "tok_RunVersion t = doc_RunVersion d" "int8_ok (tok_ID t)" by (auto simp: token_ok_def)
  with db_inv_doc [OF inv d(1)] have "wf_ClassifyJob \<lparr>cj_TokenID = tok_ID t, cj_DocumentID = tok_DocumentID t, cj_RunVersion = tok_RunVersion t\<rparr>"
    by (auto simp: wf_ClassifyJob_def doc_ok_def text_ok_def int4_ok_def int8_ok_def)
  from classify_message_decode [OF this] dec t show ?thesis by (auto simp: token_message_def)
qed

section \<open>Every step keeps the invariant\<close>

text \<open>The units of work evolve the database and keep its invariant.\<close>

lemma unit_evolves:
  assumes "keeps quiet fn" and "\<And>s x s'. db_inv s \<Longrightarrow> fn s = (Inr x, s') \<Longrightarrow> evolves s s'"
    and "\<And>x s s'. db_inv s \<Longrightarrow> fn s = (Inr x, s') \<Longrightarrow> db_inv s'"
    and "db_inv s" and "WithinTx fn s = (r, s')"
  shows "evolves s s' \<and> db_inv s'"
  using evolves_WithinTx [OF assms(1,2,4,5)] WithinTx_inv [OF assms(1,3,4)] assms(5) by simp

lemma evolves_claim: "db_inv s \<Longrightarrow> claim i s = (r, s') \<Longrightarrow> evolves s s' \<and> db_inv s'"
  unfolding claim_def by (rule unit_evolves [OF keeps_extraction(1) evolves_claim_body claim_body_inv])

lemma evolves_persist: "db_inv s \<Longrightarrow> persist doc es s = (r, s') \<Longrightarrow> evolves s s' \<and> db_inv s'"
  unfolding persist_def by (rule unit_evolves [OF keeps_extraction(2) evolves_persist_body persist_body_inv])

lemma evolves_apply: "db_inv s \<Longrightarrow> apply_result k v c s = (r, s') \<Longrightarrow> evolves s s' \<and> db_inv s'"
  unfolding apply_result_def by (rule unit_evolves [OF keeps_apply evolves_apply_body apply_body_inv])

lemma evolves_Submit:
  assumes "db_inv s" and "Submit i x mode s = (r, s')"
  shows "evolves s s' \<and> db_inv s'"
proof -
  obtain q where q: "WithinTx (Submit_body i x mode) s = (q, s')"
    using assms(2) by (auto simp: Submit_def tx_wrap_def split: prod.splits sum.splits)
  show ?thesis
    by (rule unit_evolves [OF keeps_Submit(2) _ _ assms(1) q])
      (rule evolves_Submit_body Submit_body_inv; assumption)+
qed

text \<open>What the tables look like after a unit of work that returned, or whose error is dropped.\<close>

lemma dropped_rolled_back:
  assumes "WithinTx fn s = (Inl e, s')" and "delivery (Inl e) = None"
  obtains s0 s1 where "tbl s' = tbl s" "tbl s0 = tbl s" "same_frame s s0" "fn s0 = (Inl e, s1)"
proof -
  have e: "e \<noteq> ErrDB" using assms(2) by (auto simp: delivery_None)
  then have "tbl s' = tbl s" using uow.rolled_back_or_done [OF assms(1)] by auto
  with uow.error_from [OF assms(1)] e show thesis using that by blast
qed

lemma returned_ran:
  assumes "WithinTx fn s = (Inr x, s')"
  obtains s0 s1 where "tbl s0 = tbl s" "same_frame s s0" "fn s0 = (Inr x, s1)" "tbl s' = tbl s1"
  using uow.success [OF assms] unfolding ran_def by blast

lemma needed_tbl: "tbl s' = tbl s \<Longrightarrow> needed s' p = needed s p"
  by (simp add: needed_def)

lemma claim_step:
  assumes inv: "sys_inv \<sigma>" and w: "workers \<sigma> w = EGot k"
    and dec: "decode_ExtractJob (payload_at \<sigma> k) = Inr job"
    and c: "claim (ej_DocumentID job) (db \<sigma>) = (r, s')"
  shows "sys_inv (at_worker (at_db \<sigma> s') w (after_claim k r))"
proof -
  let ?\<tau> = "at_db \<sigma> s'"
  have ev: "evolves (db \<sigma>) s'" and db': "db_inv s'" using evolves_claim [OF sys_invD(1) [OF inv] c] by auto
  have \<tau>: "sys_inv ?\<tau>" by (rule sys_inv_evolves [OF inv ev db'])
  have k: "k < length (mlog \<sigma>)" "fst (mlog \<sigma> ! k) = StreamExtract"
    using sys_invD(4) [OF inv, of w] w by (simp_all add: phase_ok_def)
  from extract_payload [OF inv k] obtain i v d where m: "mlog \<sigma> ! k = extract_message i v"
    "documents (tbl (db \<sigma>)) i = Some d" "1 \<le> v" "v \<le> doc_RunVersion d" "job = \<lparr>ej_DocumentID = i, ej_RunVersion = v\<rparr>"
    using dec by auto
  have k': "k < length (broker_log s')" "broker_log s' ! k = extract_message i v"
    using ev prefix_nth [of "mlog \<sigma>" "broker_log s'" k] k m(1) by (auto simp: evolves_def)
  show ?thesis
  proof (cases r)
    case (Inl e)
    have "\<not> delivery (Inl e) = None"
    proof
      assume "delivery (Inl e) = None"
      with c [unfolded claim_def Inl] obtain s0 s1 where "tbl s0 = tbl (db \<sigma>)" "claim_body (ej_DocumentID job) s0 = (Inl e, s1)"
        by (rule dropped_rolled_back)
      from claim_body_dropped [OF this(2) \<open>delivery (Inl e) = None\<close>] this(1) m show False by simp
    qed
    then show ?thesis using Inl by (auto simp: after_claim_def settle_unit phase_ok_def intro: sys_inv_worker [OF \<tau>])
  next
    case (Inr doc)
    from c [unfolded claim_def Inr] obtain s0 s1 where s01: "tbl s0 = tbl (db \<sigma>)"
      "claim_body (ej_DocumentID job) s0 = (Inr doc, s1)" "tbl s' = tbl s1" by (rule returned_ran)
    from claim_body_succ [OF s01(2)] m s01(1,3) obtain d' where d': "documents (tbl s') i = Some d'"
      "doc_RunVersion d' = doc_RunVersion d" "doc_RunVersion doc = doc_RunVersion d" "doc_ID doc = doc_ID d"
      "extraction_over doc \<Longrightarrow> doc_Status d' = doc_Status doc"
      by (auto simp: extraction_over_def split: if_splits)
    have id: "doc_ID d = i" "int4_ok (doc_RunVersion d)"
      using db_inv_doc [OF sys_invD(1) [OF inv] m(2)] by (simp_all add: doc_ok_def)
    show ?thesis
    proof (cases "extraction_over doc")
      case True
      then have "\<not> open_doc d'" using d'(5) by (auto simp: open_doc_def extraction_over_def)
      then have "\<not> needed s' (extract_message i v)" using needed_extract [OF db' _ d'(1) m(3,4) id(2)] by blast
      with Inr True k' show ?thesis
        by (auto simp: after_claim_def phase_ok_def intro!: sys_inv_worker [OF \<tau>])
    next
      case False
      have "phase_ok ?\<tau> (EClaimed k doc)" using k' d' id m(3,4) by (auto simp: phase_ok_def)
      with Inr False show ?thesis by (auto simp: after_claim_def intro!: sys_inv_worker [OF \<tau>])
    qed
  qed
qed

lemma persist_step:
  assumes inv: "sys_inv \<sigma>" and w: "workers \<sigma> w = EClaimed k doc"
    and p: "persist doc es (db \<sigma>) = (r, s')"
  shows "sys_inv (at_worker (at_db \<sigma> s') w (settle k r))"
proof -
  let ?\<tau> = "at_db \<sigma> s'"
  have ev: "evolves (db \<sigma>) s'" and db': "db_inv s'" using evolves_persist [OF sys_invD(1) [OF inv] p] by auto
  have \<tau>: "sys_inv ?\<tau>" by (rule sys_inv_evolves [OF inv ev db'])
  from sys_invD(4) [OF inv, of w] w obtain v d where k: "k < length (mlog \<sigma>)"
    and m: "mlog \<sigma> ! k = extract_message (doc_ID doc) v" "1 \<le> v" "v \<le> doc_RunVersion doc"
      "documents (tbl (db \<sigma>)) (doc_ID doc) = Some d" "doc_RunVersion doc \<le> doc_RunVersion d"
    by (auto simp: phase_ok_def)
  have k': "k < length (broker_log s')" "broker_log s' ! k = extract_message (doc_ID doc) v"
    using ev prefix_nth [of "mlog \<sigma>" "broker_log s'" k] k m(1) by (auto simp: evolves_def)
  have i4: "int4_ok (doc_RunVersion d)" using db_inv_doc [OF sys_invD(1) [OF inv] m(4)] by (simp add: doc_ok_def)
  have v: "v \<le> doc_RunVersion d" using m by simp
  have "\<not> needed s' (extract_message (doc_ID doc) v)" if "settle k r = Handled k"
  proof (cases r)
    case (Inl e)
    with that have dr: "delivery (Inl e) = None" by (auto simp: settle_unit split: if_splits)
    from p [unfolded persist_def Inl] dr obtain s0 s1 where s01: "tbl s' = tbl (db \<sigma>)" "tbl s0 = tbl (db \<sigma>)"
      "persist_body doc es s0 = (Inl e, s1)" by (rule dropped_rolled_back)
    from persist_body_dropped [OF s01(3) dr, of d] s01 m have "doc_RunVersion d \<noteq> doc_RunVersion doc" by simp
    with m(3,5) needed_extract [OF sys_invD(1) [OF inv] _ m(4,2) v i4] show ?thesis
      using s01(1) needed_tbl [of s' "db \<sigma>"] by auto
  next
    case (Inr n)
    from p [unfolded persist_def Inr] obtain s0 s1 where s01: "tbl s0 = tbl (db \<sigma>)"
      "persist_body doc es s0 = (Inr n, s1)" "tbl s' = tbl s1" by (rule returned_ran)
    from persist_body_succ [OF s01(2)] s01(1,3) m(4)
    have "documents (tbl s') (doc_ID doc) = Some (persisted_row n (now s0) d)"
      by (auto simp: upserted_def doc_updated_def enqueued_def)
    from needed_extract [OF db' _ this m(2) v i4] show ?thesis by auto
  qed
  moreover have "settle k r = Handled k \<or> settle k r = Idle" by (simp add: settle_def)
  ultimately show ?thesis
    using k' by (intro sys_inv_worker [OF \<tau>]) (auto simp: phase_ok_def)
qed

lemma token_by_id:
  assumes "db_inv s" and "filter (\<lambda>t. tok_ID t = j) (tokens (tbl s)) = [tok]" and "t \<in> set (tokens (tbl s))" and "tok_ID t = j"
  shows "t = tok"
proof -
  have "t \<in> set (filter (\<lambda>t. tok_ID t = j) (tokens (tbl s)))" using assms(3,4) by simp
  then show ?thesis unfolding assms(2) by simp
qed

lemma check_step:
  assumes inv: "sys_inv \<sigma>" and w: "workers \<sigma> w = CGot k"
    and dec: "decode_ClassifyJob (payload_at \<sigma> k) = Inr job"
    and c: "GetToken (cj_TokenID job) (db \<sigma>) = (r, s')"
  shows "sys_inv (at_worker (at_db \<sigma> s') w (after_check k r))"
proof -
  let ?\<tau> = "at_db \<sigma> s'"
  have same: "tbl s' = tbl (db \<sigma>)" using c by (auto simp: GetToken_def stmt_def split: if_splits sum.splits)
  have quiet: "quiet (db \<sigma>) s'" using keepsD [OF keeps_tokens(2) c] .
  have ev: "evolves (db \<sigma>) s'"
    by (rule evolves_same [OF same]) (use quiet in \<open>simp_all add: quiet_def seqs_grow_def\<close>)
  have db': "db_inv s'" using db_inv_frame [OF sys_invD(1) [OF inv] same] quiet by (simp add: quiet_def)
  have \<tau>: "sys_inv ?\<tau>" by (rule sys_inv_evolves [OF inv ev db'])
  have k: "k < length (mlog \<sigma>)" "fst (mlog \<sigma> ! k) = StreamClassify"
    using sys_invD(4) [OF inv, of w] w by (simp_all add: phase_ok_def)
  have k': "k < length (broker_log s')" "broker_log s' ! k = mlog \<sigma> ! k"
    using k quiet by (simp_all add: quiet_def)
  from classify_payload [OF inv k] obtain j i v where "mlog \<sigma> ! k = classify_message j i v"
    "decode_ClassifyJob (payload_at \<sigma> k) = Inr \<lparr>cj_TokenID = j, cj_DocumentID = i, cj_RunVersion = v\<rparr>" by blast
  then have m: "mlog \<sigma> ! k = classify_message j i v"
    "decode_ClassifyJob (msg_Payload (snd (classify_message j i v))) = Inr \<lparr>cj_TokenID = j, cj_DocumentID = i, cj_RunVersion = v\<rparr>"
    "cj_TokenID job = j"
    using dec by (auto simp: payload_at_def)
  have "\<not> needed s' (classify_message j i v)" if "after_check k r = Handled k"
  proof
    assume "needed s' (classify_message j i v)"
    from needed_classify [OF db' this m(2)] obtain t where t: "t \<in> set (tokens (tbl (db \<sigma>)))" "unclassified t" "tok_ID t = j"
      using same by auto
    show False
    proof (cases r)
      case (Inl e)
      with that GetToken_dropped [OF sys_invD(1) [OF inv], of j e s' t] c m(3) t show False
        by (auto simp: after_check_def settle_unit split: if_splits)
    next
      case (Inr tok)
      with that c m(3) have "tok_Status tok = TokenClassified" "filter (\<lambda>t. tok_ID t = j) (tokens (tbl (db \<sigma>))) = [tok]"
        by (auto simp: after_check_def tx_succ split: if_splits)
      with token_by_id [OF sys_invD(1) [OF inv] _ t(1,3)] t(2) show False by (auto simp: unclassified_def)
    qed
  qed
  moreover have "after_check k r \<in> {Handled k, Idle, CChecked k}"
    by (auto simp: after_check_def settle_def split: sum.split)
  ultimately show ?thesis
    using k k' m(1) by (intro sys_inv_worker [OF \<tau>]) (auto simp: phase_ok_def)
qed

lemma apply_step:
  assumes inv: "sys_inv \<sigma>" and w: "workers \<sigma> w = CChecked k"
    and dec: "decode_ClassifyJob (payload_at \<sigma> k) = Inr job"
    and a: "apply_result (cj_TokenID job) (cj_RunVersion job) c (db \<sigma>) = (r, s')"
  shows "sys_inv (at_worker (at_db \<sigma> s') w (settle k r))"
proof -
  let ?\<tau> = "at_db \<sigma> s'"
  have ev: "evolves (db \<sigma>) s'" and db': "db_inv s'" using evolves_apply [OF sys_invD(1) [OF inv] a] by auto
  have \<tau>: "sys_inv ?\<tau>" by (rule sys_inv_evolves [OF inv ev db'])
  have k: "k < length (mlog \<sigma>)" "fst (mlog \<sigma> ! k) = StreamClassify"
    using sys_invD(4) [OF inv, of w] w by (simp_all add: phase_ok_def)
  from classify_payload [OF inv k] obtain j i v where "mlog \<sigma> ! k = classify_message j i v"
    "decode_ClassifyJob (payload_at \<sigma> k) = Inr \<lparr>cj_TokenID = j, cj_DocumentID = i, cj_RunVersion = v\<rparr>" by blast
  then have m: "mlog \<sigma> ! k = classify_message j i v"
    "decode_ClassifyJob (msg_Payload (snd (classify_message j i v))) = Inr \<lparr>cj_TokenID = j, cj_DocumentID = i, cj_RunVersion = v\<rparr>"
    "cj_TokenID job = j" "cj_RunVersion job = v"
    using dec by (auto simp: payload_at_def)
  have k': "k < length (broker_log s')" "broker_log s' ! k = classify_message j i v"
    using ev prefix_nth [of "mlog \<sigma>" "broker_log s'" k] k m(1) by (auto simp: evolves_def)
  have "\<not> needed s' (classify_message j i v)" if "settle k r = Handled k"
  proof
    assume "needed s' (classify_message j i v)"
    from needed_classify [OF db' this m(2)] obtain t where t: "t \<in> set (tokens (tbl s'))" "unclassified t"
      "tok_ID t = j" "tok_RunVersion t = v" by auto
    show False
    proof (cases r)
      case (Inl e)
      with that have dr: "delivery (Inl e) = None" by (auto simp: settle_unit split: if_splits)
      from a [unfolded apply_result_def Inl] dr obtain s0 s1 where s01: "tbl s' = tbl (db \<sigma>)" "tbl s0 = tbl (db \<sigma>)"
        "same_frame (db \<sigma>) s0" "apply_body (cj_TokenID job) (cj_RunVersion job) c s0 = (Inl e, s1)" by (rule dropped_rolled_back)
      have "db_inv s0" using db_inv_frame [OF sys_invD(1) [OF inv] s01(2) same_frame_grow [OF s01(3)]] .
      from apply_body_dropped [OF this s01(4) dr, of t] s01 t m(3,4) show False by simp
    next
      case (Inr u)
      from a [unfolded apply_result_def Inr] obtain s0 s1 where s01: "tbl s0 = tbl (db \<sigma>)" "same_frame (db \<sigma>) s0"
        "apply_body j v c s0 = (Inr u, s1)" "tbl s' = tbl s1" unfolding m(3,4) by (rule returned_ran)
      have inv0: "db_inv s0" using db_inv_frame [OF sys_invD(1) [OF inv] s01(1) same_frame_grow [OF s01(2)]] .
      from s01(3) show False
      proof (cases rule: apply_body_cases)
        case (already tok)
        with token_by_id [OF inv0 already(1)] s01(4) t show False by (auto simp: unclassified_def)
      next
        case (classified tok d)
        with s01(4) t(1) have "t \<in> (\<lambda>t. if tok_ID t = j then classify_row c (now s0) t else t) ` set (tokens (tbl s0))"
          by simp
        then obtain t0 where "t = (if tok_ID t0 = j then classify_row c (now s0) t0 else t0)" by blast
        with t(2,3) show False by (simp add: unclassified_def split: if_splits)
      qed
    qed
  qed
  moreover have "settle k r = Handled k \<or> settle k r = Idle" by (simp add: settle_def)
  ultimately show ?thesis
    using k' by (intro sys_inv_worker [OF \<tau>]) (auto simp: phase_ok_def)
qed

lemma sys_step_inv: "sys_step \<sigma> \<tau> \<Longrightarrow> sys_inv \<sigma> \<Longrightarrow> sys_inv \<tau>"
proof (induction rule: sys_step.induct)
  case (submit i x mode \<sigma> r s')
  then show ?case using evolves_Submit sys_inv_evolves sys_invD(1) by blast
next
  case (mark_failed i \<sigma> r s')
  then show ?case using evolves_MarkFailed MarkFailed_inv [OF sys_invD(1), of \<sigma> i] sys_inv_evolves by fastforce
next
  case (relay locked \<sigma> r s')
  then show ?case
    using evolves_drainBatch [OF sys_invD(1)] drainBatch_inv [OF sys_invD(1), of \<sigma> locked relay_batch] sys_inv_evolves
    by fastforce
next
  case (environment \<sigma> t fs)
  have "db_inv ((db \<sigma>)\<lparr>now := t, faults := fs\<rparr>)"
    using sys_invD(1) [OF environment(2)] by (simp add: db_inv_defs)
  then show ?case by (intro sys_inv_evolves [OF environment(2)] evolves_same) simp_all
next
  case (extract_poison \<sigma> w k e)
  then show ?case
    using extract_payload [of \<sigma> k] sys_invD(4) [of \<sigma> w] by (fastforce simp: phase_ok_def)
next
  case (classify_poison \<sigma> w k e)
  then show ?case
    using classify_payload [of \<sigma> k] sys_invD(4) [of \<sigma> w] by (fastforce simp: phase_ok_def)
next
  case (claim_doc \<sigma> w k job r s')
  then show ?case by (intro claim_step)
next
  case (persist_doc \<sigma> w k doc es r s')
  then show ?case by (intro persist_step)
next
  case (check_token \<sigma> w k job r s')
  then show ?case by (intro check_step)
next
  case (apply_token \<sigma> w k job c r s')
  then show ?case by (intro apply_step)
next
  case (ack \<sigma> w k)
  then show ?case by (intro sys_inv_ack)
qed (auto simp: phase_ok_def intro!: sys_inv_worker)

lemma reachable_inv: "reachable \<sigma> \<Longrightarrow> sys_inv \<sigma>"
  by (induction rule: reachable.induct) (auto intro: init_inv sys_step_inv)

section \<open>Properties\<close>

text \<open>
  C1. No work is ever lost. In every reachable state, whatever crashes, failed statements, lost
  commits, failed or repeated deliveries led to it: a document that is still to be extracted
  (\<^verbatim>\<open>PENDING\<close> or \<^verbatim>\<open>EXTRACTING\<close>) has an extract job for its current run, and a token that is not
  classified has a classify job for it, in the outbox or in the broker, not acknowledged and
  not about to be acknowledged by a worker.
\<close>

theorem no_lost_work:
  assumes "reachable \<sigma>"
  shows "(\<forall>i d. documents (tbl (db \<sigma>)) i = Some d \<and> (doc_Status d = DocPending \<or> doc_Status d = DocExtracting) \<longrightarrow>
            awaiting \<sigma> (extract_message i (doc_RunVersion d))) \<and>
         (\<forall>t \<in> set (tokens (tbl (db \<sigma>))). tok_Status t \<noteq> TokenClassified \<longrightarrow>
            awaiting \<sigma> (classify_message (tok_ID t) (tok_DocumentID t) (tok_RunVersion t)))"
  using sys_invD(5) [OF reachable_inv [OF assms]]
  unfolding needed_def open_doc_def unclassified_def token_message_def by blast

definition start_sys :: "fault list \<Rightarrow> sys" where
  "start_sys fs = \<lparr>db = empty_db 5 fs, acked = {}, workers = (\<lambda>_. Idle)\<rparr>"

lemma start_reachable: "reachable (start_sys fs)"
  by (intro start) (auto simp: init_sys_def start_sys_def)

definition submitted_sys :: "fault list \<Rightarrow> sys" where
  "submitted_sys fs = at_db (start_sys fs) (snd (Submit ''d'' ''x'' RerunPartial (db (start_sys fs))))"

lemma submitted_reachable: "reachable (submitted_sys fs)"
  unfolding submitted_sys_def
  by (rule next_step [OF start_reachable]) (rule submit [OF surjective_pairing])

lemma no_lost_work_witness:
  "awaiting (submitted_sys [OK, OK, OK, OK, OK, FailAfter]) (extract_message ''d'' 1)"
proof -
  let ?\<sigma> = "submitted_sys [OK, OK, OK, OK, OK, FailAfter]"
  have "documents (tbl (db ?\<sigma>)) ''d'' = Some (new_document ''d'' ''x'' 5)"
    by (simp add: submitted_sys_def start_sys_def submit_eval text_ok_samples new_document_def)
  with no_lost_work [OF submitted_reachable, of "[OK, OK, OK, OK, OK, FailAfter]", THEN conjunct1,
      rule_format, of "''d''" "new_document ''d'' ''x'' 5"]
  show ?thesis by (simp add: new_document_def)
qed

text \<open>
  C2. When the pipeline is quiet, it is done: in every reachable state whose outbox is empty and
  whose published messages are all acknowledged, no document is waiting for extraction, every
  token is classified, and every document's counters are equal to its number of tokens.
\<close>

theorem quiet_means_done:
  assumes "reachable \<sigma>" and "outbox (tbl (db \<sigma>)) = []" and "\<forall>k < length (mlog \<sigma>). k \<in> acked \<sigma>"
  shows "(\<forall>t \<in> set (tokens (tbl (db \<sigma>))). tok_Status t = TokenClassified) \<and>
         (\<forall>i d. documents (tbl (db \<sigma>)) i = Some d \<longrightarrow>
            doc_Status d \<in> {DocClassifying, DocCompleted, DocFailed} \<and>
            doc_TotalTokens d = int (length (tokens_of i (tokens (tbl (db \<sigma>))))) \<and>
            doc_ClassifiedCount d = doc_TotalTokens d)"
proof -
  note inv = reachable_inv [OF assms(1)]
  have none: "\<not> awaiting \<sigma> p" for p using assms(2,3) by (auto simp: awaiting_def outbox_messages_def)
  have cl: "tok_Status t = TokenClassified" if "t \<in> set (tokens (tbl (db \<sigma>)))" for t
    using sys_invD(5) [OF inv, of "token_message t"] none that unfolding needed_def unclassified_def by blast
  moreover have "doc_Status d \<in> {DocClassifying, DocCompleted, DocFailed} \<and>
      doc_TotalTokens d = int (length (tokens_of i (tokens (tbl (db \<sigma>))))) \<and> doc_ClassifiedCount d = doc_TotalTokens d"
    if d: "documents (tbl (db \<sigma>)) i = Some d" for i d
  proof -
    have "\<not> open_doc d"
      using sys_invD(5) [OF inv, of "extract_message i (doc_RunVersion d)"] none d unfolding needed_def by blast
    moreover have "filter classified (tokens_of i (tokens (tbl (db \<sigma>)))) = tokens_of i (tokens (tbl (db \<sigma>)))"
      using cl by (intro filter_True) (auto simp: tokens_of_def classified_def)
    ultimately show ?thesis
      using db_inv_doc [OF sys_invD(1) [OF inv] d] by (auto simp: doc_ok_def open_doc_def DocStatus_Valid_def)
  qed
  ultimately show ?thesis by blast
qed

text \<open>
  C6. Fencing: in every reachable state, every token belongs to an existing document and to its
  current run; no token of a superseded run survives, however late its worker was. Every
  message ever published is on one of the two streams and well formed, so that no handler drops
  one as undecodable, and names an existing document and a run of it no newer than the current
  one.
\<close>

theorem only_current_run:
  assumes "reachable \<sigma>"
  shows "(\<forall>t \<in> set (tokens (tbl (db \<sigma>))).
            \<exists>d. documents (tbl (db \<sigma>)) (tok_DocumentID t) = Some d \<and> tok_RunVersion t = doc_RunVersion d) \<and>
         (\<forall>k < length (mlog \<sigma>). fst (mlog \<sigma> ! k) = StreamExtract \<longrightarrow>
            (\<exists>job d. decode_ExtractJob (payload_at \<sigma> k) = Inr job \<and>
               documents (tbl (db \<sigma>)) (ej_DocumentID job) = Some d \<and> ej_RunVersion job \<le> doc_RunVersion d)) \<and>
         (\<forall>k < length (mlog \<sigma>). fst (mlog \<sigma> ! k) \<noteq> StreamExtract \<longrightarrow>
            (\<exists>job d. fst (mlog \<sigma> ! k) = StreamClassify \<and> decode_ClassifyJob (payload_at \<sigma> k) = Inr job \<and>
               documents (tbl (db \<sigma>)) (cj_DocumentID job) = Some d \<and> cj_RunVersion job \<le> doc_RunVersion d))"
proof (intro conjI allI ballI impI)
  note inv = reachable_inv [OF assms]
  show "\<exists>d. documents (tbl (db \<sigma>)) (tok_DocumentID t) = Some d \<and> tok_RunVersion t = doc_RunVersion d"
    if "t \<in> set (tokens (tbl (db \<sigma>)))" for t
    using db_inv_token [OF sys_invD(1) [OF inv] that] by (simp add: token_ok_def)
  fix k
  assume k: "k < length (mlog \<sigma>)"
  show "\<exists>job d. decode_ExtractJob (payload_at \<sigma> k) = Inr job \<and>
      documents (tbl (db \<sigma>)) (ej_DocumentID job) = Some d \<and> ej_RunVersion job \<le> doc_RunVersion d"
    if st: "fst (mlog \<sigma> ! k) = StreamExtract"
  proof -
    obtain i v d where "documents (tbl (db \<sigma>)) i = Some d" "v \<le> doc_RunVersion d"
      "decode_ExtractJob (payload_at \<sigma> k) = Inr \<lparr>ej_DocumentID = i, ej_RunVersion = v\<rparr>"
      using extract_payload [OF inv k st] by blast
    then show ?thesis by simp
  qed
  show "\<exists>job d. fst (mlog \<sigma> ! k) = StreamClassify \<and> decode_ClassifyJob (payload_at \<sigma> k) = Inr job \<and>
      documents (tbl (db \<sigma>)) (cj_DocumentID job) = Some d \<and> cj_RunVersion job \<le> doc_RunVersion d"
    if st: "fst (mlog \<sigma> ! k) \<noteq> StreamExtract"
  proof -
    have "msg_ok (db \<sigma>) (mlog \<sigma> ! k)" using sys_invD(2) [OF inv] k by simp
    with st have cl: "fst (mlog \<sigma> ! k) = StreamClassify" unfolding msg_ok_def by auto
    show ?thesis
    proof (rule classify_payload [OF inv k cl])
      fix j i v d
      assume "decode_ClassifyJob (payload_at \<sigma> k) = Inr \<lparr>cj_TokenID = j, cj_DocumentID = i, cj_RunVersion = v\<rparr>"
        "documents (tbl (db \<sigma>)) i = Some d" "v \<le> doc_RunVersion d"
      with cl show ?thesis by simp
    qed
  qed
qed

end
