(* ===== verification/Scenario.thy ===== *)
theory Scenario
  imports No_Lost_Work
begin

text \<open>
  A concrete run of the whole system: one document, one token, two extraction workers that
  were both given the same message, and a clock that moves on between them. It ends in a
  quiet state, and shows what the second worker's late \<open>persist\<close> does to a document that was
  completed in the meantime.
\<close>

section \<open>The states of the run\<close>

definition x_entity :: Entity where
  "x_entity = \<lparr>ent_Text = ''x'', ent_Context = ''x'', ent_Position = \<lparr>Page = 1, Sentence = 0, CharOffset = 0\<rparr>\<rparr>"

definition x_class :: Classification where
  "x_class = \<lparr>cls_Category = CategoryUnknown, cls_Confidence = 1 / 2, cls_Reasoning = ''r''\<rparr>"

definition x_submitted :: Document where
  "x_submitted = new_document ''d'' ''x'' 5"

definition x_extracting :: Document where
  "x_extracting = x_submitted\<lparr>doc_Status := DocExtracting, ExtractionStartedAt := Some 5, doc_UpdatedAt := 5\<rparr>"

text \<open>What both workers hold after their claims.\<close>

definition x_claimed :: "bool \<Rightarrow> Document" where
  "x_claimed first = (if first then x_submitted\<lparr>doc_Status := DocExtracting\<rparr> else x_extracting)"

definition x_token :: Token where
  "x_token = new_token 1 ''d'' 1 5 x_entity"

definition x_world :: "Document \<Rightarrow> Token list \<Rightarrow> OutboxRow list \<Rightarrow> int \<Rightarrow> int \<Rightarrow> time \<Rightarrow> (string \<times> Message) list \<Rightarrow> pg" where
  "x_world d ts rows tseq oseq t lg = \<lparr>tbl = \<lparr>documents = [''d'' \<mapsto> d], tokens = ts, outbox = rows\<rparr>,
     tokens_id_seq = tseq, outbox_id_seq = oseq, now = t, faults = [], broker_log = lg\<rparr>"

definition x_extract_row :: OutboxRow where
  "x_extract_row = outbox_row 1 StreamExtract ''d'' (marshal_ExtractJob \<lparr>ej_DocumentID = ''d'', ej_RunVersion = 1\<rparr>)"

definition x_classify_row :: OutboxRow where
  "x_classify_row = outbox_row 2 StreamClassify (FormatInt 1)
     (marshal_ClassifyJob \<lparr>cj_TokenID = 1, cj_DocumentID = ''d'', cj_RunVersion = 1\<rparr>)"

lemma x_ok: "text_ok ''d''" "text_ok ''x''" "text_ok ''r''" "text_ok CategoryUnknown" "text_ok (FormatInt 1)"
  by code_simp+

lemma x_rows: "row_message x_extract_row = extract_message ''d'' 1"
  "row_message x_classify_row = classify_message 1 ''d'' 1"
  by (simp_all add: row_message_def x_extract_row_def x_classify_row_def extract_message_def classify_message_def)

section \<open>The database operations of the run\<close>

lemma x_submit:
  "snd (Submit ''d'' ''x'' RerunPartial (empty_db 5 [])) = x_world x_submitted [] [x_extract_row] 1 2 5 []"
  by (simp add: submit_eval x_ok new_document_def x_world_def x_submitted_def x_extract_row_def outbox_row_def)

lemma x_relay:
  assumes "row_message r = m"
  shows "\<exists>n. drainBatch {} relay_batch (x_world d ts [r] a b t lg) = (Inr n, x_world d ts [] a b t (lg @ [m]))"
  using assms
  by (auto simp: drainBatch_def drainBatch_body_def ClaimOutboxBatch_def relay_batch_def tx_eval Publish_def
      DeleteOutbox_def x_world_def row_message_def)

lemma x_claim1: "claim ''d'' (x_world x_submitted [] [] 1 2 5 lg) = (Inr (x_claimed True), x_world x_extracting [] [] 1 2 5 lg)"
  by (simp add: claim_def claim_body_def tx_eval GetDocumentForUpdate_def getDocumentTx_def x_ok x_world_def
      SetExtractionStarted_def x_extracting_def x_claimed_def x_submitted_def new_document_def)

lemma x_claim2: "claim ''d'' (x_world x_extracting [] [] 1 2 5 lg) = (Inr (x_claimed False), x_world x_extracting [] [] 1 2 5 lg)"
  by (simp add: claim_def claim_body_def tx_eval GetDocumentForUpdate_def getDocumentTx_def x_ok x_world_def
      x_extracting_def x_claimed_def)

lemma x_doc_sel: "doc_ID (x_claimed b) = ''d''" "doc_RunVersion (x_claimed b) = 1"
  "doc_RunVersion x_extracting = 1"
  by (simp_all add: x_claimed_def x_extracting_def x_submitted_def new_document_def)

lemma x_persist1:
  "\<exists>n. persist (x_claimed True) [x_entity] (x_world x_extracting [] [] 1 2 5 lg) =
     (Inr n, x_world (persisted_row 1 5 x_extracting) [x_token] [x_classify_row] 2 3 5 lg)"
  by (simp add: persist_def persist_body_def tx_eval GetDocumentForUpdate_def getDocumentTx_def x_ok x_world_def x_doc_sel
      insert_token_def CountTokens_def AdvanceToClassifying_def ListTokensForRun_def run_tokens_def x_token_def
      new_token_def x_entity_def EnqueueClassify_def EnqueueOutbox_def persisted_row_def x_classify_row_def
      outbox_row_def TokenPending_def TokenClassified_def)

definition x_completed :: Document where
  "x_completed = classified_row 5 (persisted_row 1 5 x_extracting)"

definition x_stuck :: Document where
  "x_stuck = persisted_row 1 9 x_completed"

definition x_done :: Token where
  "x_done = classify_row x_class 5 x_token"

lemma x_check: "GetToken 1 (x_world d [x_token] [] a b t lg) = (Inr x_token, x_world d [x_token] [] a b t lg)"
  by (simp add: GetToken_def tx_eval x_world_def x_token_def new_token_def)

lemma x_apply:
  "apply_result 1 1 x_class (x_world (persisted_row 1 5 x_extracting) [x_token] [] 2 3 5 lg) =
     (Inr (), x_world x_completed [x_done] [] 2 3 5 lg)"
  by (simp add: apply_result_def apply_body_def tx_eval GetTokenForUpdate_def GetDocumentForUpdate_def getDocumentTx_def
      x_ok x_world_def x_token_def new_token_def SetTokenClassified_def x_class_def IncrementClassifiedCount_def
      MarkDocumentCompleted_def x_completed_def x_done_def classified_row_def persisted_row_def x_extracting_def
      x_submitted_def new_document_def TokenPending_def TokenClassified_def)

lemma x_persist2:
  "\<exists>n. persist (x_claimed False) [x_entity] (x_world x_completed [x_done] [] 2 3 9 lg) =
     (Inr n, x_world x_stuck [x_done] [] 3 3 9 lg)"
  by (simp add: persist_def persist_body_def tx_eval GetDocumentForUpdate_def getDocumentTx_def x_ok x_world_def x_doc_sel
      insert_token_def CountTokens_def AdvanceToClassifying_def ListTokensForRun_def run_tokens_def x_token_def
      new_token_def x_entity_def x_done_def classify_row_def natural_key_def x_stuck_def x_completed_def
      classified_row_def persisted_row_def x_extracting_def x_submitted_def new_document_def)

section \<open>The run\<close>

definition x_sys :: "pg \<Rightarrow> nat set \<Rightarrow> phase \<Rightarrow> phase \<Rightarrow> phase \<Rightarrow> sys" where
  "x_sys s ak p0 p1 p2 = \<lparr>db = s, acked = ak, workers = (\<lambda>_. Idle)(5 := p0, 6 := p1, 7 := p2)\<rparr>"

lemma x_sys_sel [simp]:
  "db (x_sys s ak p0 p1 p2) = s" "acked (x_sys s ak p0 p1 p2) = ak"
  "workers (x_sys s ak p0 p1 p2) 5 = p0" "workers (x_sys s ak p0 p1 p2) 6 = p1" "workers (x_sys s ak p0 p1 p2) 7 = p2"
  "at_db (x_sys s ak p0 p1 p2) s' = x_sys s' ak p0 p1 p2"
  "at_worker (x_sys s ak p0 p1 p2) 5 p = x_sys s ak p p1 p2"
  "at_worker (x_sys s ak p0 p1 p2) 6 p = x_sys s ak p0 p p2"
  "at_worker (x_sys s ak p0 p1 p2) 7 p = x_sys s ak p0 p1 p"
  "(x_sys s ak p0 p1 p2)\<lparr>acked := ak'\<rparr> = x_sys s ak' p0 p1 p2"
  by (auto simp: x_sys_def at_db_def at_worker_def fun_eq_iff)

lemma x_world_log [simp]: "broker_log (x_world d ts rows a b t lg) = lg" "now (x_world d ts rows a b t lg) = t"
  "(x_world d ts rows a b t lg)\<lparr>now := t', faults := []\<rparr> = x_world d ts rows a b t' lg"
  by (simp_all add: x_world_def)

abbreviation x_log1 :: "(string \<times> Message) list" where
  "x_log1 \<equiv> [extract_message ''d'' 1]"

abbreviation x_log2 :: "(string \<times> Message) list" where
  "x_log2 \<equiv> [extract_message ''d'' 1, classify_message 1 ''d'' 1]"

lemma x_payloads:
  "decode_ExtractJob (msg_Payload (snd (extract_message ''d'' 1))) = Inr \<lparr>ej_DocumentID = ''d'', ej_RunVersion = 1\<rparr>"
  "decode_ClassifyJob (msg_Payload (snd (classify_message 1 ''d'' 1))) = Inr \<lparr>cj_TokenID = 1, cj_DocumentID = ''d'', cj_RunVersion = 1\<rparr>"
proof -
  show "decode_ExtractJob (msg_Payload (snd (extract_message ''d'' 1))) = Inr \<lparr>ej_DocumentID = ''d'', ej_RunVersion = 1\<rparr>"
    by (rule extract_message_decode [of _ 1 1]) (simp_all add: x_ok int4_ok_def)
  show "decode_ClassifyJob (msg_Payload (snd (classify_message 1 ''d'' 1))) = Inr \<lparr>cj_TokenID = 1, cj_DocumentID = ''d'', cj_RunVersion = 1\<rparr>"
    by (rule classify_message_decode) (use x_ok(1) in \<open>simp add: wf_ClassifyJob_def int8_ok_def text_ok_def\<close>)
qed

text \<open>The steps of the run, on states of this form.\<close>

lemma x_relay_step:
  assumes "reachable (x_sys (x_world d ts [r] a b t lg) ak p0 p1 p2)" and "row_message r = m"
  shows "reachable (x_sys (x_world d ts [] a b t (lg @ [m])) ak p0 p1 p2)"
proof -
  obtain n where "drainBatch {} relay_batch (x_world d ts [r] a b t lg) = (Inr n, x_world d ts [] a b t (lg @ [m]))"
    using x_relay [OF assms(2)] by blast
  then show ?thesis
    using next_step [OF assms(1) relay [of "{}" _ "Inr n" "x_world d ts [] a b t (lg @ [m])"]] by simp
qed

lemma x_claim_step:
  assumes "lg ! k = extract_message ''d'' 1" and "broker_log s = lg"
    and "claim ''d'' s = (Inr doc, s')" and "\<not> extraction_over doc"
  shows "reachable (x_sys s ak (EGot k) p1 p2) \<Longrightarrow> reachable (x_sys s' ak (EClaimed k doc) p1 p2)"
    and "reachable (x_sys s ak p0 (EGot k) p2) \<Longrightarrow> reachable (x_sys s' ak p0 (EClaimed k doc) p2)"
  using assms x_payloads(1)
    next_step [OF _ claim_doc [of "x_sys s ak (EGot k) p1 p2" 5 k "\<lparr>ej_DocumentID = ''d'', ej_RunVersion = 1\<rparr>" "Inr doc" s']]
    next_step [OF _ claim_doc [of "x_sys s ak p0 (EGot k) p2" 6 k "\<lparr>ej_DocumentID = ''d'', ej_RunVersion = 1\<rparr>" "Inr doc" s']]
  by (simp_all add: payload_at_def after_claim_def)

lemma x_persist_step:
  assumes "\<exists>n. persist doc es s = (Inr n, s')"
  shows "reachable (x_sys s ak (EClaimed k doc) p1 p2) \<Longrightarrow> reachable (x_sys s' ak (Handled k) p1 p2)"
    and "reachable (x_sys s ak p0 (EClaimed k doc) p2) \<Longrightarrow> reachable (x_sys s' ak p0 (Handled k) p2)"
  using assms
    next_step [OF _ persist_doc [of "x_sys s ak (EClaimed k doc) p1 p2" 5 k doc es "Inr _" s']]
    next_step [OF _ persist_doc [of "x_sys s ak p0 (EClaimed k doc) p2" 6 k doc es "Inr _" s']]
  by (auto simp: settle_unit)

lemma x_classify_steps:
  assumes "reachable (x_sys s ak p0 p1 Idle)" and "k < length (broker_log s)" and "k \<notin> ak"
    and "broker_log s ! k = classify_message 1 ''d'' 1"
    and "GetToken 1 s = (Inr tok, s)" and "tok_Status tok \<noteq> TokenClassified"
    and "apply_result 1 1 c s = (Inr (), s')"
  shows "reachable (x_sys s' ak p0 p1 (Handled k))"
proof -
  let ?job = "\<lparr>cj_TokenID = 1, cj_DocumentID = ''d'', cj_RunVersion = 1\<rparr>"
  from assms(1-4) have "reachable (x_sys s ak p0 p1 (CGot k))"
    using next_step [OF assms(1) deliver_classify [of "x_sys s ak p0 p1 Idle" 7 k]] by simp
  with assms(4-6) x_payloads(2) have "reachable (x_sys s ak p0 p1 (CChecked k))"
    using next_step [OF _ check_token [of "x_sys s ak p0 p1 (CGot k)" 7 k ?job "Inr tok" s]]
    by (simp add: payload_at_def after_check_def)
  with assms(4,7) x_payloads(2) show ?thesis
    using next_step [OF _ apply_token [of "x_sys s ak p0 p1 (CChecked k)" 7 k ?job c "Inr ()" s']]
    by (simp add: payload_at_def settle_unit)
qed

lemma x_ack_step:
  "reachable (x_sys s ak (Handled k) p1 p2) \<Longrightarrow> reachable (x_sys s (insert k ak) Idle p1 p2)"
  "reachable (x_sys s ak p0 (Handled k) p2) \<Longrightarrow> reachable (x_sys s (insert k ak) p0 Idle p2)"
  "reachable (x_sys s ak p0 p1 (Handled k)) \<Longrightarrow> reachable (x_sys s (insert k ak) p0 p1 Idle)"
  using next_step [OF _ ack [of "x_sys s ak (Handled k) p1 p2" 5 k]]
    next_step [OF _ ack [of "x_sys s ak p0 (Handled k) p2" 6 k]]
    next_step [OF _ ack [of "x_sys s ak p0 p1 (Handled k)" 7 k]] by simp_all

lemma x_published: "reachable (x_sys (x_world x_submitted [] [] 1 2 5 x_log1) {} Idle Idle Idle)"
proof -
  let ?\<sigma> = "x_sys (empty_db 5 []) {} Idle Idle Idle"
  have "reachable ?\<sigma>"
    by (rule start) (auto simp: init_sys_def x_sys_def)
  from next_step [OF this submit [of "''d''" "''x''" RerunPartial ?\<sigma>, OF surjective_pairing]]
  have sub: "reachable (x_sys (x_world x_submitted [] [x_extract_row] 1 2 5 []) {} Idle Idle Idle)" by (simp add: x_submit)
  from x_relay_step [OF this x_rows(1)] show ?thesis by simp
qed

lemma x_both_claimed:
  "reachable (x_sys (x_world x_extracting [] [] 1 2 5 x_log1) {} (EClaimed 0 (x_claimed True)) (EClaimed 0 (x_claimed False)) Idle)"
proof -
  let ?s = "x_world x_submitted [] [] 1 2 5 x_log1"
  have "reachable (x_sys ?s {} (EGot 0) Idle Idle)"
    using next_step [OF x_published deliver_extract [of "x_sys ?s {} Idle Idle Idle" 5 0]] by simp
  from next_step [OF this deliver_extract [of "x_sys ?s {} (EGot 0) Idle Idle" 6 0]]
  have got: "reachable (x_sys ?s {} (EGot 0) (EGot 0) Idle)" by simp
  have over: "\<not> extraction_over (x_claimed b)" for b
    by (simp add: extraction_over_def x_claimed_def x_extracting_def)
  from x_claim_step(1) [OF _ _ x_claim1 over got]
  have "reachable (x_sys (x_world x_extracting [] [] 1 2 5 x_log1) {} (EClaimed 0 (x_claimed True)) (EGot 0) Idle)" by simp
  from x_claim_step(2) [OF _ _ x_claim2 over this] show ?thesis by simp
qed

lemma x_completed_reachable:
  "reachable (x_sys (x_world x_completed [x_done] [] 2 3 9 x_log2) {} (Handled 0) (EClaimed 0 (x_claimed False)) (Handled 1))"
proof -
  let ?w1 = "EClaimed 0 (x_claimed False)"
  let ?p = "persisted_row 1 5 x_extracting"
  from x_relay_step [OF x_persist_step(1) [OF x_persist1 x_both_claimed] x_rows(2)]
  have "reachable (x_sys (x_world ?p [x_token] [] 2 3 5 x_log2) {} (Handled 0) ?w1 Idle)" by simp
  from x_classify_steps [OF this, of 1 x_token x_class] x_check x_apply
  have "reachable (x_sys (x_world x_completed [x_done] [] 2 3 5 x_log2) {} (Handled 0) ?w1 (Handled 1))"
    by (simp add: x_token_def new_token_def)
  from next_step [OF this environment [of _ 9 "[]"]] show ?thesis by simp
qed

definition x_final :: sys where
  "x_final = x_sys (x_world x_stuck [x_done] [] 3 3 9 x_log2) {0, 1} Idle Idle Idle"

lemma x_final_reachable: "reachable x_final"
  using x_ack_step(3) [OF x_ack_step(2) [OF x_ack_step(1) [OF x_persist_step(2) [OF x_persist2 x_completed_reachable]]]]
  by (simp add: x_final_def insert_commute)

section \<open>Properties\<close>

lemma quiet_means_done_witness:
  "tok_Status x_done = TokenClassified \<and> doc_Status x_stuck \<in> {DocClassifying, DocCompleted, DocFailed} \<and>
   doc_TotalTokens x_stuck = int (length (tokens_of ''d'' [x_done])) \<and>
   doc_ClassifiedCount x_stuck = doc_TotalTokens x_stuck"
proof -
  have "outbox (tbl (db x_final)) = []" "\<forall>k < length (mlog x_final). k \<in> acked x_final"
    "tokens (tbl (db x_final)) = [x_done]" "documents (tbl (db x_final)) ''d'' = Some x_stuck"
    by (auto simp: x_final_def x_world_def less_Suc_eq numeral_2_eq_2)
  with quiet_means_done [OF x_final_reachable] show ?thesis by auto
qed

lemma only_current_run_witness:
  "(\<exists>job. decode_ClassifyJob (payload_at x_final 1) = Inr job) \<and>
   tok_DocumentID x_done = ''d'' \<and> tok_RunVersion x_done = doc_RunVersion x_stuck"
proof -
  have "1 < length (mlog x_final)" "fst (mlog x_final ! 1) \<noteq> StreamExtract" "tokens (tbl (db x_final)) = [x_done]"
    "documents (tbl (db x_final)) = [''d'' \<mapsto> x_stuck]"
    by (simp_all add: x_final_def x_world_def)
  moreover have "tok_DocumentID x_done = ''d''" by (simp add: x_done_def x_token_def new_token_def)
  ultimately show ?thesis using only_current_run [OF x_final_reachable] by auto
qed

text \<open>
  C17. A document can be left in \<^verbatim>\<open>CLASSIFYING\<close> for ever. \<open>persist\<close> checks the run version but not
  the status, so a second worker that was given the same extract message and persists after
  the document was completed moves it back. The state is reachable, every token is
  classified, no message is left anywhere and no worker is busy; the reported classification
  time is negative; and a further (partial) submission only enqueues an extract job that the
  worker drops without effect.
\<close>

theorem stuck_in_classifying:
  "\<exists>\<sigma> d. reachable \<sigma> \<and> documents (tbl (db \<sigma>)) ''d'' = Some d \<and> doc_Status d = DocClassifying \<and>
     (\<forall>t \<in> set (tokens (tbl (db \<sigma>))). tok_Status t = TokenClassified) \<and>
     outbox (tbl (db \<sigma>)) = [] \<and> (\<forall>k < length (mlog \<sigma>). k \<in> acked \<sigma>) \<and> (\<forall>w. workers \<sigma> w = Idle) \<and>
     snd (Durations d) < 0 \<and>
     (\<forall>extract s job. tbl s = tbl (db \<sigma>) \<and> faults s = [] \<and> ej_DocumentID job = ''d'' \<longrightarrow>
        tbl (snd (Process_extract extract job s)) = tbl (db \<sigma>))"
proof -
  have noop: "tbl (snd (Process_extract f job s)) = tbl s"
    if "tbl s = tbl (db x_final)" "faults s = []" "ej_DocumentID job = ''d''" for f s job
    using that
    by (simp add: Process_extract_def claim_def claim_body_def tx_eval GetDocumentForUpdate_def getDocumentTx_def
        x_ok x_final_def x_world_def x_stuck_def x_completed_def persisted_row_def classified_row_def
        extraction_over_def)
  have "documents (tbl (db x_final)) ''d'' = Some x_stuck" "outbox (tbl (db x_final)) = []"
    "tokens (tbl (db x_final)) = [x_done]" "mlog x_final = x_log2"
    by (simp_all add: x_final_def x_world_def)
  moreover have "doc_Status x_stuck = DocClassifying" "tok_Status x_done = TokenClassified" "snd (Durations x_stuck) < 0"
    by (simp_all add: x_stuck_def x_completed_def x_extracting_def x_submitted_def new_document_def
        persisted_row_def classified_row_def x_done_def classify_row_def Durations_def time_Sub_def)
  moreover have "\<forall>k < length (mlog x_final). k \<in> acked x_final"
    by (auto simp: x_final_def less_Suc_eq numeral_2_eq_2)
  moreover have "workers x_final w = Idle" for w by (simp add: x_final_def x_sys_def)
  ultimately show ?thesis using x_final_reachable noop by (intro exI [of _ x_final] exI [of _ x_stuck]) auto
qed

lemma stuck_in_classifying_witness:
  "\<exists>\<sigma> d. reachable \<sigma> \<and> documents (tbl (db \<sigma>)) ''d'' = Some d \<and> doc_Status d = DocClassifying \<and>
     tbl (snd (Process_extract (\<lambda>_. Inr []) \<lparr>ej_DocumentID = ''d'', ej_RunVersion = 1\<rparr> ((db \<sigma>)\<lparr>faults := []\<rparr>))) = tbl (db \<sigma>)"
proof -
  from stuck_in_classifying obtain \<sigma> d where "reachable \<sigma>" "documents (tbl (db \<sigma>)) ''d'' = Some d"
    "doc_Status d = DocClassifying"
    "\<And>f s job. tbl s = tbl (db \<sigma>) \<Longrightarrow> faults s = [] \<Longrightarrow> ej_DocumentID job = ''d'' \<Longrightarrow>
        tbl (snd (Process_extract f job s)) = tbl (db \<sigma>)" by blast
  then show ?thesis by (intro exI [of _ \<sigma>] exI [of _ d]) simp
qed

end
