(* ===== verification/Fencing.thy ===== *)
theory Fencing
  imports Scenario
begin

text \<open>
  Superseded work, in the running system: a message or a claim of a run that a full rerun has
  replaced can still be with a worker, and what that worker then does to the database.
\<close>

section \<open>A classification without its token\<close>

lemma apply_without_token:
  assumes none: "\<forall>t \<in> set (tokens (tbl s)). tok_ID t \<noteq> k" and a: "apply_result k v c s = (r, s')"
  shows "tbl s' = tbl s \<and> r \<in> {Inl ErrNotFound, Inl ErrDB} \<and> (faults s = [] \<longrightarrow> r = Inl ErrNotFound)"
proof -
  have "filter (\<lambda>t. tok_ID t = k) (tokens (tbl s)) = []" using none by (simp add: filter_empty_conv)
  with a show ?thesis
    by (auto simp: apply_result_def apply_body_def GetTokenForUpdate_def tx_eval split: if_splits fault.splits)
qed

lemma persist_superseded:
  assumes inv: "db_inv s" and d: "documents (tbl s) (doc_ID doc) = Some d" "doc_RunVersion doc \<noteq> doc_RunVersion d"
    and p: "persist doc es s = (r, s')"
  shows "tbl s' = tbl s \<and> r \<in> {Inl ErrStaleWrite, Inl ErrDB} \<and> (faults s = [] \<longrightarrow> r = Inl ErrStaleWrite)"
proof -
  have "text_ok (doc_ID doc)" using db_inv_doc [OF inv d(1)] by (simp add: doc_ok_def)
  with p d show ?thesis
    by (auto simp: persist_def persist_body_def GetDocumentForUpdate_def getDocumentTx_def tx_eval
        split: if_splits fault.splits)
qed

section \<open>The run, with a full rerun in the middle\<close>

definition x_superseded :: sys where
  "x_superseded = x_sys (snd (Submit ''d'' ''x'' RerunFull (x_world (persisted_row 1 5 x_extracting) [x_token] [] 2 3 5 x_log2)))
     {} (Handled 0) (EClaimed 0 (x_claimed False)) Idle"

lemma x_superseded_reachable: "reachable x_superseded"
proof -
  let ?p = "persisted_row 1 5 x_extracting"
  from x_relay_step [OF x_persist_step(1) [OF x_persist1 x_both_claimed] x_rows(2)]
  have "reachable (x_sys (x_world ?p [x_token] [] 2 3 5 x_log2) {} (Handled 0) (EClaimed 0 (x_claimed False)) Idle)" by simp
  from next_step [OF this submit [of "''d''" "''x''" RerunFull, OF surjective_pairing]]
  show ?thesis by (simp add: x_superseded_def)
qed

lemma x_superseded_db:
  "documents (tbl (db x_superseded)) ''d'' = Some (reset_row ''x'' 5 (persisted_row 1 5 x_extracting))"
  "broker_log (db x_superseded) = x_log2" "faults (db x_superseded) = []"
  "workers x_superseded 6 = EClaimed 0 (x_claimed False)"
  by (simp_all add: x_superseded_def submit_eval ResetDocument_def EnqueueExtract_def x_ok x_world_def persisted_row_def x_extracting_def
      x_submitted_def new_document_def x_token_def new_token_def reset_row_def)

section \<open>Properties\<close>

text \<open>
  C12. A write of a superseded run never lands, in any reachable state of the system. When a
  published classify job names a run that is not its document's current one, its token is gone and
  its id was not given to another: applying the job's result, whatever the result is, leaves the
  tables as they are and fails, and with no fault to come the error is \<^verbatim>\<open>ErrNotFound\<close>. When an
  extraction worker holds a claim of a run that is not the document's current one, \<^verbatim>\<open>persist\<close>
  leaves the tables as they are and fails, with no fault to come by \<^verbatim>\<open>ErrStaleWrite\<close>. The
  handlers turn both errors into an acknowledgement.
\<close>

theorem superseded_writes_fenced:
  assumes "reachable \<sigma>"
  shows "(\<forall>k job d c r s'. k < length (mlog \<sigma>) \<and> fst (mlog \<sigma> ! k) = StreamClassify \<and>
            decode_ClassifyJob (payload_at \<sigma> k) = Inr job \<and>
            documents (tbl (db \<sigma>)) (cj_DocumentID job) = Some d \<and> cj_RunVersion job \<noteq> doc_RunVersion d \<and>
            apply_result (cj_TokenID job) (cj_RunVersion job) c (db \<sigma>) = (r, s') \<longrightarrow>
            (\<forall>t \<in> set (tokens (tbl (db \<sigma>))). tok_ID t \<noteq> cj_TokenID job) \<and>
            tbl s' = tbl (db \<sigma>) \<and> r \<in> {Inl ErrNotFound, Inl ErrDB} \<and>
            (faults (db \<sigma>) = [] \<longrightarrow> r = Inl ErrNotFound)) \<and>
         (\<forall>w k doc d es r s'. workers \<sigma> w = EClaimed k doc \<and>
            documents (tbl (db \<sigma>)) (doc_ID doc) = Some d \<and> doc_RunVersion doc \<noteq> doc_RunVersion d \<and>
            persist doc es (db \<sigma>) = (r, s') \<longrightarrow>
            tbl s' = tbl (db \<sigma>) \<and> r \<in> {Inl ErrStaleWrite, Inl ErrDB} \<and>
            (faults (db \<sigma>) = [] \<longrightarrow> r = Inl ErrStaleWrite))"
proof (intro conjI allI impI; elim conjE)
  note inv = reachable_inv [OF assms]
  fix k job d c r s'
  assume k: "k < length (mlog \<sigma>)" "fst (mlog \<sigma> ! k) = StreamClassify"
    and dec: "decode_ClassifyJob (payload_at \<sigma> k) = Inr job"
    and d: "documents (tbl (db \<sigma>)) (cj_DocumentID job) = Some d" "cj_RunVersion job \<noteq> doc_RunVersion d"
    and a: "apply_result (cj_TokenID job) (cj_RunVersion job) c (db \<sigma>) = (r, s')"
  have none: "\<forall>t \<in> set (tokens (tbl (db \<sigma>))). tok_ID t \<noteq> cj_TokenID job"
  proof (rule classify_payload [OF inv k], rule ballI, rule notI)
    fix j i v e t
    assume j: "decode_ClassifyJob (payload_at \<sigma> k) = Inr \<lparr>cj_TokenID = j, cj_DocumentID = i, cj_RunVersion = v\<rparr>"
      "id_taken j i v (db \<sigma>)" and t: "t \<in> set (tokens (tbl (db \<sigma>)))" "tok_ID t = cj_TokenID job"
    with dec have "tok_DocumentID t = cj_DocumentID job" "tok_RunVersion t = cj_RunVersion job"
      by (auto simp: id_taken_def)
    with db_inv_token [OF sys_invD(1) [OF inv] t(1)] d show False by (simp add: token_ok_def)
  qed
  from apply_without_token [OF this a] none
  show "\<forall>t \<in> set (tokens (tbl (db \<sigma>))). tok_ID t \<noteq> cj_TokenID job" "tbl s' = tbl (db \<sigma>)"
    "r \<in> {Inl ErrNotFound, Inl ErrDB}" "faults (db \<sigma>) = [] \<Longrightarrow> r = Inl ErrNotFound" by blast+
next
  fix w k doc d es r s'
  assume "workers \<sigma> w = EClaimed k doc" "documents (tbl (db \<sigma>)) (doc_ID doc) = Some d"
    "doc_RunVersion doc \<noteq> doc_RunVersion d" "persist doc es (db \<sigma>) = (r, s')"
  with persist_superseded [OF sys_invD(1) [OF reachable_inv [OF assms]]]
  show "tbl s' = tbl (db \<sigma>)" "r \<in> {Inl ErrStaleWrite, Inl ErrDB}" "faults (db \<sigma>) = [] \<Longrightarrow> r = Inl ErrStaleWrite"
    by blast+
qed

text \<open>
  After the first run's token was published, a full rerun: the classify worker's message and the
  second extraction worker's claim are superseded.
\<close>

lemma superseded_writes_fenced_witness:
  "fst (apply_result 1 1 x_class (db x_superseded)) = Inl ErrNotFound \<and>
   fst (persist (x_claimed False) [x_entity] (db x_superseded)) = Inl ErrStaleWrite"
proof -
  have k: "1 < length (mlog x_superseded)" "fst (mlog x_superseded ! 1) = StreamClassify"
    "decode_ClassifyJob (payload_at x_superseded 1) = Inr \<lparr>cj_TokenID = 1, cj_DocumentID = ''d'', cj_RunVersion = 1\<rparr>"
    using x_payloads(2) by (simp_all add: x_superseded_db payload_at_def)
  have v: "doc_RunVersion (reset_row ''x'' 5 (persisted_row 1 5 x_extracting)) = 2"
    by (simp add: reset_row_def x_doc_sel)
  note fenced = superseded_writes_fenced [OF x_superseded_reachable]
  obtain r s' q t where r: "apply_result 1 1 x_class (db x_superseded) = (r, s')"
    "persist (x_claimed False) [x_entity] (db x_superseded) = (q, t)" by fastforce
  have "r = Inl ErrNotFound"
    using conjunct1 [OF fenced, rule_format, of 1, OF conjI [OF k(1) conjI [OF k(2) conjI [OF k(3)]]]]
      x_superseded_db v r(1) by simp
  moreover have "q = Inl ErrStaleWrite"
    using conjunct2 [OF fenced, rule_format, of 6 0 "x_claimed False"] x_superseded_db v x_doc_sel r(2) by simp
  ultimately show ?thesis using r by simp
qed

end
