(* ===== verification/Faults.thy ===== *)
theory Faults
  imports Db_Invariant
begin

text \<open>
  Faults of the connection can only prevent an operation, never change what it does: no
  operation swallows the error of one of its statements and goes on to commit the rest. The
  predicate \<open>fault_blind\<close> (collection \<open>blind_intros\<close>) says so of a transaction
  body, built from the statements; the property says what follows for the committed tables.
\<close>

section \<open>Bodies that stop at the first error\<close>

definition clear :: "pg \<Rightarrow> pg" where
  "clear s = s\<lparr>faults := []\<rparr>"

text \<open>A run that succeeded met no fault: without faults it does the same.\<close>

definition fault_blind :: "'a tx \<Rightarrow> bool" where
  "fault_blind m \<longleftrightarrow> (\<forall>s x s'. m s = (Inr x, s') \<longrightarrow> m (clear s) = (Inr x, clear s'))"

named_theorems blind_intros \<open>bodies that stop at the first error\<close>

lemma clear_simps [simp]:
  "tbl (clear s) = tbl s" "tokens_id_seq (clear s) = tokens_id_seq s" "outbox_id_seq (clear s) = outbox_id_seq s"
  "now (clear s) = now s" "broker_log (clear s) = broker_log s" "faults (clear s) = []"
  "next_fault (clear s) = OK" "pop_fault (clear s) = clear s" "clear (pop_fault s) = clear s"
  "upd_documents f (clear s) = clear (upd_documents f s)" "upd_tokens g (clear s) = clear (upd_tokens g s)"
  "upd_outbox h (clear s) = clear (upd_outbox h s)" "update_doc i k (clear s) = clear (update_doc i k s)"
  "(clear s)\<lparr>tokens_id_seq := n\<rparr> = clear (s\<lparr>tokens_id_seq := n\<rparr>)"
  "(clear s)\<lparr>outbox_id_seq := n\<rparr> = clear (s\<lparr>outbox_id_seq := n\<rparr>)"
  "(clear s)\<lparr>broker_log := l\<rparr> = clear (s\<lparr>broker_log := l\<rparr>)"
  by (simp_all add: clear_def next_fault_def pop_fault_def upd_documents_def upd_tokens_def upd_outbox_def
      update_doc_def split: option.split)

lemma fault_blindD: "fault_blind m \<Longrightarrow> m s = (Inr x, s') \<Longrightarrow> m (clear s) = (Inr x, clear s')"
  by (simp add: fault_blind_def)

lemma blind_basic [blind_intros]:
  "fault_blind (tx_return x)" "fault_blind (tx_fail e)" "fault_blind m \<Longrightarrow> fault_blind (tx_wrap w m)"
  by (auto simp: fault_blind_def tx_return_def tx_fail_def tx_wrap_Inr)

lemma blind_bind [blind_intros]:
  assumes m: "fault_blind m" and f: "\<And>x. fault_blind (f x)"
  shows "fault_blind (tx_bind m f)"
  unfolding fault_blind_def
proof (intro allI impI)
  fix s y s'
  assume "tx_bind m f s = (Inr y, s')"
  then obtain x t where "m s = (Inr x, t)" "f x t = (Inr y, s')" by (auto simp: tx_succ)
  then show "tx_bind m f (clear s) = (Inr y, clear s')"
    using fault_blindD [OF m] fault_blindD [OF f] by (simp add: tx_bind_def)
qed

lemma blind_stmt:
  assumes "\<And>s x s'. f s = (Inr x, s') \<Longrightarrow> f (clear s) = (Inr x, clear s')"
  shows "fault_blind (stmt f)"
  unfolding fault_blind_def
proof (intro allI impI)
  fix s x s'
  assume "stmt f s = (Inr x, s')"
  then have "f (pop_fault s) = (Inr x, s')" by (simp add: tx_succ)
  from assms [OF this] show "stmt f (clear s) = (Inr x, clear s')" by (simp add: stmt_def)
qed

section \<open>The statements\<close>

lemma blind_documents [blind_intros]:
  "fault_blind (getDocumentTx i b)" "fault_blind (GetDocumentForUpdate i)"
  "fault_blind (SetDocumentPending i)" "fault_blind (SetExtractionStarted i)" "fault_blind (AdvanceToClassifying i n)"
  "fault_blind (MarkExtractionCompletedEmpty i)" "fault_blind (IncrementClassifiedCount i)"
  "fault_blind (MarkDocumentCompleted i)"
  unfolding getDocumentTx_def GetDocumentForUpdate_def SetDocumentPending_def SetExtractionStarted_def
    AdvanceToClassifying_def MarkExtractionCompletedEmpty_def IncrementClassifiedCount_def MarkDocumentCompleted_def
  by (intro blind_intros blind_stmt; auto simp: select_doc_def split: sum.splits option.splits if_splits)+

lemma blind_insert_reset [blind_intros]: "fault_blind (InsertDocument i text)" "fault_blind (ResetDocument i text)"
  unfolding InsertDocument_def ResetDocument_def
  by (intro blind_intros blind_stmt; auto split: option.splits if_splits)+

lemma blind_tokens [blind_intros]:
  "fault_blind (GetTokenForUpdate k)" "fault_blind (CountTokens i v)" "fault_blind (ListTokensForRun i v)"
  "fault_blind (SetTokenClassified k c)"
  unfolding GetTokenForUpdate_def CountTokens_def ListTokensForRun_def SetTokenClassified_def
  by (intro blind_intros blind_stmt; auto split: sum.splits if_splits)+

lemma blind_outbox [blind_intros]:
  "fault_blind (EnqueueExtract ej)" "fault_blind (EnqueueClassify cj)" "fault_blind (ClaimOutboxBatch locked n)"
  "fault_blind (DeleteOutbox k)"
  unfolding EnqueueExtract_def EnqueueClassify_def EnqueueOutbox_def ClaimOutboxBatch_def DeleteOutbox_def
  by (intro blind_intros blind_stmt; auto split: if_splits)+

lemma blind_Publish [blind_intros]: "fault_blind (Publish a msg)"
  by (auto simp: fault_blind_def tx_succ)

lemma blind_loops [blind_intros]:
  "fault_blind (UpsertTokens i v es)" "fault_blind (enqueue_pending i v ts)" "fault_blind (publish_rows rows n)"
proof -
  have "fault_blind (stmt (insert_token i v e))" for e
    by (rule blind_stmt) (auto simp: insert_token_def Let_def split: if_splits)
  then show "fault_blind (UpsertTokens i v es)" by (induction es) (auto intro!: blind_intros)
  show "fault_blind (enqueue_pending i v ts)" by (induction ts) (auto intro!: blind_intros)
  show "fault_blind (publish_rows rows n)" by (induction rows arbitrary: n) (auto intro!: blind_intros)
qed

section \<open>The units of work\<close>

text \<open>
  The one place where an error is inspected and not returned: a submission inserts when the
  document was not found, which no fault can feign.
\<close>

lemma blind_Submit_decide: "fault_blind (Submit_decide i text mode)"
proof -
  have found: "fault_blind (tx_bind (tx_try (GetDocumentForUpdate i)) f)"
    if "\<And>r. (\<forall>e. r = Inl e \<longrightarrow> errors_Is e ErrNotFound) \<Longrightarrow> fault_blind (f r)"
      and "\<And>e t. \<not> errors_Is e ErrNotFound \<Longrightarrow> isl (fst (f (Inl e) t))" for f :: "go_error + Document \<Rightarrow> 'z tx"
    unfolding fault_blind_def
  proof (intro allI impI)
    fix s y s'
    assume "tx_bind (tx_try (GetDocumentForUpdate i)) f s = (Inr y, s')"
    then obtain r t where r: "GetDocumentForUpdate i s = (r, t)" "f r t = (Inr y, s')" by (auto simp: tx_succ)
    have ok: "\<forall>e. r = Inl e \<longrightarrow> errors_Is e ErrNotFound" using that(2) [of _ t] r(2) by fastforce
    have "GetDocumentForUpdate i (clear s) = (r, clear t)"
    proof (cases r)
      case (Inr d)
      with r show ?thesis using fault_blindD [OF blind_documents(2)] by simp
    next
      case (Inl e)
      with r ok show ?thesis
        by (auto simp: GetDocumentForUpdate_def getDocumentTx_def stmt_def select_doc_def CollectExactlyOneRow_def
            split: if_splits option.splits)
    qed
    with fault_blindD [OF that(1) [OF ok] r(2)]
    show "tx_bind (tx_try (GetDocumentForUpdate i)) f (clear s) = (Inr y, clear s')"
      by (simp add: tx_bind_def tx_try_def)
  qed
  show ?thesis
    unfolding Submit_decide_def
    by (rule found) (auto simp: tx_fail_def split: sum.split intro!: blind_intros)
qed

lemma blind_bodies [blind_intros]:
  "fault_blind (Submit_body i text mode)" "fault_blind (claim_body i)" "fault_blind (persist_body doc es)"
  "fault_blind (apply_body k v c)" "fault_blind (drainBatch_body locked batch)"
  unfolding Submit_body_def claim_body_def persist_body_def apply_body_def drainBatch_body_def
  by (auto intro!: blind_intros blind_Submit_decide)

definition as_without_faults :: "'a tx \<Rightarrow> pg \<Rightarrow> bool" where
  "as_without_faults m s \<longleftrightarrow>
     (case m s of (r, s') \<Rightarrow> case m (s\<lparr>faults := []\<rparr>) of (r0, s0) \<Rightarrow>
        (tbl s' = tbl s \<or> \<not> isl r0 \<and> tbl s' = tbl s0) \<and>
        (\<forall>x. r = Inr x \<longrightarrow> r0 = Inr x \<and> s'\<lparr>faults := []\<rparr> = s0))"

lemma as_without_faults_WithinTx:
  assumes "fault_blind fn"
  shows "as_without_faults (WithinTx fn) s"
proof -
  obtain r s' where r: "WithinTx fn s = (r, s')" by fastforce
  obtain q t where q: "fn (pop_fault s) = (q, t)" by fastforce
  show ?thesis
  proof (cases q)
    case (Inl e)
    with q r have "tbl s' = tbl s" "isl r" by (auto simp: WithinTx_def split: if_splits)
    with r show ?thesis by (auto simp: as_without_faults_def split: prod.split)
  next
    case (Inr x)
    with q fault_blindD [OF assms, of "pop_fault s"] have "fn (clear s) = (Inr x, clear t)" by simp
    then have "WithinTx fn (s\<lparr>faults := []\<rparr>) = (Inr x, clear t)"
      by (simp add: WithinTx_def clear_def [of s, symmetric])
    moreover have "clear t = (pop_fault t)\<lparr>faults := []\<rparr>" by (simp add: clear_def pop_fault_def)
    ultimately show ?thesis using r q Inr
      by (auto simp: as_without_faults_def WithinTx_def split: if_splits fault.splits)
  qed
qed

lemma as_without_faults_wrap: "as_without_faults m s \<Longrightarrow> as_without_faults (tx_wrap w m) s"
  by (auto simp: as_without_faults_def tx_wrap_def split: prod.splits sum.splits)

section \<open>Properties\<close>

text \<open>
  C7. Faults only prevent. Whatever statements, commits or replies are lost: a submission, a
  claim, a persist, a classification's transaction and a batch of the relay leave the tables
  either as they were or exactly as the same call without any fault would have left them, and
  a call that reports success has returned what the fault-free call returns and left the same
  database behind, the sequences and the published messages included. So no operation swallows
  the error of one of its statements and commits the rest.
\<close>

theorem faults_only_prevent:
  "as_without_faults (Submit i text mode) s \<and> as_without_faults (claim i) s \<and>
   as_without_faults (persist doc es) s \<and> as_without_faults (apply_result k v c) s \<and>
   as_without_faults (drainBatch locked batch) s"
  unfolding Submit_def claim_def persist_def apply_result_def drainBatch_def
  by (intro conjI as_without_faults_wrap as_without_faults_WithinTx blind_intros)

end
