(* ===== verification/Api.thy ===== *)
theory Api
  imports Db_Invariant
begin

text \<open>
  \<^verbatim>\<open>internal/api\<close>: the HTTP handlers, the shapes they answer with and the helpers between.
  A request carries its method, the segments of its escaped path (\<^verbatim>\<open>URL.EscapedPath\<close>, split at
  the slashes), the raw query and the body; a response its status and its body as the value that
  is encoded. Encoding that value as JSON is not part of the model; reading the request's is.
\<close>

section \<open>Requests and responses\<close>

record http_req =
  rq_method :: string
  rq_segments :: "string list"
  rq_query :: string
  rq_body :: string

record processRequest =
  pr_DocumentID :: string
  pr_Text :: string
  pr_Mode :: string

definition rerunMode :: "processRequest \<Rightarrow> RerunMode" where
  "rerunMode r = (if pr_Mode r = RerunFull then RerunFull else RerunPartial)"

record processResponse =
  ps_DocumentID :: string
  ps_Status :: string
  ps_RunVersion :: int
  ps_Accepted :: bool
  ps_Message :: string

definition submitMessage :: "SubmitResult \<Rightarrow> string" where
  "submitMessage res =
     (if \<not> Accepted res then ''already completed; resubmit with mode=full to reprocess''
      else if FullRerun res then ''accepted for full reprocessing''
      else ''accepted for processing'')"

definition newProcessResponse :: "SubmitResult \<Rightarrow> processResponse" where
  "newProcessResponse res =
     \<lparr>ps_DocumentID = doc_ID (sub_Document res), ps_Status = doc_Status (sub_Document res),
      ps_RunVersion = doc_RunVersion (sub_Document res), ps_Accepted = Accepted res,
      ps_Message = submitMessage res\<rparr>"

record progress =
  pg_Classified :: int
  pg_Total :: int
  pg_Percent :: float64

record durations =
  ExtractionSeconds :: float64
  ClassificationSeconds :: float64

record statusResponse =
  st_DocumentID :: string
  st_Status :: string
  st_RunVersion :: int
  st_Progress :: progress
  st_Durations :: durations
  st_Timestamps :: "(string \<times> time option) list"

text \<open>\<^verbatim>\<open>math.Round\<close> rounds halves away from zero; the other operations round to float64.\<close>

definition math_Round :: "float64 \<Rightarrow> float64" where
  "math_Round x = of_int (if 0 \<le> x then \<lfloor>x + 1 / 2\<rfloor> else - \<lfloor>1 / 2 - x\<rfloor>)"

definition round2 :: "float64 \<Rightarrow> float64" where
  "round2 f = float64_of (math_Round (float64_of (f * 100)) / 100)"

text \<open>\<^verbatim>\<open>Duration.Seconds\<close>: whole seconds and nanoseconds, both truncated towards zero.\<close>

definition quot_trunc :: "int \<Rightarrow> int \<Rightarrow> int" where
  "quot_trunc a b = sgn a * (\<bar>a\<bar> div b)"

definition Seconds :: "int \<Rightarrow> float64" where
  "Seconds d =
     (let sec = quot_trunc d 1000000000; nsec = d - sec * 1000000000
      in float64_of (float64_of (of_int sec) + float64_of (of_int nsec / 1000000000)))"

definition percent :: "Document \<Rightarrow> float64" where
  "percent doc =
     (if 0 < doc_TotalTokens doc
      then float64_of (float64_of (float64_of (of_int (doc_ClassifiedCount doc)) /
                                   float64_of (of_int (doc_TotalTokens doc))) * 100)
      else 0)"

definition newStatusResponse :: "Document \<Rightarrow> statusResponse" where
  "newStatusResponse doc =
     (case Durations doc of
        (ext, class_d) \<Rightarrow>
          \<lparr>st_DocumentID = doc_ID doc, st_Status = doc_Status doc, st_RunVersion = doc_RunVersion doc,
           st_Progress = \<lparr>pg_Classified = doc_ClassifiedCount doc, pg_Total = doc_TotalTokens doc,
                          pg_Percent = round2 (percent doc)\<rparr>,
           st_Durations = \<lparr>ExtractionSeconds = round2 (Seconds ext),
                           ClassificationSeconds = round2 (Seconds class_d)\<rparr>,
           st_Timestamps =
             [(''extraction_started_at'', ExtractionStartedAt doc),
              (''extraction_completed_at'', ExtractionCompletedAt doc),
              (''classification_started_at'', ClassificationStartedAt doc),
              (''classification_completed_at'', ClassificationCompletedAt doc),
              (''created_at'', Some (doc_CreatedAt doc)), (''updated_at'', Some (doc_UpdatedAt doc))]\<rparr>)"

record tokensResponse =
  tr_DocumentID :: string
  tr_Count :: int
  tr_Tokens :: "Token list"

datatype body =
    ErrorBody string
  | ProcessBody processResponse
  | StatusBody statusResponse
  | TokensBody tokensResponse
  | OkBody
  | PlainText string
  | Moved "string list"

record http_resp =
  rsp_status :: int
  rsp_body :: body

definition writeJSON :: "int \<Rightarrow> body \<Rightarrow> http_resp" where
  "writeJSON status b = \<lparr>rsp_status = status, rsp_body = b\<rparr>"

definition writeError :: "int \<Rightarrow> string \<Rightarrow> http_resp" where
  "writeError status msg = writeJSON status (ErrorBody msg)"

section \<open>Queries\<close>

text \<open>
  \<^verbatim>\<open>URL.Query\<close>: pairs separated by ampersands; one with a semicolon or a bad escape is
  dropped. \<^verbatim>\<open>Get\<close> is the first value of a key, or the empty string.
\<close>

fun split_on :: "char \<Rightarrow> string \<Rightarrow> string list" where
  "split_on d [] = [[]]"
| "split_on d (c # cs) =
     (if c = d then [] # split_on d cs
      else case split_on d cs of [] \<Rightarrow> [[c]] | a # r \<Rightarrow> (c # a) # r)"

fun QueryUnescape :: "string \<Rightarrow> string option" where
  "QueryUnescape [] = Some []"
| "QueryUnescape (c # cs) =
     (if c = CHR ''%'' then
        (case cs of
           h # l # r \<Rightarrow>
             (case (hex_val h, hex_val l) of
                (Some x, Some y) \<Rightarrow> map_option (Cons (char_of_nat (x * 16 + y))) (QueryUnescape r)
              | _ \<Rightarrow> None)
         | _ \<Rightarrow> None)
      else map_option (Cons (if c = CHR ''+'' then CHR 0x20 else c)) (QueryUnescape cs))"

text \<open>
  \<^verbatim>\<open>url.PathUnescape\<close>, without the plus sign of queries. The router decodes the segments of the
  path one by one and leaves one it cannot decode as it is.
\<close>

fun PathUnescape :: "string \<Rightarrow> string option" where
  "PathUnescape [] = Some []"
| "PathUnescape (c # cs) =
     (if c = CHR ''%'' then
        (case cs of
           h # l # r \<Rightarrow>
             (case (hex_val h, hex_val l) of
                (Some x, Some y) \<Rightarrow> map_option (Cons (char_of_nat (x * 16 + y))) (PathUnescape r)
              | _ \<Rightarrow> None)
         | _ \<Rightarrow> None)
      else map_option (Cons c) (PathUnescape cs))"

definition pathUnescape :: "string \<Rightarrow> string" where
  "pathUnescape x = (case PathUnescape x of Some y \<Rightarrow> y | None \<Rightarrow> x)"

definition rq_path :: "http_req \<Rightarrow> string list" where
  "rq_path r = map pathUnescape (rq_segments r)"

definition query_pair :: "string \<Rightarrow> (string \<times> string) option" where
  "query_pair s =
     (if s = [] \<or> CHR '';'' \<in> set s then None
      else case (QueryUnescape (takeWhile (\<lambda>c. c \<noteq> CHR ''='') s),
                 QueryUnescape (tl (dropWhile (\<lambda>c. c \<noteq> CHR ''='') s))) of
             (Some k, Some v) \<Rightarrow> Some (k, v)
           | _ \<Rightarrow> None)"

definition ParseQuery :: "string \<Rightarrow> (string \<times> string) list" where
  "ParseQuery q = List.map_filter query_pair (split_on (CHR ''&'') q)"

definition query_Get :: "http_req \<Rightarrow> string \<Rightarrow> string" where
  "query_Get r k = (case map_of (ParseQuery (rq_query r)) k of Some v \<Rightarrow> v | None \<Rightarrow> [])"

definition queryInt :: "http_req \<Rightarrow> string \<Rightarrow> int \<Rightarrow> int" where
  "queryInt r k def =
     (if query_Get r k \<noteq> [] then (case Atoi (query_Get r k) of Some n \<Rightarrow> n | None \<Rightarrow> def) else def)"

definition tokenFilterFromQuery :: "http_req \<Rightarrow> TokenFilter" where
  "tokenFilterFromQuery r =
     \<lparr>flt_Classification = (let v = query_Get r ''classification'' in if v \<noteq> [] then Some (ToUpper v) else None),
      flt_Status = (let v = query_Get r ''status'' in if v \<noteq> [] then Some (ToUpper v) else None),
      flt_Page = (let v = query_Get r ''page'' in if v \<noteq> [] then Atoi v else None),
      flt_Limit = queryInt r ''limit'' 0, flt_Offset = queryInt r ''offset'' 0\<rparr>"

section \<open>Handlers\<close>

definition field_processRequest :: "string \<Rightarrow> json \<Rightarrow> processRequest \<Rightarrow> processRequest \<times> bool" where
  "field_processRequest k v r =
     (if is_field ''document_id'' k
        then (case store_string v (pr_DocumentID r) of (x, ok) \<Rightarrow> (r\<lparr>pr_DocumentID := x\<rparr>, ok))
      else if is_field ''text'' k
        then (case store_string v (pr_Text r) of (x, ok) \<Rightarrow> (r\<lparr>pr_Text := x\<rparr>, ok))
      else if is_field ''mode'' k
        then (case store_string v (pr_Mode r) of (x, ok) \<Rightarrow> (r\<lparr>pr_Mode := x\<rparr>, ok))
      else (r, True))"

text \<open>
  \<^verbatim>\<open>Decoder.Decode\<close> reads the first value of the body and leaves the rest alone, whatever it is.
\<close>

definition decode_body :: "string \<Rightarrow> go_error + processRequest" where
  "decode_body b =
     (case json_first b of
        None \<Rightarrow> Inl ErrDecode
      | Some (v, rest) \<Rightarrow>
          unmarshal_struct field_processRequest \<lparr>pr_DocumentID = [], pr_Text = [], pr_Mode = []\<rparr> v)"

type_synonym handler = "http_req \<Rightarrow> pg \<Rightarrow> http_resp \<times> pg"

definition handleProcess :: handler where
  "handleProcess r s =
     (case decode_body (rq_body r) of
        Inl e \<Rightarrow> (writeError 400 ''invalid JSON body'', s)
      | Inr req \<Rightarrow>
          if TrimSpace (pr_DocumentID req) = [] \<or> TrimSpace (pr_Text req) = []
          then (writeError 400 ''document_id and text are required'', s)
          else (case Submit (pr_DocumentID req) (pr_Text req) (rerunMode req) s of
                  (Inl e, s') \<Rightarrow> (writeError 500 ''could not accept document'', s')
                | (Inr res, s') \<Rightarrow> (writeJSON 202 (ProcessBody (newProcessResponse res)), s')))"

definition handleStatus :: "string \<Rightarrow> handler" where
  "handleStatus docID r s =
     (case Status docID s of
        (Inl e, s') \<Rightarrow>
          (if errors_Is e ErrNotFound then writeError 404 ''document not found''
           else writeError 500 ''lookup failed'', s')
      | (Inr doc, s') \<Rightarrow> (writeJSON 200 (StatusBody (newStatusResponse doc)), s'))"

definition handleTokens :: "string \<Rightarrow> handler" where
  "handleTokens docID r s =
     (case Tokens docID (tokenFilterFromQuery r) s of
        (Inl e, s') \<Rightarrow>
          (if errors_Is e ErrNotFound then writeError 404 ''document not found''
           else writeError 500 ''query failed'', s')
      | (Inr ts, s') \<Rightarrow>
          (writeJSON 200 (TokensBody \<lparr>tr_DocumentID = docID, tr_Count = int (length ts), tr_Tokens = ts\<rparr>), s'))"

text \<open>The pings are the environment's; \<open>err_text\<close> renders an error.\<close>

definition handleHealth :: "(go_error \<Rightarrow> string) \<Rightarrow> go_error option \<Rightarrow> go_error option \<Rightarrow> handler" where
  "handleHealth err_text store_ping broker_ping r s =
     (case Health store_ping broker_ping of
        Some e \<Rightarrow> (writeError 503 (err_text e), s)
      | None \<Rightarrow> (writeJSON 200 OkBody, s))"

text \<open>
  \<^verbatim>\<open>http.ServeMux\<close> first cleans the escaped path: empty and \<^verbatim>\<open>.\<close> segments go, \<^verbatim>\<open>..\<close> takes its
  predecessor with it, a trailing slash stays. A request whose path is not clean is
  redirected to the clean one, except for CONNECT.
\<close>

fun clean_segments :: "string list \<Rightarrow> string list \<Rightarrow> string list" where
  "clean_segments acc [] = rev acc"
| "clean_segments acc (x # xs) =
     (if x = [] \<or> x = ''.'' then clean_segments acc xs
      else if x = ''..'' then clean_segments (tl acc) xs
      else clean_segments (x # acc) xs)"

definition cleanPath :: "string list \<Rightarrow> string list" where
  "cleanPath p =
     (let np = clean_segments [] p
      in if np = [] then [[]] else if last p = [] then np @ [[]] else np)"

text \<open>
  The routes of \<^verbatim>\<open>Handler\<close>. A pattern with the method GET also takes HEAD; a known path with
  another method is answered 405, an unknown one 404, by the router itself and in plain text.
  The wildcard takes any segment but one that decodes to a slash, which the router holds for
  a trailing slash.
\<close>

datatype route = RProcess | RStatus string | RTokens string | RHealth

definition path_route :: "string list \<Rightarrow> route option" where
  "path_route p =
     (if p = [''process''] then Some RProcess
      else if p = [''healthz''] then Some RHealth
      else case p of
             [a, docID, b] \<Rightarrow>
               if docID = ''/'' then None
               else if a = ''documents'' \<and> b = ''status'' then Some (RStatus docID)
               else if a = ''documents'' \<and> b = ''tokens'' then Some (RTokens docID)
               else None
           | _ \<Rightarrow> None)"

definition route_method_ok :: "route \<Rightarrow> string \<Rightarrow> bool" where
  "route_method_ok rt m \<longleftrightarrow> (if rt = RProcess then m = ''POST'' else m = ''GET'' \<or> m = ''HEAD'')"

definition route_request :: "(go_error \<Rightarrow> string) \<Rightarrow> go_error option \<Rightarrow> go_error option \<Rightarrow> handler" where
  "route_request err_text store_ping broker_ping r s =
     (case path_route (rq_path r) of
        None \<Rightarrow> (\<lparr>rsp_status = 404, rsp_body = PlainText ''404 page not found''\<rparr>, s)
      | Some rt \<Rightarrow>
          if \<not> route_method_ok rt (rq_method r) then (\<lparr>rsp_status = 405, rsp_body = PlainText ''Method Not Allowed''\<rparr>, s)
          else (case rt of
                  RProcess \<Rightarrow> handleProcess r s
                | RStatus docID \<Rightarrow> handleStatus docID r s
                | RTokens docID \<Rightarrow> handleTokens docID r s
                | RHealth \<Rightarrow> handleHealth err_text store_ping broker_ping r s))"

definition unclean :: "http_req \<Rightarrow> bool" where
  "unclean r \<longleftrightarrow> rq_method r \<noteq> ''CONNECT'' \<and> cleanPath (rq_segments r) \<noteq> rq_segments r"

definition serve :: "(go_error \<Rightarrow> string) \<Rightarrow> go_error option \<Rightarrow> go_error option \<Rightarrow> handler" where
  "serve err_text store_ping broker_ping r s =
     (if unclean r then (\<lparr>rsp_status = 301, rsp_body = Moved (cleanPath (rq_segments r))\<rparr>, s)
      else route_request err_text store_ping broker_ping r s)"

text \<open>
  \<^verbatim>\<open>logging\<close>: the access-log middleware around the routes. The status recorder starts at 200
  and keeps the status that is written through it, which every response here does once; \<open>elapsed\<close> is the time the request takes, in
  nanoseconds. One line is logged per request.
\<close>

record access_line =
  al_method :: string
  al_path :: "string list"
  al_status :: int
  al_dur_ms :: int

type_synonym statusRecorder = int

definition WriteHeader :: "int \<Rightarrow> statusRecorder \<Rightarrow> statusRecorder" where
  "WriteHeader code rec = code"

definition logging :: "int \<Rightarrow> handler \<Rightarrow> http_req \<Rightarrow> pg \<Rightarrow> (http_resp \<times> access_line) \<times> pg" where
  "logging elapsed next_handler r s =
     (case next_handler r s of
        (resp, s') \<Rightarrow>
          ((resp, \<lparr>al_method = rq_method r, al_path = rq_path r, al_status = WriteHeader (rsp_status resp) 200,
                   al_dur_ms = quot_trunc elapsed 1000000\<rparr>), s'))"

definition Handler :: "(go_error \<Rightarrow> string) \<Rightarrow> go_error option \<Rightarrow> go_error option \<Rightarrow> int \<Rightarrow> http_req \<Rightarrow> pg \<Rightarrow>
    (http_resp \<times> access_line) \<times> pg" where
  "Handler err_text store_ping broker_ping elapsed = logging elapsed (serve err_text store_ping broker_ping)"

section \<open>Rounding of percentages\<close>

lemma math_Round_bound: "0 \<le> x \<Longrightarrow> x \<le> of_int n \<Longrightarrow> 0 \<le> math_Round x \<and> math_Round x \<le> of_int n"
  by (simp add: math_Round_def floor_le_iff)

lemma round2_bound: "0 \<le> f \<Longrightarrow> f \<le> of_int n \<Longrightarrow> n < 2 ^ 46 \<Longrightarrow> 0 \<le> round2 f \<and> round2 f \<le> of_int n"
proof -
  assume f: "0 \<le> f" "f \<le> of_int n" and n: "n < 2 ^ 46"
  have "0 \<le> float64_of (f * 100) \<and> float64_of (f * 100) \<le> of_int (n * 100)"
    using f n by (intro float64_of_int_bound) auto
  then have "0 \<le> math_Round (float64_of (f * 100)) \<and> math_Round (float64_of (f * 100)) \<le> of_int (n * 100)"
    using math_Round_bound by blast
  then show ?thesis unfolding round2_def using n by (intro float64_of_int_bound) auto
qed

lemma percent_exact:
  assumes "0 < doc_TotalTokens d" "0 \<le> doc_ClassifiedCount d" "doc_ClassifiedCount d \<le> doc_TotalTokens d"
    and "int4_ok (doc_TotalTokens d)"
  shows "percent d = float64_of (float64_of (of_int (doc_ClassifiedCount d) / of_int (doc_TotalTokens d)) * 100)"
  using assms by (simp add: percent_def float64_of_int_exact int4_ok_def)

lemma percent_bound:
  assumes "0 \<le> doc_ClassifiedCount d" "doc_ClassifiedCount d \<le> doc_TotalTokens d"
    and "int4_ok (doc_TotalTokens d)"
  shows "0 \<le> percent d \<and> percent d \<le> of_int 100"
proof (cases "0 < doc_TotalTokens d")
  case True
  let ?q = "of_int (doc_ClassifiedCount d) / of_int (doc_TotalTokens d) :: rat"
  have "0 \<le> ?q" "?q \<le> 1" using True assms by simp_all
  from float64_of_unit [OF this] have "0 \<le> float64_of ?q * 100" "float64_of ?q * 100 \<le> of_int 100" by simp_all
  then show ?thesis unfolding percent_exact [OF True assms] by (intro float64_of_int_bound) simp_all
qed (simp add: percent_def)

lemma float64_of_numeral: "(numeral k :: int) < 2 ^ 53 \<Longrightarrow> float64_of (numeral k) = numeral k"
  using float64_of_int_exact [of "numeral k"] by simp

lemma float64_of_one [simp]: "float64_of 1 = 1"
  using float64_of_int_exact [of 1] by simp

lemma float64_of_zero [simp]: "float64_of 0 = 0"
  by (simp add: float64_of_def round_float_def)

lemma percent_zero: "doc_ClassifiedCount d = 0 \<Longrightarrow> round2 (percent d) = 0"
proof -
  assume "doc_ClassifiedCount d = 0"
  moreover have "\<lfloor>1 / 2 :: rat\<rfloor> = 0" by (simp add: floor_eq_iff)
  ultimately show ?thesis by (simp add: percent_def round2_def math_Round_def)
qed

lemma percent_full:
  assumes "0 < doc_TotalTokens d" "doc_ClassifiedCount d = doc_TotalTokens d" "int4_ok (doc_TotalTokens d)"
  shows "round2 (percent d) = 100"
proof -
  have "percent d = 100" using percent_exact [of d] assms by (simp add: float64_of_numeral)
  moreover have "\<lfloor>20001 / 2 :: rat\<rfloor> = 10000" by (simp add: floor_eq_iff)
  ultimately show ?thesis by (simp add: round2_def math_Round_def float64_of_numeral)
qed

section \<open>Properties\<close>

lemma Submit_frame: "Submit i x mode s = (r, s') \<Longrightarrow>
   (\<exists>res. r = Inr res \<and> ran (Submit_body i x mode) s res s') \<or>
   (\<exists>e. r = Inl e \<and> (tbl s' = tbl s \<or> (\<exists>res. ran (Submit_body i x mode) s res s')))"
proof -
  assume "Submit i x mode s = (r, s')"
  then obtain q where q: "WithinTx (Submit_body i x mode) s = (q, s')" and r: "isl r = isl q" "\<not> isl r \<Longrightarrow> r = q"
    by (auto simp: Submit_def tx_wrap_def split: prod.splits sum.splits)
  from q show ?thesis
    by (cases rule: uow.outcome) (use r in \<open>cases r; cases q; auto\<close>)+
qed

lemma handleProcess_parts:
  assumes "handleProcess r s = (resp, s')"
  shows "rsp_status resp = 400 \<longleftrightarrow>
           (case decode_body (rq_body r) of
              Inl _ \<Rightarrow> True
            | Inr req \<Rightarrow> list_all IsSpace (runes (pr_DocumentID req)) \<or> list_all IsSpace (runes (pr_Text req)))"
    and "rsp_status resp = 400 \<Longrightarrow> s' = s"
    and "rsp_status resp = 202 \<Longrightarrow>
           \<exists>req res. decode_body (rq_body r) = Inr req \<and>
             Submit (pr_DocumentID req) (pr_Text req) (rerunMode req) s = (Inr res, s') \<and>
             rsp_body resp = ProcessBody (newProcessResponse res) \<and>
             length (outbox (tbl s')) = length (outbox (tbl s)) + (if Accepted res then 1 else 0)"
    and "rsp_status resp \<notin> {202, 400} \<Longrightarrow> rsp_status resp = 500 \<and>
           (tbl s' = tbl s \<or> (\<exists>req res s0 s1. tbl s0 = tbl s \<and> tbl s' = tbl s1 \<and>
              Submit_body (pr_DocumentID req) (pr_Text req) (rerunMode req) s0 = (Inr res, s1)))"
proof -
  note defs = handleProcess_def writeError_def writeJSON_def TrimSpace_blank_iff
  show "rsp_status resp = 400 \<longleftrightarrow>
           (case decode_body (rq_body r) of
              Inl _ \<Rightarrow> True
            | Inr req \<Rightarrow> list_all IsSpace (runes (pr_DocumentID req)) \<or> list_all IsSpace (runes (pr_Text req)))"
    using assms by (auto simp: defs split: sum.splits prod.splits if_splits)
  show "s' = s" if "rsp_status resp = 400"
    using assms that by (auto simp: defs split: sum.splits prod.splits if_splits)
  show "\<exists>req res. decode_body (rq_body r) = Inr req \<and>
             Submit (pr_DocumentID req) (pr_Text req) (rerunMode req) s = (Inr res, s') \<and>
             rsp_body resp = ProcessBody (newProcessResponse res) \<and>
             length (outbox (tbl s')) = length (outbox (tbl s)) + (if Accepted res then 1 else 0)"
    if st: "rsp_status resp = 202"
  proof -
    from assms st obtain req res where req: "decode_body (rq_body r) = Inr req"
      and sub: "Submit (pr_DocumentID req) (pr_Text req) (rerunMode req) s = (Inr res, s')"
      and body: "rsp_body resp = ProcessBody (newProcessResponse res)"
      by (auto simp: defs split: sum.splits prod.splits if_splits)
    from Submit_frame [OF sub] obtain s0 s1 where s0: "tbl s0 = tbl s" "tbl s' = tbl s1"
      and b: "Submit_body (pr_DocumentID req) (pr_Text req) (rerunMode req) s0 = (Inr res, s1)"
      by (auto simp: ran_def)
    from Submit_body_succ [OF b] obtain t where t: "Submit_decide (pr_DocumentID req) (pr_Text req) (rerunMode req) s0 = (Inr res, t)"
      "enqueued (if Accepted res then [extract_msg (sub_Document res)] else []) t s1" by blast
    from t(1) have "outbox (tbl t) = outbox (tbl s0)" by (cases rule: Submit_decide_cases) auto
    with t(2) s0 have "length (outbox (tbl s')) = length (outbox (tbl s)) + (if Accepted res then 1 else 0)"
      by (auto simp: enqueued_def)
    with req sub body show ?thesis by blast
  qed
  show "rsp_status resp = 500 \<and> (tbl s' = tbl s \<or> (\<exists>req res s0 s1. tbl s0 = tbl s \<and> tbl s' = tbl s1 \<and>
        Submit_body (pr_DocumentID req) (pr_Text req) (rerunMode req) s0 = (Inr res, s1)))"
    if st: "rsp_status resp \<notin> {202, 400}"
  proof -
    from assms st obtain req e where "Submit (pr_DocumentID req) (pr_Text req) (rerunMode req) s = (Inl e, s')"
      and 500: "rsp_status resp = 500"
      by (auto simp: defs split: sum.splits prod.splits if_splits)
    from Submit_frame [OF this(1)] 500 show ?thesis by (auto simp: ran_def)
  qed
qed

text \<open>
  C29. What a submission over HTTP is answered: 400 exactly when the body's first JSON value
  does not decode or the document id or the text is blank, and then nothing is touched; 202
  when the submission went through, the answer describing it, with one more job in the outbox
  exactly if it was accepted; otherwise 500, with the tables as they were, unless the commit
  took effect and only its reply was lost.
\<close>
theorem handleProcess_answers:
  assumes "handleProcess r s = (resp, s')"
  shows "(rsp_status resp = 400 \<longleftrightarrow>
           (case decode_body (rq_body r) of
              Inl _ \<Rightarrow> True
            | Inr req \<Rightarrow> list_all IsSpace (runes (pr_DocumentID req)) \<or> list_all IsSpace (runes (pr_Text req)))) \<and>
         (rsp_status resp = 400 \<longrightarrow> s' = s) \<and>
         (rsp_status resp = 202 \<longrightarrow>
           (\<exists>req res. decode_body (rq_body r) = Inr req \<and>
             Submit (pr_DocumentID req) (pr_Text req) (rerunMode req) s = (Inr res, s') \<and>
             rsp_body resp = ProcessBody (newProcessResponse res) \<and>
             length (outbox (tbl s')) = length (outbox (tbl s)) + (if Accepted res then 1 else 0))) \<and>
         (rsp_status resp \<notin> {202, 400} \<longrightarrow> rsp_status resp = 500 \<and>
           (tbl s' = tbl s \<or> (\<exists>req res s0 s1. tbl s0 = tbl s \<and> tbl s' = tbl s1 \<and>
              Submit_body (pr_DocumentID req) (pr_Text req) (rerunMode req) s0 = (Inr res, s1))))"
  using handleProcess_parts [OF assms] by blast

definition sample_req :: http_req where
  \<open>sample_req = \<lparr>rq_method = ''POST'', rq_segments = [''process''], rq_query = [],
     rq_body = ''{"document_id":"d","text":"x"}''\<rparr>\<close>

lemma sample_body: "decode_body (rq_body sample_req) = Inr \<lparr>pr_DocumentID = ''d'', pr_Text = ''x'', pr_Mode = []\<rparr>"
  unfolding sample_req_def by code_simp

lemma text_ok_d: "text_ok ''d''"
  by code_simp

lemma sample_handled: "\<exists>resp s'. handleProcess sample_req (empty_db 5 []) = (resp, s') \<and> rsp_status resp = 202"
proof -
  have ok: "text_ok ''d''" "text_ok ''x''" "TrimSpace ''d'' \<noteq> []" "TrimSpace ''x'' \<noteq> []" by code_simp+
  then show ?thesis
    by (simp add: handleProcess_def sample_body rerunMode_def RerunFull_def RerunPartial_def tx_eval Submit_def
        Submit_body_def Submit_decide_def GetDocumentForUpdate_def getDocumentTx_def InsertDocument_def
        EnqueueExtract_def EnqueueOutbox_def empty_db_def new_document_def writeJSON_def)
qed

theorem handleProcess_answers_witness:
  "\<exists>resp s'. handleProcess sample_req (empty_db 5 []) = (resp, s') \<and> rsp_status resp = 202 \<and>
     length (outbox (tbl s')) \<le> 1"
proof -
  obtain resp s' where h: "handleProcess sample_req (empty_db 5 []) = (resp, s')" "rsp_status resp = 202"
    using sample_handled by blast
  from handleProcess_answers [OF h(1)] h(2) have "length (outbox (tbl s')) \<le> 1"
    by (auto simp: empty_db_def)
  with h show ?thesis by blast
qed

lemma handleStatus_code:
  "rsp_status (fst (handleStatus docID r s)) =
   (case fst (GetDocument docID s) of Inl e \<Rightarrow> if errors_Is e ErrNotFound then 404 else 500 | Inr _ \<Rightarrow> 200)"
  by (auto simp: handleStatus_def Status_def writeError_def writeJSON_def split: prod.splits sum.splits)

lemma handleTokens_code:
  "rsp_status (fst (handleTokens docID r s)) =
   (case fst (Tokens docID (tokenFilterFromQuery r) s) of
      Inl e \<Rightarrow> if errors_Is e ErrNotFound then 404 else 500 | Inr _ \<Rightarrow> 200)"
  by (auto simp: handleTokens_def writeError_def writeJSON_def split: prod.splits sum.splits)

lemma GetDocument_errors: "fst (GetDocument docID s) = Inl e \<Longrightarrow> e \<in> {ErrDB, ErrNoRows, ErrTooManyRows}"
  by (auto simp: GetDocument_def stmt_def CollectExactlyOneRow_def split: if_splits list.splits)

lemma Tokens_errors: "fst (Tokens docID f s) = Inl e \<Longrightarrow> e \<in> {ErrDB, ErrNoRows, ErrTooManyRows}"
  using GetDocument_errors [of docID s]
  by (auto simp: Tokens_def tx_bind_def ListTokens_def stmt_def split: prod.splits sum.splits if_splits)

lemma missing_document_errors:
  assumes "documents (tbl s) docID = None"
  shows "isl (fst (GetDocument docID s))" and "isl (fst (Tokens docID f s))"
proof -
  have "fst (GetDocument docID s) \<in> {Inl ErrDB, Inl ErrNoRows}"
    using assms by (simp add: GetDocument_def stmt_def select_doc_def pop_fault_def CollectExactlyOneRow_def)
  then show "isl (fst (GetDocument docID s))" by auto
  then show "isl (fst (Tokens docID f s))"
    by (cases "GetDocument docID s") (auto simp: Tokens_def tx_bind_def split: sum.splits)
qed

text \<open>
  C33. No request is ever answered 404 by the document endpoints, in any state and under any
  fault: the store reports a missing document with the driver's own error, which is not the
  domain's \<open>ErrNotFound\<close>, so the branch that answers 404 is never taken and a document that
  does not exist is reported as a server error.
\<close>
theorem missing_document_is_500:
  "rsp_status (fst (handleStatus docID r s)) \<noteq> 404 \<and> rsp_status (fst (handleTokens docID r s)) \<noteq> 404 \<and>
   (documents (tbl s) docID = None \<longrightarrow>
      rsp_status (fst (handleStatus docID r s)) = 500 \<and> rsp_status (fst (handleTokens docID r s)) = 500)"
proof -
  have codes: "rsp_status (fst (handleStatus docID r s)) = (if isl (fst (GetDocument docID s)) then 500 else 200)"
    "rsp_status (fst (handleTokens docID r s)) =
       (if isl (fst (Tokens docID (tokenFilterFromQuery r) s)) then 500 else 200)"
    using GetDocument_errors [of docID s] Tokens_errors [of docID "tokenFilterFromQuery r" s]
    by (auto simp: handleStatus_code handleTokens_code split: sum.splits)
  show ?thesis unfolding codes using missing_document_errors by auto
qed

theorem missing_document_is_500_witness:
  "rsp_status (fst (handleStatus ''d'' \<lparr>rq_method = ''GET'', rq_segments = [], rq_query = [], rq_body = []\<rparr> (empty_db 5 []))) = 500"
  using missing_document_is_500 [of "''d''" "\<lparr>rq_method = ''GET'', rq_segments = [], rq_query = [], rq_body = []\<rparr>" "empty_db 5 []"]
  by (simp add: empty_db_def)

text \<open>
  C30. The status of a document that exists, in any state the pipeline's invariant allows: 200,
  with the number of its tokens and of the classified ones, a percentage between 0 and 100,
  which is 100 once a document with tokens is completed and 0 while nothing is classified.
  (The total comes from an INTEGER column.)
\<close>
theorem status_reports_progress:
  assumes "db_inv s" and "faults s = []" and "documents (tbl s) docID = Some d" and "int4_ok (doc_TotalTokens d)"
  shows "\<exists>st s'. handleStatus docID r s = (\<lparr>rsp_status = 200, rsp_body = StatusBody st\<rparr>, s') \<and>
     st_Status st = doc_Status d \<and>
     pg_Total (st_Progress st) = int (length (tokens_of docID (tokens (tbl s)))) \<and>
     pg_Classified (st_Progress st) = int (length (filter classified (tokens_of docID (tokens (tbl s))))) \<and>
     0 \<le> pg_Percent (st_Progress st) \<and> pg_Percent (st_Progress st) \<le> 100 \<and>
     (pg_Classified (st_Progress st) = 0 \<longrightarrow> pg_Percent (st_Progress st) = 0) \<and>
     (doc_Status d = DocCompleted \<and> 0 < pg_Total (st_Progress st) \<longrightarrow> pg_Percent (st_Progress st) = 100)"
proof -
  have ok: "doc_ok (tokens (tbl s)) docID d" using assms(1,3) by (rule db_inv_doc)
  then have n: "doc_TotalTokens d = int (length (tokens_of docID (tokens (tbl s))))"
    "doc_ClassifiedCount d = int (length (filter classified (tokens_of docID (tokens (tbl s)))))"
    "text_ok docID" by (simp_all add: doc_ok_def)
  have le: "0 \<le> doc_ClassifiedCount d" "doc_ClassifiedCount d \<le> doc_TotalTokens d"
    unfolding n by (simp_all add: length_filter_le)
  have pct: "0 \<le> round2 (percent d) \<and> round2 (percent d) \<le> of_int 100"
    using percent_bound [OF le assms(4)] by (intro round2_bound) simp_all
  have zero: "doc_ClassifiedCount d = 0 \<Longrightarrow> round2 (percent d) = 0" by (rule percent_zero)
  have full: "doc_Status d = DocCompleted \<Longrightarrow> 0 < doc_TotalTokens d \<Longrightarrow> round2 (percent d) = 100"
    using ok percent_full [of d] assms(4) by (simp add: doc_ok_def)
  have "GetDocument docID s = (Inr d, pop_fault s)"
    using assms n(3) by (simp add: GetDocument_def stmt_def select_doc_def CollectExactlyOneRow_def next_fault_def pop_fault_def)
  then have "handleStatus docID r s =
      (\<lparr>rsp_status = 200, rsp_body = StatusBody (newStatusResponse d)\<rparr>, pop_fault s)"
    by (simp add: handleStatus_def Status_def writeJSON_def)
  moreover have "st_Progress (newStatusResponse d) = \<lparr>pg_Classified = doc_ClassifiedCount d,
      pg_Total = doc_TotalTokens d, pg_Percent = round2 (percent d)\<rparr>" "st_Status (newStatusResponse d) = doc_Status d"
    by (simp_all add: newStatusResponse_def split: prod.splits)
  ultimately show ?thesis
    using n pct zero full by (intro exI [of _ "newStatusResponse d"] exI [of _ "pop_fault s"]) simp
qed

definition sample_db :: pg where
  "sample_db = (empty_db 5 [])\<lparr>tbl := \<lparr>documents = [''d'' \<mapsto> new_document ''d'' ''x'' 5], tokens = [], outbox = []\<rparr>\<rparr>"

lemma sample_db_inv: "db_inv sample_db"
  using text_ok_d by (simp add: sample_db_def empty_db_def db_inv_defs doc_ok_def new_document_def int4_ok_def tokens_of_def)

theorem status_reports_progress_witness:
  "\<exists>st s'. handleStatus ''d'' sample_req sample_db = (\<lparr>rsp_status = 200, rsp_body = StatusBody st\<rparr>, s') \<and>
     pg_Percent (st_Progress st) = 0"
proof -
  have "faults sample_db = []" "documents (tbl sample_db) ''d'' = Some (new_document ''d'' ''x'' 5)"
    "int4_ok (doc_TotalTokens (new_document ''d'' ''x'' 5))"
    by (simp_all add: sample_db_def empty_db_def new_document_def int4_ok_def)
  from status_reports_progress [OF sample_db_inv this, of sample_req] obtain st s'
    where st: "handleStatus ''d'' sample_req sample_db = (\<lparr>rsp_status = 200, rsp_body = StatusBody st\<rparr>, s')"
      "pg_Classified (st_Progress st) = int (length (filter classified (tokens_of ''d'' (tokens (tbl sample_db)))))"
      "pg_Classified (st_Progress st) = 0 \<longrightarrow> pg_Percent (st_Progress st) = 0" by blast
  have "tokens (tbl sample_db) = []" by (simp add: sample_db_def)
  with st(2,3) have "pg_Percent (st_Progress st) = 0" by (simp add: tokens_of_def)
  with st(1) show ?thesis by blast
qed

lemma Submit_inv: "db_inv s \<Longrightarrow> db_inv (snd (Submit i x mode s))"
  using WithinTx_inv [OF keeps_Submit(2) Submit_body_inv] by (simp add: Submit_def)

lemma db_inv_pop_fault: "db_inv s \<Longrightarrow> db_inv (pop_fault s)"
  by (rule db_inv_frame [where s = s]) (simp_all add: seqs_grow_def pop_fault_def)

lemma reads_only_faults:
  "snd (GetDocument i s) = pop_fault s" "snd (ListTokens i f s) = pop_fault s"
  by (simp_all add: GetDocument_def ListTokens_def stmt_def)

lemma handler_reads:
  "snd (handleStatus i r s) = pop_fault s"
  "snd (handleTokens i r s) \<in> {pop_fault s, pop_fault (pop_fault s)}"
proof -
  show "snd (handleStatus i r s) = pop_fault s"
    using reads_only_faults(1) [of i s]
    by (auto simp: handleStatus_def Status_def split: prod.splits sum.splits)
  have "snd (Tokens i f s) \<in> {pop_fault s, pop_fault (pop_fault s)}" for f
    using reads_only_faults(1) [of i s] reads_only_faults(2) [of i f]
    by (cases "GetDocument i s") (auto simp: Tokens_def tx_bind_def split: sum.splits)
  from this [of "tokenFilterFromQuery r"]
  show "snd (handleTokens i r s) \<in> {pop_fault s, pop_fault (pop_fault s)}"
    by (auto simp: handleTokens_def split: prod.splits sum.splits)
qed

lemma handleProcess_state:
  "snd (handleProcess r s) = s \<or>
   (\<exists>i x mode. snd (handleProcess r s) = snd (Submit i x mode s))"
  by (auto simp: handleProcess_def split: prod.splits sum.splits) (metis snd_conv)+

lemma route_request_keeps:
  assumes "db_inv s"
  shows "db_inv (snd (route_request err_text sp bp r s)) \<and>
     (tbl (snd (route_request err_text sp bp r s)) \<noteq> tbl s \<longrightarrow> rq_method r = ''POST'' \<and> rq_path r = [''process''])"
proof (cases "path_route (rq_path r)")
  case None
  with assms show ?thesis by (simp add: route_request_def)
next
  case (Some rt)
  show ?thesis
  proof (cases "route_method_ok rt (rq_method r)")
    case False
    with assms Some show ?thesis by (simp add: route_request_def)
  next
    case ok: True
    show ?thesis
    proof (cases rt)
      case RProcess
      with Some ok have "rq_method r = ''POST''" "rq_path r = [''process'']"
        by (auto simp: route_method_ok_def path_route_def split: if_splits list.splits)
      with RProcess Some ok handleProcess_state [of r s] Submit_inv [OF assms] assms show ?thesis
        by (auto simp: route_request_def)
    next
      case (RStatus i)
      with Some ok assms db_inv_pop_fault handler_reads(1) [of i r s] show ?thesis by (simp add: route_request_def)
    next
      case (RTokens i)
      with Some ok assms db_inv_pop_fault handler_reads(2) [of i r s] show ?thesis by (auto simp: route_request_def)
    next
      case RHealth
      with Some ok assms show ?thesis by (auto simp: route_request_def handleHealth_def split: option.splits)
    qed
  qed
qed

lemma serve_keeps:
  assumes "db_inv s"
  shows "db_inv (snd (serve err_text sp bp r s)) \<and>
     (tbl (snd (serve err_text sp bp r s)) \<noteq> tbl s \<longrightarrow> rq_method r = ''POST'' \<and> rq_path r = [''process''])"
  using route_request_keeps [OF assms, of err_text sp bp r] assms by (simp add: serve_def)

text \<open>The statuses each handler answers with.\<close>

lemma handler_codes:
  "rsp_status (fst (handleProcess r s)) \<in> {202, 400, 500}"
  "rsp_status (fst (handleStatus i r s)) \<in> {200, 404, 500}"
  "rsp_status (fst (handleTokens i r s)) \<in> {200, 404, 500}"
  "rsp_status (fst (handleHealth err_text sp bp r s)) \<in> {200, 503}"
  by (simp_all add: handleProcess_def handleHealth_def handleStatus_code handleTokens_code writeError_def writeJSON_def
      split: sum.split prod.split option.split)

lemma serve_codes:
  "rsp_status (fst (serve err_text sp bp r s)) \<in> {200, 202, 301, 400, 404, 405, 500, 503}"
  "rsp_status (fst (serve err_text sp bp r s)) = 301 \<longleftrightarrow> unclean r"
proof -
  have "rsp_status (fst (route_request err_text sp bp r s)) \<in> {200, 202, 400, 404, 405, 500, 503}"
  proof (cases "path_route (rq_path r)")
    case None
    then show ?thesis by (simp add: route_request_def)
  next
    case (Some rt)
    then show ?thesis
      using handler_codes(1) [of r s] handler_codes(2,3) [of _ r s] handler_codes(4) [of err_text sp bp r s]
      by (cases rt) (auto simp: route_request_def)
  qed
  then show "rsp_status (fst (serve err_text sp bp r s)) \<in> {200, 202, 301, 400, 404, 405, 500, 503}"
    "rsp_status (fst (serve err_text sp bp r s)) = 301 \<longleftrightarrow> unclean r" by (auto simp: serve_def)
qed

lemma clean_segments_all:
  "list_all (\<lambda>x. x \<notin> {[], ''.'', ''..''}) p \<Longrightarrow> clean_segments acc p = rev acc @ p"
  by (induction acc p rule: clean_segments.induct) auto

text \<open>A path without empty and dot segments is clean.\<close>

lemma cleanPath_clean: "p \<noteq> [] \<Longrightarrow> list_all (\<lambda>x. x \<notin> {[], ''.'', ''..''}) p \<Longrightarrow> cleanPath p = p"
  using last_in_set [of p] by (auto simp: cleanPath_def clean_segments_all list_all_iff)

text \<open>
  C31. Reading never writes: a request that changes a table is a POST to \<^verbatim>\<open>/process\<close>, and
  every request, whatever fails meanwhile, keeps the invariant of the database, is answered
  with one of eight statuses and leaves one line in the access log with that very status. The
  answer is a redirect exactly when the path is not clean.
\<close>
theorem serve_safe:
  assumes "db_inv s" and "Handler err_text sp bp elapsed r s = ((resp, line), s')"
  shows "db_inv s' \<and> (tbl s' \<noteq> tbl s \<longrightarrow> rq_method r = ''POST'' \<and> rq_path r = [''process'']) \<and>
     rsp_status resp \<in> {200, 202, 301, 400, 404, 405, 500, 503} \<and>
     (rsp_status resp = 301 \<longleftrightarrow> rq_method r \<noteq> ''CONNECT'' \<and> cleanPath (rq_segments r) \<noteq> rq_segments r) \<and>
     al_status line = rsp_status resp \<and> al_method line = rq_method r \<and> al_path line = rq_path r"
proof -
  from assms(2) have "serve err_text sp bp r s = (resp, s')"
    and line: "al_status line = rsp_status resp" "al_method line = rq_method r" "al_path line = rq_path r"
    by (auto simp: Handler_def logging_def WriteHeader_def split: prod.splits)
  with serve_keeps [OF assms(1), of err_text sp bp r] serve_codes [of err_text sp bp r s]
  have "rsp_status resp \<in> {200, 202, 301, 400, 404, 405, 500, 503}" and "rsp_status resp = 301 \<longleftrightarrow> unclean r" and
    "db_inv s' \<and> (tbl s' \<noteq> tbl s \<longrightarrow> rq_method r = ''POST'' \<and> rq_path r = [''process''])" by simp_all
  with line show ?thesis unfolding unclean_def by blast
qed

theorem serve_safe_witness:
  "case Handler (\<lambda>_. []) None None 7 sample_req (empty_db 5 [OK, Fail]) of
     ((resp, line), s') \<Rightarrow> db_inv s' \<and> al_status line = rsp_status resp"
proof -
  obtain resp line s' where h: "Handler (\<lambda>_. []) None None 7 sample_req (empty_db 5 [OK, Fail]) = ((resp, line), s')"
    by (cases "Handler (\<lambda>_. []) None None 7 sample_req (empty_db 5 [OK, Fail])") auto
  from serve_safe [OF empty_db_inv h] h show ?thesis by simp
qed

end
