(* ===== verification/Completion.thy ===== *)
theory Completion
  imports Evolution
begin

text \<open>
  The way of one document through the whole pipeline when nothing fails: submission, relay,
  extraction, relay, classification. No step of it can fail on its own account, and it ends
  with the document completed and every token classified.
\<close>

section \<open>Without faults units of work succeed\<close>

text \<open>
  \<open>succeeds m s\<close>: run without faults, \<open>m\<close> returns a result and leaves none behind. What the
  result is, the laws of the store say.
\<close>

definition succeeds :: "'a tx \<Rightarrow> pg \<Rightarrow> bool" where
  "succeeds m s \<longleftrightarrow> (\<exists>x s'. m s = (Inr x, s') \<and> faults s' = [])"

lemma succeedsE: "succeeds m s \<Longrightarrow> (\<And>x s'. m s = (Inr x, s') \<Longrightarrow> faults s' = [] \<Longrightarrow> P) \<Longrightarrow> P"
  by (auto simp: succeeds_def)

lemma succeeds_bind:
  assumes "succeeds m s" and "\<And>x s'. m s = (Inr x, s') \<Longrightarrow> faults s' = [] \<Longrightarrow> succeeds (f x) s'"
  shows "succeeds (tx_bind m f) s"
  using assms by (fastforce simp: succeeds_def tx_bind_def)

lemma succeeds_step: "m s = (Inr x, s') \<Longrightarrow> succeeds (f x) s' \<Longrightarrow> succeeds (tx_bind m f) s"
  by (simp add: succeeds_def tx_bind_def)

lemma succeeds_return: "faults s = [] \<Longrightarrow> succeeds (tx_return x) s"
  by (simp add: succeeds_def tx_return_def)

lemma succeeds_WithinTx: "faults s = [] \<Longrightarrow> succeeds fn s \<Longrightarrow> succeeds (WithinTx fn) s"
  by (auto simp: succeeds_def WithinTx_def)

lemma text_ok_ascii: "(\<And>c. c \<in> set x \<Longrightarrow> 0 < byte_of c \<and> byte_of c < 128) \<Longrightarrow> text_ok x"
  by (force simp: text_ok_def ValidString_def runes_ascii list_all_iff utf8_len_def byte_of_def)

lemma text_ok_FormatInt [simp]: "text_ok (FormatInt n)"
proof (rule text_ok_ascii)
  fix c assume "c \<in> set (FormatInt n)"
  then have "c = CHR ''-'' \<or> is_digit c"
    using nat_digits_props by (auto simp: FormatInt_def list_all_iff split: if_splits)
  then show "0 < byte_of c \<and> byte_of c < 128" by (auto simp: is_digit_def in_range_def byte_of_def)
qed

definition storable :: "Entity \<Rightarrow> bool" where
  "storable e \<longleftrightarrow> int4_ok (Page (ent_Position e)) \<and> int4_ok (Sentence (ent_Position e)) \<and>
     int4_ok (CharOffset (ent_Position e)) \<and> text_ok (ent_Text e) \<and> text_ok (ent_Context e)"

lemma int8_ok_between: "int8_ok a \<Longrightarrow> int8_ok c \<Longrightarrow> a \<le> b \<Longrightarrow> b \<le> c \<Longrightarrow> int8_ok b"
  by (simp add: int8_ok_def)

lemma succeeds_UpsertTokens:
  assumes "faults s = []" and "documents (tbl s) i \<noteq> None" and "text_ok i" and "int4_ok v"
    and "list_all storable es" and "int8_ok (tokens_id_seq s)" and "int8_ok (tokens_id_seq s + int (length es))"
  shows "succeeds (UpsertTokens i v es) s"
  using assms
proof (induction es arbitrary: s)
  case Nil
  then show ?case by (simp add: succeeds_return)
next
  case (Cons e es)
  let ?s = "snd (insert_token i v e s)"
  have "fst (insert_token i v e s) = Inr ()" and s: "faults ?s = []" "documents (tbl ?s) i \<noteq> None"
    "tokens_id_seq ?s = tokens_id_seq s + 1"
    using Cons.prems by (auto simp: insert_token_def storable_def Let_def)
  then have one: "tx_wrap ''insert token'' (stmt (insert_token i v e)) s = (Inr (), ?s)"
    using Cons.prems(1) by (cases "insert_token i v e s") (simp add: tx_wrap_def stmt_def)
  have "int8_ok (tokens_id_seq ?s)" unfolding s(3)
    by (rule int8_ok_between [OF Cons.prems(6,7)]) simp_all
  moreover have "int8_ok (tokens_id_seq ?s + int (length es))" using Cons.prems(7) by (simp add: s(3) add_ac)
  ultimately have "succeeds (UpsertTokens i v es) ?s" using Cons s by simp
  with one show ?case by (simp add: succeeds_step)
qed

lemma succeeds_enqueue_pending:
  assumes "faults s = []" and "int8_ok (outbox_id_seq s)" and "int8_ok (outbox_id_seq s + int (length ts))"
  shows "succeeds (enqueue_pending i v ts) s"
  using assms
proof (induction ts arbitrary: s)
  case Nil
  then show ?case by (simp add: succeeds_return)
next
  case (Cons t ts)
  show ?case
  proof (cases "tok_Status t = TokenClassified")
    case True
    have "int8_ok (outbox_id_seq s + int (length ts))" by (rule int8_ok_between [OF Cons.prems(2,3)]) simp_all
    with True Cons show ?thesis by simp
  next
    case False
    let ?m = "EnqueueClassify \<lparr>cj_TokenID = tok_ID t, cj_DocumentID = i, cj_RunVersion = v\<rparr>"
    obtain s' where one: "?m s = (Inr (), s')" and s': "faults s' = []" "outbox_id_seq s' = outbox_id_seq s + 1"
      using Cons.prems by (simp add: EnqueueClassify_def EnqueueOutbox_def tx_wrap_def stmt_def)
    have "int8_ok (outbox_id_seq s')" unfolding s'(2) by (rule int8_ok_between [OF Cons.prems(2,3)]) simp_all
    moreover have "int8_ok (outbox_id_seq s' + int (length ts))" using Cons.prems(3) by (simp add: s'(2) add_ac)
    ultimately have "succeeds (enqueue_pending i v ts) s'" using Cons s' by simp
    with one False show ?thesis by (simp add: succeeds_step)
  qed
qed

text \<open>Room for the rows an extraction adds.\<close>

definition room :: "string \<Rightarrow> nat \<Rightarrow> pg \<Rightarrow> bool" where
  "room i k s \<longleftrightarrow>
     int4_ok (int (length (tokens_of i (tokens (tbl s))) + k)) \<and>
     int8_ok (tokens_id_seq s) \<and> int8_ok (tokens_id_seq s + int k) \<and>
     int8_ok (outbox_id_seq s) \<and> int8_ok (outbox_id_seq s + int (length (tokens_of i (tokens (tbl s))) + k))"

lemma upserted_length: "upserted i v es s new s' \<Longrightarrow> length new \<le> length es"
proof -
  assume up: "upserted i v es s new s'"
  then have "length new = card (natural_key ` set new)"
    by (metis distinct_card length_map list.set_map upserted_def)
  also have "\<dots> \<le> card (entity_key i v ` set es)"
    using up by (intro card_mono) (auto simp: upserted_def)
  also have "\<dots> \<le> length es" by (metis card_length list.set_map length_map)
  finally show ?thesis .
qed

lemma succeeds_persist:
  assumes inv: "db_inv s" and f: "faults s = []" and cur: "documents (tbl s) (doc_ID doc) = Some cur"
    and v: "doc_RunVersion cur = doc_RunVersion doc" and es: "list_all storable es" and rm: "room (doc_ID doc) (length es) s"
  shows "succeeds (persist doc es) s"
proof -
  let ?i = "doc_ID doc" and ?v = "doc_RunVersion doc"
  have ok: "text_ok ?i" "int4_ok ?v" using db_inv_doc [OF inv cur] v by (simp_all add: doc_ok_def)
  have get: "GetDocumentForUpdate ?i s = (Inr cur, s)" using f cur ok by (simp add: GetDocumentForUpdate_Inr)
  have "succeeds (UpsertTokens ?i ?v es) s"
    using f cur ok es rm by (intro succeeds_UpsertTokens) (simp_all add: room_def)
  then obtain u t where up: "UpsertTokens ?i ?v es s = (Inr u, t)" and t: "faults t = []" by (rule succeedsE)
  from UpsertTokens_succ [OF up] obtain new where new: "upserted ?i ?v es s new t" ..
  let ?n = "int (length (run_tokens ?i ?v (tokens (tbl t))))"
  have "run_tokens ?i ?v (tokens (tbl t)) = tokens_of ?i (tokens (tbl s)) @ new"
    using run_tokens_current [OF inv cur] v new by (simp add: upserted_def run_tokens_def)
  then have n: "?n \<le> int (length (tokens_of ?i (tokens (tbl s))) + length es)" using upserted_length [OF new] by simp
  have count: "CountTokens ?i ?v t = (Inr ?n, t)" using t by (simp add: CountTokens_def tx_wrap_def stmt_def)
  have n4: "int4_ok ?n" using n rm by (simp add: room_def int4_ok_def)
  obtain t1 where adv: "AdvanceToClassifying ?i ?n t = (Inr (), t1)" and t1: "faults t1 = []"
      "outbox_id_seq t1 = outbox_id_seq s" "tokens (tbl t1) = tokens (tbl t)"
    using t n4 new by (simp add: AdvanceToClassifying_def tx_wrap_def stmt_def upserted_def)
  have list: "ListTokensForRun ?i ?v t1 = (Inr (sort_key tok_ID (run_tokens ?i ?v (tokens (tbl t)))), t1)"
    using t1 by (simp add: ListTokensForRun_def tx_wrap_def stmt_def)
  have "succeeds (enqueue_pending ?i ?v (sort_key tok_ID (run_tokens ?i ?v (tokens (tbl t))))) t1"
    using t1 rm n by (intro succeeds_enqueue_pending) (auto simp: room_def int8_ok_def)
  then obtain u' t2 where enq: "enqueue_pending ?i ?v (sort_key tok_ID (run_tokens ?i ?v (tokens (tbl t)))) t1 = (Inr u', t2)"
    and t2: "faults t2 = []" by (rule succeedsE)
  obtain t3 where empty: "MarkExtractionCompletedEmpty ?i t = (Inr (), t3)" "faults t3 = []"
    using t by (simp add: MarkExtractionCompletedEmpty_def tx_wrap_def stmt_def)
  have "succeeds (persist_body doc es) s"
    using v t2 empty(2)
    by (simp add: succeeds_def persist_body_def tx_bind_def tx_return_def get up count adv list enq empty(1))
  with f show ?thesis unfolding persist_def by (rule succeeds_WithinTx)
qed

lemma succeeds_claim:
  assumes "db_inv s" and "faults s = []" and "documents (tbl s) i = Some d"
  shows "succeeds (claim i) s"
proof -
  have "text_ok i" using db_inv_doc [OF assms(1,3)] by (simp add: doc_ok_def)
  then have get: "GetDocumentForUpdate i s = (Inr d, s)" using assms by (simp add: GetDocumentForUpdate_Inr)
  have "succeeds (claim_body i) s"
    using assms(2)
    by (simp add: succeeds_def claim_body_def tx_bind_def get tx_return_def SetExtractionStarted_def tx_wrap_def stmt_def)
  with assms(2) show ?thesis unfolding claim_def by (rule succeeds_WithinTx)
qed

lemma succeeds_apply:
  assumes inv: "db_inv s" and f: "faults s = []" and t: "t \<in> set (tokens (tbl s))"
    and c: "text_ok (cls_Category c)" "text_ok (cls_Reasoning c)"
    and few: "int4_ok (int (length (tokens_of (tok_DocumentID t) (tokens (tbl s)))) + 1)"
  shows "succeeds (apply_result (tok_ID t) (tok_RunVersion t) c) s"
proof -
  let ?i = "tok_DocumentID t"
  from db_inv_token [OF inv t] obtain d where d: "documents (tbl s) ?i = Some d" "tok_RunVersion t = doc_RunVersion d"
    by (auto simp: token_ok_def)
  note ok = db_inv_doc [OF inv d(1)]
  have tok: "GetTokenForUpdate (tok_ID t) s = (Inr t, s)"
    using f token_of_id [OF inv t] by (simp add: GetTokenForUpdate_Inr)
  have doc: "GetDocumentForUpdate ?i s = (Inr d, s)" using f d ok by (simp add: GetDocumentForUpdate_Inr doc_ok_def)
  obtain s1 where set: "SetTokenClassified (tok_ID t) c s = (Inr (), s1)" "faults s1 = []" "documents (tbl s1) = documents (tbl s)"
    using f c by (simp add: SetTokenClassified_def tx_wrap_def stmt_def)
  have "0 \<le> doc_ClassifiedCount d" "doc_ClassifiedCount d \<le> int (length (tokens_of ?i (tokens (tbl s))))"
    using ok by (simp_all add: doc_ok_def)
  then have "int4_ok (doc_ClassifiedCount d + 1)" using few by (simp add: int4_ok_def)
  then obtain n s2 where inc: "IncrementClassifiedCount ?i s1 = (Inr n, s2)" "faults s2 = []"
    using set d by (simp add: IncrementClassifiedCount_def tx_wrap_def stmt_def)
  obtain s3 where fin: "MarkDocumentCompleted ?i s2 = (Inr (), s3)" "faults s3 = []"
    using inc(2) by (simp add: MarkDocumentCompleted_def tx_wrap_def stmt_def)
  have "succeeds (apply_body (tok_ID t) (tok_RunVersion t) c) s"
    using d(2) f inc(2) fin(2)
    by (simp add: succeeds_def apply_body_def tx_bind_def tx_return_def tok doc set(1) inc(1) fin(1))
  with f show ?thesis unfolding apply_result_def by (rule succeeds_WithinTx)
qed

section \<open>The relay\<close>

text \<open>Whatever every batch keeps, a tick keeps.\<close>

lemma drainAll_keeps:
  assumes "\<And>s lk. P s \<Longrightarrow> P (snd (drainBatch lk relay_batch s))" and "P s"
  shows "P (drainAll locked cancelled k s)"
  using assms(2)
proof (induction locked cancelled k s rule: drainAll.induct)
  case (1 locked cancelled k s)
  obtain r s' where d: "drainBatch (locked k) relay_batch s = (r, s')" by force
  with assms(1) [OF 1(2), of "locked k"] have "P s'" by simp
  with 1(1) d show ?case by (cases r) (auto simp: drainAll.simps [of _ _ k s])
qed

definition tick :: "pg \<Rightarrow> pg" where
  "tick = drainAll (\<lambda>_. {}) (\<lambda>_. False) 0"

lemma tick_effect:
  assumes "db_inv s" and "faults s = []"
  shows "db_inv (tick s)" and "faults (tick s) = []" and "outbox (tbl (tick s)) = []"
    and "broker_log (tick s) = broker_log s @ map row_message (sort_key obx_ID (outbox (tbl s)))"
    and "documents (tbl (tick s)) = documents (tbl s)" and "tokens (tbl (tick s)) = tokens (tbl s)"
    and "tokens_id_seq (tick s) = tokens_id_seq s" and "outbox_id_seq (tick s) = outbox_id_seq s"
    and "now (tick s) = now s"
proof -
  let ?P = "\<lambda>u. db_inv u \<and> faults u = [] \<and> documents (tbl u) = documents (tbl s) \<and> tokens (tbl u) = tokens (tbl s) \<and>
    tokens_id_seq u = tokens_id_seq s \<and> outbox_id_seq u = outbox_id_seq s \<and> now u = now s"
  have "?P (tick s)" unfolding tick_def
  proof (rule drainAll_keeps)
    fix u lk assume u: "?P u"
    with no_faults_drainBatch [of u lk relay_batch] obtain n u' where d: "drainBatch lk relay_batch u = (Inr n, u')" "faults u' = []"
      by blast
    with drainBatch_succ(2) [OF d(1)] drainBatch_inv [of u lk relay_batch] u show "?P (snd (drainBatch lk relay_batch u))"
      by (simp add: published_def)
  qed (use assms in simp)
  then show "db_inv (tick s)" "faults (tick s) = []" "documents (tbl (tick s)) = documents (tbl s)"
    "tokens (tbl (tick s)) = tokens (tbl s)" "tokens_id_seq (tick s) = tokens_id_seq s"
    "outbox_id_seq (tick s) = outbox_id_seq s" "now (tick s) = now s" by simp_all
  show "outbox (tbl (tick s)) = []"
    "broker_log (tick s) = broker_log s @ map row_message (sort_key obx_ID (outbox (tbl s)))"
    using drainAll_empties [OF assms(2) db_inv_outbox_distinct [OF assms(1)], of 0] by (simp_all add: tick_def)
qed

section \<open>Submission\<close>

text \<open>
  A submission that starts a run: of a new document, or of an existing one with a full rerun,
  whose tokens are deleted. The run it starts has the next version.
\<close>

definition next_version :: "string \<Rightarrow> pg \<Rightarrow> int" where
  "next_version i s = (case documents (tbl s) i of None \<Rightarrow> 1 | Some d \<Rightarrow> doc_RunVersion d + 1)"

definition starts_run :: "string \<Rightarrow> RerunMode \<Rightarrow> pg \<Rightarrow> bool" where
  "starts_run i mode s \<longleftrightarrow> (documents (tbl s) i = None \<or> mode = RerunFull) \<and> int4_ok (next_version i s)"

lemma Submit_starts:
  assumes "db_inv s" and "faults s = []" and "text_ok i" and "text_ok x" and "int8_ok (outbox_id_seq s)"
    and "starts_run i mode s"
  shows "\<exists>res s' d. Submit i x mode s = (Inr res, s') \<and> db_inv s' \<and> faults s' = [] \<and>
     documents (tbl s') i = Some d \<and> doc_Status d = DocPending \<and> doc_RunVersion d = next_version i s \<and>
     doc_ID d = i \<and> doc_Text d = x \<and> sub_Document res = d \<and> Accepted res \<and> tokens_of i (tokens (tbl s')) = [] \<and>
     map row_message (outbox (tbl s')) = map row_message (outbox (tbl s)) @ [extract_message i (next_version i s)] \<and>
     outbox_id_seq s' = outbox_id_seq s + 1 \<and> tokens_id_seq s' = tokens_id_seq s \<and> broker_log s' = broker_log s"
proof -
  have inv: "db_inv (snd (Submit i x mode s))"
    using WithinTx_inv [OF keeps_Submit(2) Submit_body_inv assms(1)] by (simp add: Submit_def)
  have eval: "\<exists>res s' d. Submit i x mode s = (Inr res, s') \<and> faults s' = [] \<and>
     documents (tbl s') i = Some d \<and> doc_Status d = DocPending \<and> doc_RunVersion d = next_version i s \<and>
     doc_ID d = i \<and> doc_Text d = x \<and> sub_Document res = d \<and> Accepted res \<and> doc_TotalTokens d = 0 \<and>
     map row_message (outbox (tbl s')) = map row_message (outbox (tbl s)) @ [extract_message i (next_version i s)] \<and>
     outbox_id_seq s' = outbox_id_seq s + 1 \<and> tokens_id_seq s' = tokens_id_seq s \<and> broker_log s' = broker_log s"
  proof (cases "documents (tbl s) i")
    case None
    with assms(2-5) show ?thesis
      by (simp add: tx_eval Submit_def Submit_body_def Submit_decide_def GetDocumentForUpdate_def getDocumentTx_def
          InsertDocument_def EnqueueExtract_def EnqueueOutbox_def new_document_def row_message_def extract_message_def
          next_version_def)
  next
    case (Some d)
    with assms(6) have "mode = RerunFull" "int4_ok (doc_RunVersion d + 1)" by (simp_all add: starts_run_def next_version_def)
    with Some assms(2-5) db_inv_doc [OF assms(1) Some] show ?thesis
      by (simp add: tx_eval Submit_def Submit_body_def Submit_decide_def GetDocumentForUpdate_def getDocumentTx_def
          ResetDocument_def select_doc_def update_doc_def reset_row_def doc_ok_def EnqueueExtract_def EnqueueOutbox_def
          row_message_def extract_message_def next_version_def)
  qed
  then obtain res s' d where sub: "Submit i x mode s = (Inr res, s')" "faults s' = []" "documents (tbl s') i = Some d"
    "doc_Status d = DocPending" "doc_RunVersion d = next_version i s" "doc_ID d = i" "doc_Text d = x" "sub_Document res = d" "Accepted res" "doc_TotalTokens d = 0"
    "map row_message (outbox (tbl s')) = map row_message (outbox (tbl s)) @ [extract_message i (next_version i s)]"
    "outbox_id_seq s' = outbox_id_seq s + 1" "tokens_id_seq s' = tokens_id_seq s" "broker_log s' = broker_log s" by blast
  with inv have "db_inv s'" by simp
  from db_inv_doc [OF this sub(3)] sub(10) have "tokens_of i (tokens (tbl s')) = []" by (simp add: doc_ok_def)
  with sub \<open>db_inv s'\<close> show ?thesis by blast
qed

text \<open>An id or a text the database does not take is all that can be wrong with such a submission.\<close>

lemma Submit_refuses:
  assumes "db_inv s" and "faults s = []" and "starts_run i mode s" and "\<not> (text_ok i \<and> text_ok x)"
  shows "\<exists>e s'. Submit i x mode s = (Inl e, s') \<and> tbl s' = tbl s"
proof (cases "text_ok i")
  case False
  then show ?thesis using assms(2)
    by (simp add: tx_eval Submit_def Submit_body_def Submit_decide_def GetDocumentForUpdate_def getDocumentTx_def)
next
  case True
  with assms(4) have x: "\<not> text_ok x" by simp
  show ?thesis
  proof (cases "documents (tbl s) i")
    case None
    with True x assms(2) show ?thesis
      by (simp add: tx_eval Submit_def Submit_body_def Submit_decide_def GetDocumentForUpdate_def getDocumentTx_def InsertDocument_def)
  next
    case (Some d)
    with assms(3) have "mode = RerunFull" by (simp add: starts_run_def)
    with Some True x assms(2) show ?thesis
      by (simp add: tx_eval Submit_def Submit_body_def Submit_decide_def GetDocumentForUpdate_def getDocumentTx_def
          ResetDocument_def select_doc_def)
  qed
qed

section \<open>Extraction\<close>

lemma claim_pending:
  assumes "db_inv s" and "faults s = []" and "documents (tbl s) i = Some d" and "doc_Status d = DocPending"
  shows "\<exists>s'. claim i s = (Inr (d\<lparr>doc_Status := DocExtracting\<rparr>), s') \<and> db_inv s' \<and> faults s' = [] \<and>
     documents (tbl s') = (documents (tbl s))(i \<mapsto> d\<lparr>doc_Status := DocExtracting,
       ExtractionStartedAt := Some (now s), doc_UpdatedAt := now s\<rparr>) \<and>
     tokens (tbl s') = tokens (tbl s) \<and> outbox (tbl s') = outbox (tbl s) \<and>
     outbox_id_seq s' = outbox_id_seq s \<and> tokens_id_seq s' = tokens_id_seq s \<and> broker_log s' = broker_log s"
proof -
  have "text_ok i" using db_inv_doc [OF assms(1,3)] by (simp add: doc_ok_def)
  moreover have "db_inv (snd (claim i s))"
    using WithinTx_inv [OF keeps_extraction(1) claim_body_inv assms(1)] by (simp add: claim_def)
  ultimately show ?thesis using assms(2-4)
    by (simp add: claim_def claim_body_def tx_eval GetDocumentForUpdate_def getDocumentTx_def select_doc_def
        SetExtractionStarted_def update_doc_def)
qed

lemma row_message_number_rows:
  "map row_message (number_rows n xs) = map (\<lambda>(a, b, c). (a, \<lparr>msg_Key = b, msg_Payload = c\<rparr>)) xs"
  by (induction n xs rule: number_rows.induct) (simp_all add: row_message_def)

lemma number_rows_sorted: "sort_key obx_ID (number_rows n xs) = number_rows n xs"
proof (rule sort_key_id_if_sorted)
  show "sorted (map obx_ID (number_rows n xs))"
    by (induction n xs rule: number_rows.induct) (auto dest: number_rows_ids)
qed

lemma persist_runs:
  assumes "db_inv s" and "faults s = []" and "documents (tbl s) (doc_ID doc) = Some cur"
    and "doc_RunVersion cur = doc_RunVersion doc" and "list_all storable es" and "room (doc_ID doc) (length es) s"
  shows "\<exists>n s'. persist doc es s = (Inr n, s') \<and> db_inv s' \<and> faults s' = [] \<and> broker_log s' = broker_log s"
proof -
  from succeeds_persist [OF assms] obtain n s' where p: "persist doc es s = (Inr n, s')" "faults s' = []"
    by (rule succeedsE)
  moreover have "db_inv (snd (persist doc es s))"
    using WithinTx_inv [OF keeps_extraction(2) persist_body_inv assms(1)] by (simp add: persist_def)
  moreover have "quiet s s'"
    using keepsD [OF uow.keeps_run [OF keeps_extraction(2)] p(1) [unfolded persist_def]] .
  ultimately show ?thesis by (simp add: quiet_def)
qed

text \<open>A delivered extract job of a pending document without tokens is acknowledged, and fans out.\<close>

lemma extract_delivery:
  assumes inv: "db_inv s" and f: "faults s = []" and d: "documents (tbl s) i = Some d" "doc_Status d = DocPending"
    and none: "tokens_of i (tokens (tbl s)) = []" and out: "outbox (tbl s) = []"
    and extr: "extr (d\<lparr>doc_Status := DocExtracting\<rparr>) = Inr es" and es: "list_all storable es"
    and rm: "room i (length es) s"
  shows "\<exists>s' d'. handle_extract extr (snd (extract_message i (doc_RunVersion d))) s = (None, s') \<and>
     db_inv s' \<and> faults s' = [] \<and> broker_log s' = broker_log s \<and>
     documents (tbl s') i = Some d' \<and>
     doc_Status d' = (if tokens_of i (tokens (tbl s')) = [] then DocCompleted else DocClassifying) \<and>
     (\<forall>t \<in> set (tokens_of i (tokens (tbl s'))). tok_Status t = TokenPending) \<and>
     natural_key ` set (tokens_of i (tokens (tbl s'))) = entity_key i (doc_RunVersion d) ` set es \<and>
     length (tokens_of i (tokens (tbl s'))) \<le> length es \<and>
     map row_message (sort_key obx_ID (outbox (tbl s'))) = map token_message (sort_key tok_ID (tokens_of i (tokens (tbl s'))))"
proof -
  let ?v = "doc_RunVersion d" and ?doc = "d\<lparr>doc_Status := DocExtracting\<rparr>"
  note ok = db_inv_doc [OF inv d(1)]
  have dec: "decode_ExtractJob (msg_Payload (snd (extract_message i ?v))) = Inr \<lparr>ej_DocumentID = i, ej_RunVersion = ?v\<rparr>"
    using ok by (intro extract_message_decode [of i ?v ?v]) (simp_all add: doc_ok_def)
  from claim_pending [OF inv f d] obtain s1 where cl: "claim i s = (Inr ?doc, s1)" and s1: "db_inv s1" "faults s1 = []"
    "documents (tbl s1) i = Some (d\<lparr>doc_Status := DocExtracting, ExtractionStartedAt := Some (now s), doc_UpdatedAt := now s\<rparr>)"
    "tokens (tbl s1) = tokens (tbl s)" "outbox (tbl s1) = []" "outbox_id_seq s1 = outbox_id_seq s"
    "tokens_id_seq s1 = tokens_id_seq s" "broker_log s1 = broker_log s" by (auto simp: out)
  have docID: "doc_ID ?doc = i" using ok by (simp add: doc_ok_def)
  have "room (doc_ID ?doc) (length es) s1" using rm s1 unfolding docID by (simp add: room_def)
  with persist_runs [of s1 ?doc, OF s1(1,2) _ _ es] s1(3) docID obtain n s2 where
    p: "persist ?doc es s1 = (Inr n, s2)" and s2: "db_inv s2" "faults s2 = []" "broker_log s2 = broker_log s1" by auto
  from persist_effect [OF p s1(1), unfolded docID] obtain cur t new where
    e: "documents (tbl s2) i = Some (persisted_row n t cur)" "tokens (tbl s2) = tokens (tbl s1) @ new"
    "\<forall>t \<in> set new. tok_DocumentID t = i \<and> tok_Status t = TokenPending"
    "natural_key ` set new = entity_key i ?v ` set es - natural_key ` set (tokens (tbl s1))"
    "n = int (length (tokens_of i (tokens (tbl s2))))" "doc_RunVersion cur = ?v"
    "outbox (tbl s2) = number_rows (outbox_id_seq s1) (map (classify_msg i ?v)
       (filter unclassified (sort_key tok_ID (tokens_of i (tokens (tbl s2))))))"
    by (simp add: s1(5)) metis
  have new: "tokens_of i (tokens (tbl s2)) = new"
    using e(2,3) none s1(4) by (simp add: tokens_of_def)
  have run: "tok_RunVersion u = ?v \<and> tok_DocumentID u = i" if "u \<in> set new" for u
    using db_inv_token [OF s2(1), of u] that e by (auto simp: token_ok_def persisted_row_def split: if_splits)
  have fresh: "natural_key ` set new = entity_key i ?v ` set es"
  proof -
    have "entity_key i ?v x \<notin> natural_key ` set (tokens (tbl s1))" for x
      using none s1(4) by (auto simp: tokens_of_def natural_key_def entity_key_def filter_empty_conv)
    then have "entity_key i ?v ` set es \<inter> natural_key ` set (tokens (tbl s1)) = {}"
      by (metis disjoint_iff imageE)
    then show ?thesis unfolding e(4) by (rule Diff_triv)
  qed
  have "distinct (map natural_key new)" using s2(1) e(2) by (simp add: db_inv_defs)
  then have "length new = card (entity_key i ?v ` set es)" using fresh by (metis distinct_card length_map list.set_map)
  then have len: "length new \<le> length es" by (metis card_length length_map list.set_map)
  have "filter unclassified (sort_key tok_ID new) = sort_key tok_ID new"
    using e(3) by (intro filter_True) (simp add: unclassified_def)
  then have msgs: "map row_message (sort_key obx_ID (outbox (tbl s2))) = map token_message (sort_key tok_ID new)"
    unfolding e(7) new number_rows_sorted row_message_number_rows map_map
    using run by (simp add: classify_msg_def token_message_def classify_message_def)
  have handled: "handle_extract extr (snd (extract_message i ?v)) s = (None, s2)"
    using dec cl extr p
    by (simp add: handle_extract_def Process_extract_def tx_bind_def tx_return_def extraction_over_def delivery_def)
  have st: "doc_Status (persisted_row n t cur) = (if new = [] then DocCompleted else DocClassifying)"
    using e(5) new by (simp add: persisted_row_def)
  show ?thesis
    using e(1,3) s2 s1(8) new len fresh msgs handled st by (intro exI [of _ s2] exI [of _ "persisted_row n t cur"]) simp
qed

section \<open>Classification\<close>

text \<open>A classifier that always answers, with text the database can store.\<close>

definition answers :: "Classifier \<Rightarrow> bool" where
  "answers cls \<longleftrightarrow> (\<forall>t. \<exists>c. cls t = Inr c \<and> text_ok (cls_Category c) \<and> text_ok (cls_Reasoning c))"

text \<open>A row as the classifier's answer left it.\<close>

definition answered :: "Classifier \<Rightarrow> Token \<Rightarrow> bool" where
  "answered cls t \<longleftrightarrow> (\<exists>u c \<tau>. cls u = Inr c \<and> t = classify_row c \<tau> u)"

text \<open>A document on its way: it is completed exactly when all its tokens are classified.\<close>

definition in_progress :: "Classifier \<Rightarrow> string \<Rightarrow> pg \<Rightarrow> bool" where
  "in_progress cls i s \<longleftrightarrow>
     db_inv s \<and> faults s = [] \<and> int4_ok (int (length (tokens_of i (tokens (tbl s)))) + 1) \<and>
     (\<exists>d. documents (tbl s) i = Some d \<and>
        (doc_Status d = DocCompleted \<longleftrightarrow> (\<forall>t \<in> set (tokens_of i (tokens (tbl s))). tok_Status t = TokenClassified))) \<and>
     (\<forall>t \<in> set (tokens_of i (tokens (tbl s))). tok_Status t = TokenClassified \<longrightarrow> answered cls t)"

definition pending_ids :: "string \<Rightarrow> pg \<Rightarrow> int set" where
  "pending_ids i s = tok_ID ` {t \<in> set (tokens_of i (tokens (tbl s))). tok_Status t \<noteq> TokenClassified}"

definition identity :: "Token \<Rightarrow> (int \<times> int) \<times> (string \<times> int \<times> int \<times> int \<times> string)" where
  "identity t = ((tok_ID t, tok_RunVersion t), natural_key t)"

lemma classify_row_simps [simp]:
  "tok_ID (classify_row c \<tau> t) = tok_ID t" "tok_DocumentID (classify_row c \<tau> t) = tok_DocumentID t"
  "tok_Status (classify_row c \<tau> t) = TokenClassified" "identity (classify_row c \<tau> t) = identity t"
  by (simp_all add: classify_row_def identity_def natural_key_def)

text \<open>A delivered classify job is acknowledged; its token is classified afterwards.\<close>

lemma classify_delivery:
  assumes k: "in_progress cls i s" and cls: "answers cls" and t: "t \<in> set (tokens_of i (tokens (tbl s)))"
  shows "\<exists>s'. handle_classify cls (snd (token_message t)) s = (None, s') \<and> in_progress cls i s' \<and>
     map identity (tokens_of i (tokens (tbl s'))) = map identity (tokens_of i (tokens (tbl s))) \<and>
     pending_ids i s' \<subseteq> pending_ids i s - {tok_ID t}"
proof -
  from k have inv: "db_inv s" and f: "faults s = []" by (simp_all add: in_progress_def)
  from t have t': "t \<in> set (tokens (tbl s))" "tok_DocumentID t = i" by (simp_all add: tokens_of_def)
  from db_inv_token [OF inv t'(1)] obtain d0 where d0: "documents (tbl s) i = Some d0" "tok_RunVersion t = doc_RunVersion d0"
    "int8_ok (tok_ID t)" by (auto simp: token_ok_def t'(2))
  have "wf_ClassifyJob \<lparr>cj_TokenID = tok_ID t, cj_DocumentID = tok_DocumentID t, cj_RunVersion = tok_RunVersion t\<rparr>"
    using db_inv_doc [OF inv d0(1)] d0 t'(2) by (auto simp: wf_ClassifyJob_def doc_ok_def text_ok_def int4_ok_def int8_ok_def)
  note dec = classify_message_decode [OF this]
  have get: "GetToken (tok_ID t) s = (Inr t, s)" using f token_of_id [OF inv t'(1)] by (simp add: GetToken_Inr)
  show ?thesis
  proof (cases "tok_Status t = TokenClassified")
    case True
    have "tok_ID t \<notin> pending_ids i s"
    proof
      assume "tok_ID t \<in> pending_ids i s"
      then obtain u where u: "u \<in> set (tokens (tbl s))" "tok_ID u = tok_ID t" "tok_Status u \<noteq> TokenClassified"
        by (auto simp: pending_ids_def tokens_of_def)
      then have "u \<in> set (filter (\<lambda>w. tok_ID w = tok_ID t) (tokens (tbl s)))" by simp
      with token_of_id [OF inv t'(1)] True u(3) show False by simp
    qed
    moreover have "handle_classify cls (snd (token_message t)) s = (None, s)"
      using dec get True by (simp add: handle_classify_def token_message_def Process_classify_def tx_bind_def tx_return_def delivery_def)
    ultimately show ?thesis using k by auto
  next
    case pend: False
    from cls obtain c where c: "cls t = Inr c" "text_ok (cls_Category c)" "text_ok (cls_Reasoning c)"
      unfolding answers_def by blast
    from succeeds_apply [OF inv f t'(1) c(2,3)] k t'(2) obtain u s' where
      ap: "apply_result (tok_ID t) (tok_RunVersion t) c s = (Inr (), s')" and f': "faults s' = []"
      by (auto simp: in_progress_def elim!: succeedsE)
    have inv': "db_inv s'"
      using WithinTx_inv [OF keeps_apply apply_body_inv inv, of "tok_ID t" "tok_RunVersion t" c] ap by (simp add: apply_result_def)
    from apply_effect [OF inv t'(1) pend ap] obtain d d' where
      docs: "documents (tbl s) i = Some d" "documents (tbl s') i = Some d'"
      and toks: "tokens (tbl s') = map (\<lambda>u. if u = t then classify_row c (now s) t else u) (tokens (tbl s))"
      and st: "doc_Status d' = (if \<forall>u \<in> set (tokens_of i (tokens (tbl s'))). tok_Status u = TokenClassified
                      then DocCompleted else doc_Status d)"
      by (auto simp: t'(2))
    have ofs: "tokens_of i (tokens (tbl s')) = map (\<lambda>u. if u = t then classify_row c (now s) t else u) (tokens_of i (tokens (tbl s)))"
      unfolding toks tokens_of_def filter_map using t'(2)
      by (auto intro!: arg_cong [where f = "map _"] filter_cong split: if_splits)
    have ids: "map identity (tokens_of i (tokens (tbl s'))) = map identity (tokens_of i (tokens (tbl s)))"
      unfolding ofs map_map by (rule map_cong) auto
    have "doc_Status d \<noteq> DocCompleted" using k docs(1) t pend by (auto simp: in_progress_def)
    then have compl: "doc_Status d' = DocCompleted \<longleftrightarrow> (\<forall>u \<in> set (tokens_of i (tokens (tbl s'))). tok_Status u = TokenClassified)"
      using st by simp
    have "answered cls u" if "u \<in> set (tokens_of i (tokens (tbl s')))" "tok_Status u = TokenClassified" for u
      using that k c(1) unfolding ofs in_progress_def by (auto simp: answered_def split: if_splits)
    then have "in_progress cls i s'" using k inv' f' docs(2) compl ofs by (auto simp: in_progress_def)
    moreover have "handle_classify cls (snd (token_message t)) s = (None, s')"
      using dec get pend c(1) ap
      by (simp add: handle_classify_def token_message_def Process_classify_def tx_bind_def tx_return_def delivery_def)
    moreover have "pending_ids i s' \<subseteq> pending_ids i s - {tok_ID t}"
    proof -
      have "u = t" if "u \<in> set (tokens_of i (tokens (tbl s)))" "tok_ID u = tok_ID t" for u
      proof -
        from that have "u \<in> set (filter (\<lambda>w. tok_ID w = tok_ID t) (tokens (tbl s)))" by (simp add: tokens_of_def)
        with token_of_id [OF inv t'(1)] show ?thesis by simp
      qed
      then show ?thesis unfolding pending_ids_def ofs by (auto split: if_splits)
    qed
    ultimately show ?thesis using ids by blast
  qed
qed

section \<open>The whole way\<close>

text \<open>Messages handed to a handler one after the other, with what it decides about each.\<close>

fun deliver_all :: "(Message \<Rightarrow> pg \<Rightarrow> go_error option \<times> pg) \<Rightarrow> (string \<times> Message) list \<Rightarrow> pg \<Rightarrow>
    go_error option list \<times> pg" where
  "deliver_all h [] s = ([], s)"
| "deliver_all h (m # ms) s =
     (case h (snd m) s of (r, s') \<Rightarrow> (case deliver_all h ms s' of (rs, s'') \<Rightarrow> (r # rs, s'')))"

text \<open>
  One document: submitted, published by a tick of the relay, its message handled, the classify
  jobs published by the next tick and handled. The result is every handler's decision, and the
  state in the end.
\<close>

definition relay_and_handle ::
    "(Message \<Rightarrow> pg \<Rightarrow> go_error option \<times> pg) \<Rightarrow> pg \<Rightarrow> go_error option list \<times> pg" where
  "relay_and_handle h s = deliver_all h (drop (length (broker_log s)) (broker_log (tick s))) (tick s)"

definition work_off :: "Extractor \<Rightarrow> Classifier \<Rightarrow> pg \<Rightarrow> go_error option list \<times> pg" where
  "work_off extr cls s =
     (case relay_and_handle (handle_extract extr) s of
        (rs, s') \<Rightarrow> (case relay_and_handle (handle_classify cls) s' of (rs', s'') \<Rightarrow> (rs @ rs', s'')))"

definition run_document ::
    "Extractor \<Rightarrow> Classifier \<Rightarrow> string \<Rightarrow> string \<Rightarrow> RerunMode \<Rightarrow> pg \<Rightarrow> go_error option list \<times> pg" where
  "run_document extr cls i x mode s = work_off extr cls (snd (Submit i x mode s))"

text \<open>
  What such a run leaves: the document completed, one token for every distinct entity, each as
  the classifier answered, the counters at their number.
\<close>

definition completed_run :: "Classifier \<Rightarrow> string \<Rightarrow> int \<Rightarrow> Entity list \<Rightarrow> pg \<Rightarrow> bool" where
  "completed_run cls i v es s \<longleftrightarrow>
     (\<exists>d. documents (tbl s) i = Some d \<and> doc_Status d = DocCompleted \<and>
        natural_key ` set (tokens_of i (tokens (tbl s))) = entity_key i v ` set es \<and>
        doc_TotalTokens d = int (card (entity_key i v ` set es)) \<and> doc_ClassifiedCount d = doc_TotalTokens d \<and>
        (\<forall>t \<in> set (tokens_of i (tokens (tbl s))). answered cls t))"

lemma classify_all:
  assumes "in_progress cls i s" and "answers cls"
    and "\<forall>t \<in> set ts. identity t \<in> identity ` set (tokens_of i (tokens (tbl s))) \<and> tok_DocumentID t = i"
  shows "\<exists>rs s'. deliver_all (handle_classify cls) (map token_message ts) s = (rs, s') \<and> set rs \<subseteq> {None} \<and>
     in_progress cls i s' \<and> map identity (tokens_of i (tokens (tbl s'))) = map identity (tokens_of i (tokens (tbl s))) \<and>
     pending_ids i s' \<subseteq> pending_ids i s - tok_ID ` set ts"
  using assms(1,3)
proof (induction ts arbitrary: s)
  case (Cons t ts)
  then obtain u where u: "u \<in> set (tokens_of i (tokens (tbl s)))" "identity u = identity t" "tok_DocumentID t = i" by force
  then have same: "token_message u = token_message t" "tok_ID u = tok_ID t"
    by (simp_all add: token_message_def identity_def natural_key_def)
  from classify_delivery [OF Cons.prems(1) assms(2) u(1)] obtain s1 where
    s1: "handle_classify cls (snd (token_message t)) s = (None, s1)" "in_progress cls i s1"
    "map identity (tokens_of i (tokens (tbl s1))) = map identity (tokens_of i (tokens (tbl s)))"
    "pending_ids i s1 \<subseteq> pending_ids i s - {tok_ID t}" unfolding same by blast
  from s1(3) have "identity ` set (tokens_of i (tokens (tbl s1))) = identity ` set (tokens_of i (tokens (tbl s)))"
    by (metis list.set_map)
  with Cons.IH [OF s1(2)] Cons.prems(2) obtain rs s' where
    "deliver_all (handle_classify cls) (map token_message ts) s1 = (rs, s')" "set rs \<subseteq> {None}" "in_progress cls i s'"
    "map identity (tokens_of i (tokens (tbl s'))) = map identity (tokens_of i (tokens (tbl s1)))"
    "pending_ids i s' \<subseteq> pending_ids i s1 - tok_ID ` set ts" by auto
  with s1 show ?case by (intro exI [of _ "None # rs"] exI [of _ s']) auto
qed simp

lemma all_answered:
  assumes "in_progress cls i s" and "pending_ids i s = {}"
  shows "\<exists>d. documents (tbl s) i = Some d \<and> doc_Status d = DocCompleted \<and>
     doc_TotalTokens d = int (length (tokens_of i (tokens (tbl s)))) \<and> doc_ClassifiedCount d = doc_TotalTokens d \<and>
     (\<forall>t \<in> set (tokens_of i (tokens (tbl s))). answered cls t)"
proof -
  from assms(1) obtain d where d: "db_inv s" "documents (tbl s) i = Some d"
    "doc_Status d = DocCompleted \<longleftrightarrow> (\<forall>t \<in> set (tokens_of i (tokens (tbl s))). tok_Status t = TokenClassified)"
    "\<forall>t \<in> set (tokens_of i (tokens (tbl s))). tok_Status t = TokenClassified \<longrightarrow> answered cls t"
    unfolding in_progress_def by blast
  have all: "\<forall>t \<in> set (tokens_of i (tokens (tbl s))). tok_Status t = TokenClassified"
    using assms(2) by (auto simp: pending_ids_def)
  with d(3) have "doc_Status d = DocCompleted" by blast
  with db_inv_doc [OF d(1,2)] d(2,4) all show ?thesis by (auto simp: doc_ok_def)
qed

text \<open>
  The two halves. The first takes a pending document without tokens, whose extract job is the
  only row of the outbox, to one token per distinct entity and a classify job for each in the
  outbox; the second takes such a state to a completed document.
\<close>

definition fanned_out :: "string \<Rightarrow> int \<Rightarrow> Entity list \<Rightarrow> pg \<Rightarrow> bool" where
  "fanned_out i v es s \<longleftrightarrow>
     db_inv s \<and> faults s = [] \<and>
     (\<exists>d. documents (tbl s) i = Some d \<and>
        doc_Status d = (if tokens_of i (tokens (tbl s)) = [] then DocCompleted else DocClassifying)) \<and>
     (\<forall>t \<in> set (tokens_of i (tokens (tbl s))). tok_Status t = TokenPending) \<and>
     natural_key ` set (tokens_of i (tokens (tbl s))) = entity_key i v ` set es \<and>
     length (tokens_of i (tokens (tbl s))) \<le> length es \<and>
     map row_message (sort_key obx_ID (outbox (tbl s))) = map token_message (sort_key tok_ID (tokens_of i (tokens (tbl s))))"

lemma extraction_half:
  assumes "db_inv s" and "faults s = []" and d: "documents (tbl s) i = Some d" "doc_Status d = DocPending"
    and none: "tokens_of i (tokens (tbl s)) = []"
    and out: "map row_message (outbox (tbl s)) = [extract_message i (doc_RunVersion d)]"
    and "extr (d\<lparr>doc_Status := DocExtracting\<rparr>) = Inr es" and "list_all storable es" and "room i (length es) s"
  shows "\<exists>s'. relay_and_handle (handle_extract extr) s = ([None], s') \<and> fanned_out i (doc_RunVersion d) es s'"
proof -
  note b = tick_effect [OF assms(1,2)]
  obtain row where "outbox (tbl s) = [row]" "row_message row = extract_message i (doc_RunVersion d)" using out by auto
  with b(4) have logb: "broker_log (tick s) = broker_log s @ [extract_message i (doc_RunVersion d)]" by simp
  have "room i (length es) (tick s)" "documents (tbl (tick s)) i = Some d" "tokens_of i (tokens (tbl (tick s))) = []"
    using assms(9) d(1) none b by (simp_all add: room_def)
  from extract_delivery [where extr = extr, OF b(1,2) this(2) d(2) this(3) b(3) assms(7,8) this(1)] obtain s' where
    "handle_extract extr (snd (extract_message i (doc_RunVersion d))) (tick s) = (None, s')"
    "fanned_out i (doc_RunVersion d) es s'" unfolding fanned_out_def by blast
  then show ?thesis by (auto simp: relay_and_handle_def logb)
qed

lemma fanned_out_in_progress:
  assumes "fanned_out i v es s" and "int4_ok (int (length es) + 1)"
  shows "in_progress cls i (tick s)"
proof -
  from assms(1) obtain d where d: "db_inv s" "faults s = []" "documents (tbl s) i = Some d"
    "doc_Status d = (if tokens_of i (tokens (tbl s)) = [] then DocCompleted else DocClassifying)"
    "\<forall>t \<in> set (tokens_of i (tokens (tbl s))). tok_Status t = TokenPending"
    "length (tokens_of i (tokens (tbl s))) \<le> length es" by (auto simp: fanned_out_def)
  note e = tick_effect [OF d(1,2)]
  let ?ts = "tokens_of i (tokens (tbl s))"
  have pend: "tok_Status t \<noteq> TokenClassified" if "t \<in> set ?ts" for t
    using d(5) that by (simp add: TokenPending_def TokenClassified_def)
  have "doc_Status d = DocCompleted \<longleftrightarrow> (\<forall>t \<in> set ?ts. tok_Status t = TokenClassified)"
  proof (cases ?ts)
    case (Cons t ts)
    then show ?thesis using d(4) pend [of t] by (simp add: DocCompleted_def DocClassifying_def)
  qed (use d(4) in simp)
  moreover have "int4_ok (int (length ?ts) + 1)" using d(6) assms(2) by (simp add: int4_ok_def)
  ultimately show ?thesis using e(1,2) d(3) pend by (simp add: in_progress_def e(5,6))
qed

lemma classification_half:
  assumes fan: "fanned_out i v es s" and "int4_ok (int (length es) + 1)" and "answers cls"
  shows "\<exists>rs s'. relay_and_handle (handle_classify cls) s = (rs, s') \<and> set rs \<subseteq> {None} \<and>
     db_inv s' \<and> faults s' = [] \<and> completed_run cls i v es s'"
proof -
  define ts where "ts = sort_key tok_ID (tokens_of i (tokens (tbl s)))"
  have inv: "db_inv s" "faults s = []" and keys0: "natural_key ` set (tokens_of i (tokens (tbl s))) = entity_key i v ` set es"
    and rows: "map row_message (sort_key obx_ID (outbox (tbl s))) = map token_message ts"
    using fan by (simp_all add: fanned_out_def ts_def)
  note e = tick_effect [OF inv]
  have prog: "in_progress cls i (tick s)" using fan assms(2) by (rule fanned_out_in_progress)
  have ts: "set ts = set (tokens_of i (tokens (tbl s)))" by (simp add: ts_def)
  then have "\<forall>t \<in> set ts. identity t \<in> identity ` set (tokens_of i (tokens (tbl (tick s)))) \<and> tok_DocumentID t = i"
    by (auto simp: e(6) tokens_of_def)
  from classify_all [OF prog assms(3) this] obtain rs g where
    g: "deliver_all (handle_classify cls) (map token_message ts) (tick s) = (rs, g)" "set rs \<subseteq> {None}" "in_progress cls i g"
    "map identity (tokens_of i (tokens (tbl g))) = map identity (tokens_of i (tokens (tbl (tick s))))"
    "pending_ids i g \<subseteq> pending_ids i (tick s) - tok_ID ` set ts" by blast
  have "pending_ids i (tick s) \<subseteq> tok_ID ` set ts" unfolding pending_ids_def ts e(6) by auto
  with g(5) have "pending_ids i g = {}" by blast
  from all_answered [OF g(3) this] obtain d' where d': "documents (tbl g) i = Some d'" "doc_Status d' = DocCompleted"
    "doc_TotalTokens d' = int (length (tokens_of i (tokens (tbl g))))" "doc_ClassifiedCount d' = doc_TotalTokens d'"
    "\<forall>t \<in> set (tokens_of i (tokens (tbl g))). answered cls t" by blast
  have keys: "map natural_key (tokens_of i (tokens (tbl g))) = map natural_key (tokens_of i (tokens (tbl s)))"
    using arg_cong [OF g(4), of "map snd"] by (simp add: identity_def comp_def e(6))
  have "distinct (map natural_key (tokens_of i (tokens (tbl s))))"
    using inv(1) by (simp add: db_inv_defs tokens_of_def distinct_map_filter)
  then have "length (tokens_of i (tokens (tbl g))) = card (entity_key i v ` set es)"
    using keys keys0 by (metis distinct_card length_map list.set_map)
  moreover have "natural_key ` set (tokens_of i (tokens (tbl g))) = entity_key i v ` set es"
    using keys keys0 by (metis list.set_map)
  ultimately have "completed_run cls i v es g" using d' by (simp add: completed_run_def)
  moreover have "relay_and_handle (handle_classify cls) s = (rs, g)"
    using e(4) rows g(1) by (simp add: relay_and_handle_def)
  moreover have "db_inv g" "faults g = []" using g(3) by (simp_all add: in_progress_def)
  ultimately show ?thesis using g(2) by blast
qed

text \<open>Both halves after a submission.\<close>

lemma document_runs:
  assumes "db_inv s" and "faults s = []" and "outbox (tbl s) = []" and "starts_run i mode s"
    and "text_ok i" and "text_ok x" and rm: "room i (length es + 1) s"
    and extr: "\<forall>d. doc_ID d = i \<and> doc_Text d = x \<longrightarrow> extr d = Inr es" and "list_all storable es" and "answers cls"
  shows "\<exists>res a rs s'. Submit i x mode s = (Inr res, a) \<and> Accepted res \<and>
     doc_Status (sub_Document res) = DocPending \<and> doc_RunVersion (sub_Document res) = next_version i s \<and>
     doc_ID (sub_Document res) = i \<and> work_off extr cls a = (rs, s') \<and> set rs \<subseteq> {None} \<and>
     db_inv s' \<and> faults s' = [] \<and> completed_run cls i (next_version i s) es s'"
proof -
  have "int8_ok (outbox_id_seq s)" using rm by (simp add: room_def)
  from Submit_starts [OF assms(1,2,5,6) this assms(4)] obtain res a d where
    a: "Submit i x mode s = (Inr res, a)" "db_inv a" "faults a = []" "documents (tbl a) i = Some d"
    "doc_Status d = DocPending" "doc_RunVersion d = next_version i s" "doc_ID d = i" "doc_Text d = x"
    "sub_Document res = d" "Accepted res"
    "tokens_of i (tokens (tbl a)) = []" "map row_message (outbox (tbl a)) = [extract_message i (next_version i s)]"
    "outbox_id_seq a = outbox_id_seq s + 1" "tokens_id_seq a = tokens_id_seq s"
    unfolding assms(3) list.map append_Nil by (elim exE conjE) (rule that)
  have "room i (length es) a" using rm a(11,13,14) by (simp add: room_def int4_ok_def int8_ok_def)
  moreover have "extr (d\<lparr>doc_Status := DocExtracting\<rparr>) = Inr es" using extr a(7,8) by simp
  ultimately obtain c where
    c: "relay_and_handle (handle_extract extr) a = ([None], c)" "fanned_out i (next_version i s) es c"
    using extraction_half [OF a(2-5,11) a(12) [folded a(6)] _ assms(9), of extr] a(6) by metis
  have "int4_ok (int (length es) + 1)" using rm by (simp add: room_def int4_ok_def)
  from classification_half [OF c(2) this assms(10)] obtain rs s' where
    f: "relay_and_handle (handle_classify cls) c = (rs, s')" "set rs \<subseteq> {None}"
    "db_inv s'" "faults s' = []" "completed_run cls i (next_version i s) es s'" by blast
  have "work_off extr cls a = (None # rs, s')" by (simp add: work_off_def c(1) f(1))
  with f(2-) a(1,5-7,9,10) show ?thesis
    by (intro exI [of _ res] exI [of _ a] exI [of _ "None # rs"] exI [of _ s']) simp
qed

text \<open>
  C4. A document goes all the way. Submitted to a database in order, with room for its rows, new
  or with a full rerun, it is extracted and classified by the handlers without a single message
  being left pending, and ends up completed: one token for every distinct entity the extractor
  found, of the new run, each with what the classifier answered, and both counters at their
  number. Nothing the pipeline does on this way can fail unless the environment makes it fail.
\<close>
theorem document_completes:
  assumes "db_inv s" and "faults s = []" and "outbox (tbl s) = []" and "starts_run i mode s"
    and "text_ok i" and "text_ok x" and "room i (length es + 1) s"
    and "\<forall>d. doc_ID d = i \<and> doc_Text d = x \<longrightarrow> extr d = Inr es" and "list_all storable es" and "answers cls"
  shows "\<exists>rs s' d. run_document extr cls i x mode s = (rs, s') \<and> set rs \<subseteq> {None} \<and>
     documents (tbl s') i = Some d \<and> doc_Status d = DocCompleted \<and>
     natural_key ` set (tokens_of i (tokens (tbl s'))) = entity_key i (next_version i s) ` set es \<and>
     doc_TotalTokens d = int (card (entity_key i (next_version i s) ` set es)) \<and>
     doc_ClassifiedCount d = doc_TotalTokens d \<and>
     (\<forall>t \<in> set (tokens_of i (tokens (tbl s'))). answered cls t)"
  using document_runs [OF assms] by (auto simp: run_document_def completed_run_def)

end
