(* ===== verification/Go_Regexp.thy ===== *)
theory Go_Regexp
  imports Go_Strings
begin

text \<open>
  The fragment of Go's \<^verbatim>\<open>regexp\<close> package the extractor and the classifier use: literals,
  classes, groups, alternation, greedy repetition, \<^verbatim>\<open>\b\<close>, \<^verbatim>\<open>^\<close> and \<^verbatim>\<open>$\<close>, with the
  leftmost-first match the package documents (the match a backtracking search finds first).

  A matcher maps a place in the subject, the character before it and the rest after it, to
  the places a match can end at, the preferred one first. Places are counted in bytes. Go
  scans by runes, and finds the same matches: every class of the patterns is a set of ASCII
  characters, an ASCII byte is always a rune of its own, and the two other runes of a
  pattern (the folds of \<open>s\<close> and \<open>k\<close> under \<^verbatim>\<open>(?i)\<close>) start with a byte that only ever
  starts a rune.
\<close>

section \<open>Expressions and the places a match ends at\<close>

datatype rx =
    Eps
  | Lit string
  | Cls "(nat \<times> nat) list"
  | Seq rx rx
  | Alt rx rx
  | Rep nat nat rx
  | Star rx
  | WordB
  | BeginText
  | EndText

type_synonym place = "char option \<times> string"

definition is_word :: "char \<Rightarrow> bool" where
  "is_word c \<longleftrightarrow> in_range 48 57 c \<or> in_range 65 90 c \<or> in_range 97 122 c \<or> byte_of c = 95"

definition at_word_boundary :: "place \<Rightarrow> bool" where
  "at_word_boundary st \<longleftrightarrow>
     (case fst st of None \<Rightarrow> False | Some c \<Rightarrow> is_word c) \<noteq>
     (case snd st of [] \<Rightarrow> False | c # _ \<Rightarrow> is_word c)"

definition in_class :: "(nat \<times> nat) list \<Rightarrow> char \<Rightarrow> bool" where
  "in_class rs c \<longleftrightarrow> list_ex (\<lambda>(lo, hi). in_range lo hi c) rs"

fun step_lit :: "string \<Rightarrow> place \<Rightarrow> place list" where
  "step_lit [] st = [st]"
| "step_lit (x # xs) (p, []) = []"
| "step_lit (x # xs) (p, c # cs) = (if c = x then step_lit xs (Some c, cs) else [])"

text \<open>Between \<open>m\<close> and \<open>n\<close> iterations, more of them preferred.\<close>

fun reps :: "(place \<Rightarrow> place list) \<Rightarrow> nat \<Rightarrow> nat \<Rightarrow> place \<Rightarrow> place list" where
  "reps f m 0 st = (if m = 0 then [st] else [])"
| "reps f m (Suc n) st = concat (map (reps f (m - 1) n) (f st)) @ (if m = 0 then [st] else [])"

primrec ends :: "rx \<Rightarrow> place \<Rightarrow> place list" where
  "ends Eps = (\<lambda>st. [st])"
| "ends (Lit l) = step_lit l"
| "ends (Cls rs) = (\<lambda>st. case snd st of [] \<Rightarrow> []
                            | c # cs \<Rightarrow> if in_class rs c then [(Some c, cs)] else [])"
| "ends (Seq a b) = (\<lambda>st. concat (map (ends b) (ends a st)))"
| "ends (Alt a b) = (\<lambda>st. ends a st @ ends b st)"
| "ends (Rep m n a) = reps (ends a) m n"
| "ends (Star a) = (\<lambda>st. reps (ends a) 0 (length (snd st)) st)"
| "ends WordB = (\<lambda>st. if at_word_boundary st then [st] else [])"
| "ends BeginText = (\<lambda>st. if fst st = None then [st] else [])"
| "ends EndText = (\<lambda>st. if snd st = [] then [st] else [])"

text \<open>How the patterns are written: sequences, alternatives, \<^verbatim>\<open>?\<close>, \<^verbatim>\<open>+\<close>, \<^verbatim>\<open>\d\<close>, \<^verbatim>\<open>\s\<close>.\<close>

fun seqs :: "rx list \<Rightarrow> rx" where
  "seqs [] = Eps"
| "seqs [r] = r"
| "seqs (r # rs) = Seq r (seqs rs)"

fun alts :: "rx list \<Rightarrow> rx" where
  "alts [] = Cls []"
| "alts [r] = r"
| "alts (r # rs) = Alt r (alts rs)"

definition opt_rx :: "rx \<Rightarrow> rx" where "opt_rx r = Rep 0 1 r"
definition plus_rx :: "rx \<Rightarrow> rx" where "plus_rx r = Seq r (Star r)"
definition rx_d :: rx where "rx_d = Cls [(48, 57)]"
definition rx_s :: rx where "rx_s = Cls [(9, 10), (12, 13), (32, 32)]"
definition rx_upper :: rx where "rx_upper = Cls [(65, 90)]"
definition rx_lower :: rx where "rx_lower = Cls [(97, 122)]"
definition rx_alpha :: rx where "rx_alpha = Cls [(65, 90), (97, 122)]"

definition words_rx :: "string list \<Rightarrow> rx" where "words_rx ws = alts (map Lit ws)"

text \<open>
  A literal under \<^verbatim>\<open>(?i)\<close>: each letter in both cases, \<open>s\<close> also as U+017F and \<open>k\<close> also as
  U+212A, which are the simple folds of the two.
\<close>

definition fold_char :: "char \<Rightarrow> rx" where
  "fold_char c =
     (let b = byte_of c; lo = (if 65 \<le> b \<and> b \<le> 90 then b + 32 else b)
      in if 97 \<le> lo \<and> lo \<le> 122 then
           (let both = Cls [(lo - 32, lo - 32), (lo, lo)]
            in if lo = 115 then Alt both (Lit [char_of_nat 197, char_of_nat 191])
               else if lo = 107 then Alt both (Lit [char_of_nat 226, char_of_nat 132, char_of_nat 170])
               else both)
         else Lit [c])"

definition fold_lit :: "string \<Rightarrow> rx" where "fold_lit s = seqs (map fold_char s)"

definition fold_words :: "string list \<Rightarrow> rx" where "fold_words ws = alts (map fold_lit ws)"

section \<open>Searching\<close>

text \<open>\<^verbatim>\<open>re.MatchString\<close>: a match at some place of the subject.\<close>

fun match_from :: "rx \<Rightarrow> char option \<Rightarrow> string \<Rightarrow> bool" where
  "match_from r p [] = (ends r (p, []) \<noteq> [])"
| "match_from r p (c # cs) = (ends r (p, c # cs) \<noteq> [] \<or> match_from r (Some c) cs)"

definition MatchString :: "rx \<Rightarrow> string \<Rightarrow> bool" where
  "MatchString r s = match_from r None s"

text \<open>
  \<^verbatim>\<open>re.FindAllStringIndex(s, -1)\<close>: the preferred match at the leftmost place that has one,
  then on from its end. A match of the empty string (\<open>nonempty_rx\<close> below excludes it for the
  program's patterns) would need Go's rule for adjacent empty matches and is passed over.
\<close>

function find_all :: "rx \<Rightarrow> char option \<Rightarrow> string \<Rightarrow> nat \<Rightarrow> (nat \<times> nat) list" where
  "find_all r p s i =
     (case ends r (p, s) of
        (p', s') # _ \<Rightarrow>
          if length s' < length s
          then (i, i + (length s - length s')) # find_all r p' s' (i + (length s - length s'))
          else (case s of [] \<Rightarrow> [] | c # cs \<Rightarrow> find_all r (Some c) cs (Suc i))
      | [] \<Rightarrow> (case s of [] \<Rightarrow> [] | c # cs \<Rightarrow> find_all r (Some c) cs (Suc i)))"
  by pat_completeness auto
termination
  by (relation "measure (\<lambda>(r, p, s, i). length s)") auto

declare find_all.simps [simp del]

definition FindAllStringIndex :: "rx \<Rightarrow> string \<Rightarrow> (nat \<times> nat) list" where
  "FindAllStringIndex r s = find_all r None s 0"

section \<open>What a match consumes\<close>

text \<open>\<open>st'\<close> is the place after reading \<open>w\<close> at \<open>st\<close>.\<close>

definition reads :: "string \<Rightarrow> place \<Rightarrow> place \<Rightarrow> bool" where
  "reads w st st' \<longleftrightarrow> snd st = w @ snd st' \<and> fst st' = (if w = [] then fst st else Some (last w))"

lemma reads_refl [simp]: "reads [] st st' \<longleftrightarrow> st' = st"
  by (auto simp: reads_def prod_eq_iff)

lemma reads_append: "reads u st st' \<Longrightarrow> reads v st' st'' \<Longrightarrow> reads (u @ v) st st''"
  by (auto simp: reads_def)

lemma reads_single: "reads [c] (p, c # cs) (Some c, cs)"
  by (simp add: reads_def)

text \<open>
  The characters a pattern may read all satisfy \<open>P\<close>, and it reads at least \<open>n\<close> of them:
  one induction gives every fact about the consumed text that is used below.
\<close>

primrec reads_only :: "(char \<Rightarrow> bool) \<Rightarrow> rx \<Rightarrow> bool" where
  "reads_only P Eps = True"
| "reads_only P (Lit l) = list_all P l"
| "reads_only P (Cls rs) = list_all (\<lambda>(lo, hi). \<forall>b \<in> set [lo..<Suc hi]. P (char_of_nat b)) rs"
| "reads_only P (Seq a b) = (reads_only P a \<and> reads_only P b)"
| "reads_only P (Alt a b) = (reads_only P a \<and> reads_only P b)"
| "reads_only P (Rep m n a) = reads_only P a"
| "reads_only P (Star a) = reads_only P a"
| "reads_only P WordB = True"
| "reads_only P BeginText = True"
| "reads_only P EndText = True"

primrec min_len :: "rx \<Rightarrow> nat" where
  "min_len Eps = 0"
| "min_len (Lit l) = length l"
| "min_len (Cls rs) = 1"
| "min_len (Seq a b) = min_len a + min_len b"
| "min_len (Alt a b) = min (min_len a) (min_len b)"
| "min_len (Rep m n a) = m * min_len a"
| "min_len (Star a) = 0"
| "min_len WordB = 0"
| "min_len BeginText = 0"
| "min_len EndText = 0"

definition nonempty_rx :: "rx \<Rightarrow> bool" where
  "nonempty_rx r \<longleftrightarrow> 0 < min_len r"

lemma in_class_char:
  assumes "in_class rs c"
    and "list_all (\<lambda>(lo, hi). \<forall>b \<in> set [lo..<Suc hi]. P (char_of_nat b)) rs"
  shows "P c"
proof -
  obtain lo hi where "(lo, hi) \<in> set rs" "lo \<le> byte_of c" "byte_of c \<le> hi"
    using assms(1) by (auto simp: in_class_def list_ex_iff in_range_def)
  moreover have "char_of_nat (byte_of c) = c" by (simp add: char_of_nat_def byte_of_def)
  ultimately show ?thesis using assms(2) by (fastforce simp: list_all_iff)
qed

lemma step_lit_reads:
  "st' \<in> set (step_lit l st) \<Longrightarrow> reads l st st'"
proof (induction l st rule: step_lit.induct)
  case (3 x xs p c cs)
  then have "c = x" and "reads xs (Some c, cs) st'" by (auto split: if_splits)
  then show ?case using reads_append [OF reads_single] by fastforce
qed auto

lemma reps_reads:
  assumes "\<And>st st'. st' \<in> set (f st) \<Longrightarrow> \<exists>w. reads w st st' \<and> list_all P w \<and> k \<le> length w"
  shows "st' \<in> set (reps f m n st) \<Longrightarrow> \<exists>w. reads w st st' \<and> list_all P w \<and> m * k \<le> length w"
proof (induction n arbitrary: m st)
  case 0
  then show ?case by (auto split: if_splits intro: exI [of _ "[]"])
next
  case (Suc n)
  consider "m = 0" "st' = st" | st1 where "st1 \<in> set (f st)" "st' \<in> set (reps f (m - 1) n st1)"
    using Suc.prems by (auto split: if_splits)
  then show ?case
  proof cases
    case 1
    then show ?thesis by (auto intro: exI [of _ "[]"])
  next
    case 2
    obtain u where u: "reads u st st1" "list_all P u" "k \<le> length u"
      using assms [OF 2(1)] by blast
    obtain v where v: "reads v st1 st'" "list_all P v" "(m - 1) * k \<le> length v"
      using Suc.IH [OF 2(2)] by blast
    have "m * k \<le> length (u @ v)" using u(3) v(3) by (cases m) auto
    then show ?thesis using u v reads_append by (metis list_all_append)
  qed
qed

lemma ends_reads:
  "st' \<in> set (ends r st) \<Longrightarrow> reads_only P r \<Longrightarrow>
   \<exists>w. reads w st st' \<and> list_all P w \<and> min_len r \<le> length w"
proof (induction r arbitrary: st st')
  case (Lit l)
  then show ?case using step_lit_reads by fastforce
next
  case (Cls rs)
  then obtain c cs where c: "snd st = c # cs" "in_class rs c" "st' = (Some c, cs)"
    by (cases "snd st") (auto split: if_splits)
  then have "reads [c] st st'" by (simp add: reads_def)
  moreover have "P c" using in_class_char [OF c(2)] Cls.prems(2) by simp
  ultimately show ?case by (intro exI [of _ "[c]"]) simp
next
  case (Seq a b)
  then obtain st1 where st1: "st1 \<in> set (ends a st)" "st' \<in> set (ends b st1)" by auto
  from Seq.IH(1) [OF st1(1)] Seq.prems obtain u
    where u: "reads u st st1" "list_all P u" "min_len a \<le> length u" by auto
  from Seq.IH(2) [OF st1(2)] Seq.prems obtain v
    where v: "reads v st1 st'" "list_all P v" "min_len b \<le> length v" by auto
  show ?case using reads_append [OF u(1) v(1)] u v by (intro exI [of _ "u @ v"]) auto
next
  case (Alt a b)
  then consider "st' \<in> set (ends a st)" | "st' \<in> set (ends b st)" by auto
  then show ?case using Alt by cases fastforce+
next
  case (Rep m n a)
  then show ?case using reps_reads [of "ends a" P "min_len a" st' m n st] by auto
next
  case (Star a)
  then show ?case using reps_reads [of "ends a" P 0 st' 0 "length (snd st)" st] by fastforce
qed (auto split: if_splits intro: exI [of _ "[]"])

lemma reads_only_True [simp]: "reads_only (\<lambda>_. True) r"
  by (induction r) (simp_all add: list_all_iff)

text \<open>A pattern over ASCII classes and literals reads ASCII characters only.\<close>

primrec ascii_rx :: "rx \<Rightarrow> bool" where
  "ascii_rx Eps = True"
| "ascii_rx (Lit l) = list_all is_ascii l"
| "ascii_rx (Cls rs) = list_all (\<lambda>(lo, hi). hi < 128) rs"
| "ascii_rx (Seq a b) = (ascii_rx a \<and> ascii_rx b)"
| "ascii_rx (Alt a b) = (ascii_rx a \<and> ascii_rx b)"
| "ascii_rx (Rep m n a) = ascii_rx a"
| "ascii_rx (Star a) = ascii_rx a"
| "ascii_rx WordB = True"
| "ascii_rx BeginText = True"
| "ascii_rx EndText = True"

lemma ascii_rx_reads_only: "ascii_rx r \<Longrightarrow> reads_only is_ascii r"
  by (induction r) (auto simp: list_all_iff is_ascii_def)

text \<open>The first character of a match satisfies \<open>P\<close>.\<close>

primrec starts_with :: "(nat \<Rightarrow> bool) \<Rightarrow> rx \<Rightarrow> bool" where
  "starts_with P Eps = True"
| "starts_with P (Lit l) = (l = [] \<or> P (byte_of (hd l)))"
| "starts_with P (Cls rs) = list_all (\<lambda>(lo, hi). list_all P [lo..<Suc hi]) rs"
| "starts_with P (Seq a b) = (starts_with P a \<and> (0 < min_len a \<or> starts_with P b))"
| "starts_with P (Alt a b) = (starts_with P a \<and> starts_with P b)"
| "starts_with P (Rep m n a) = starts_with P a"
| "starts_with P (Star a) = starts_with P a"
| "starts_with P WordB = True"
| "starts_with P BeginText = True"
| "starts_with P EndText = True"

definition first_ok :: "(nat \<Rightarrow> bool) \<Rightarrow> place \<Rightarrow> place \<Rightarrow> bool" where
  "first_ok P st st' \<longleftrightarrow> (\<forall>w. reads w st st' \<longrightarrow> w \<noteq> [] \<longrightarrow> P (byte_of (hd w)))"

lemma reads_unique: "reads u st st' \<Longrightarrow> reads v st st' \<Longrightarrow> u = v"
  by (auto simp: reads_def)

lemma first_okI: "reads w st st' \<Longrightarrow> (w \<noteq> [] \<Longrightarrow> P (byte_of (hd w))) \<Longrightarrow> first_ok P st st'"
  unfolding first_ok_def using reads_unique by metis

lemma first_ok_trans:
  assumes "reads u st st1" and "reads v st1 st'"
    and "first_ok P st st1" and "u = [] \<Longrightarrow> first_ok P st1 st'"
  shows "first_ok P st st'"
  using reads_append [OF assms(1,2)]
proof (rule first_okI)
  assume "u @ v \<noteq> []"
  then show "P (byte_of (hd (u @ v)))"
    using assms by (cases u) (auto simp: first_ok_def)
qed

lemma first_ok_refl [simp]: "first_ok P st st"
  by (auto simp: first_ok_def reads_def)

lemma reps_first_ok:
  assumes "\<And>st st'. st' \<in> set (f st) \<Longrightarrow> first_ok P st st' \<and> (\<exists>w. reads w st st')"
  shows "st' \<in> set (reps f m n st) \<Longrightarrow> first_ok P st st' \<and> (\<exists>w. reads w st st')"
proof (induction n arbitrary: m st)
  case 0
  then show ?case by (auto split: if_splits intro: exI [of _ "[]"])
next
  case (Suc n)
  consider "st' = st" | st1 where "st1 \<in> set (f st)" "st' \<in> set (reps f (m - 1) n st1)"
    using Suc.prems by (auto split: if_splits)
  then show ?case
  proof cases
    case 1
    then show ?thesis by (auto intro: exI [of _ "[]"])
  next
    case 2
    with assms Suc.IH show ?thesis by (meson first_ok_trans reads_append)
  qed
qed

lemma ends_reads_some: "st' \<in> set (ends r st) \<Longrightarrow> \<exists>w. reads w st st' \<and> min_len r \<le> length w"
  using ends_reads [OF _ reads_only_True] by metis

lemma ends_first_ok: "st' \<in> set (ends r st) \<Longrightarrow> starts_with P r \<Longrightarrow> first_ok P st st'"
proof (induction r arbitrary: st st')
  case (Lit l)
  have "reads l st st'" using Lit.prems(1) by (simp add: step_lit_reads)
  then show ?case by (rule first_okI) (use Lit.prems(2) in simp)
next
  case (Cls rs)
  then obtain c cs where c: "snd st = c # cs" "in_class rs c" "st' = (Some c, cs)"
    by (cases "snd st") (auto split: if_splits)
  then have "reads [c] st st'" by (simp add: reads_def)
  moreover have "P (byte_of c)" using c(2) Cls.prems(2)
    by (fastforce simp: in_class_def list_ex_iff list_all_iff in_range_def)
  ultimately show ?case by (metis first_okI list.sel(1))
next
  case (Seq a b)
  then obtain st1 where st1: "st1 \<in> set (ends a st)" "st' \<in> set (ends b st1)" by auto
  obtain u where u: "reads u st st1" "min_len a \<le> length u" using ends_reads_some [OF st1(1)] by blast
  obtain v where v: "reads v st1 st'" using ends_reads_some [OF st1(2)] by blast
  show ?case
  proof (rule first_ok_trans [OF u(1) v])
    show "first_ok P st st1" using Seq.IH(1) [OF st1(1)] Seq.prems(2) by simp
    assume "u = []"
    with u(2) Seq.prems(2) have "starts_with P b" by simp
    then show "first_ok P st1 st'" by (rule Seq.IH(2) [OF st1(2)])
  qed
next
  case (Alt a b)
  from Alt.prems have "st' \<in> set (ends a st) \<or> st' \<in> set (ends b st)" by simp
  then show ?case using Alt.IH Alt.prems(2) by (metis starts_with.simps(5))
next
  case (Rep m n a)
  have "st' \<in> set (reps (ends a) m n st)" using Rep.prems by simp
  then show ?case
    using reps_first_ok [of "ends a" P] Rep.IH Rep.prems(2) ends_reads_some by (metis starts_with.simps(6))
next
  case (Star a)
  have "st' \<in> set (reps (ends a) 0 (length (snd st)) st)" using Star.prems by simp
  then show ?case
    using reps_first_ok [of "ends a" P] Star.IH Star.prems(2) ends_reads_some by (metis starts_with.simps(7))
qed (auto split: if_splits)

section \<open>The spans of \<^verbatim>\<open>FindAllStringIndex\<close>\<close>

text \<open>
  The spans are within the subject, each at least as long as the shortest match, in order
  and disjoint, and hold only characters the pattern reads.
\<close>

fun spans_from :: "nat \<Rightarrow> nat \<Rightarrow> (nat \<times> nat) list \<Rightarrow> bool" where
  "spans_from i n [] = True"
| "spans_from i n ((a, b) # xs) = (i \<le> a \<and> a < b \<and> b \<le> n \<and> spans_from b n xs)"

lemma spans_from_mono: "spans_from j n xs \<Longrightarrow> i \<le> j \<Longrightarrow> spans_from i n xs"
  by (cases xs) auto

lemma spans_from_mem: "spans_from i n xs \<Longrightarrow> (a, b) \<in> set xs \<Longrightarrow> i \<le> a \<and> a < b \<and> b \<le> n"
proof (induction xs arbitrary: i)
  case (Cons x xs)
  then show ?case by (cases x) fastforce
qed simp

text \<open>The search as three steps: stop at the end, move on by one character, take a match.\<close>

lemma find_all_rule [case_names stop skip hit]:
  assumes "\<And>p i. Q p [] i []"
    and "\<And>p c cs i xs. Q (Some c) cs (Suc i) xs \<Longrightarrow> Q p (c # cs) i xs"
    and "\<And>p s i p' w s' xs. reads w (p, s) (p', s') \<Longrightarrow> (p', s') \<in> set (ends r (p, s)) \<Longrightarrow> w \<noteq> [] \<Longrightarrow>
           Q p' s' (i + length w) xs \<Longrightarrow> Q p s i ((i, i + length w) # xs)"
  shows "Q p s i (find_all r p s i)"
proof (induction "length s" arbitrary: p s i rule: less_induct)
  case less
  have skip: "Q p s i (case s of [] \<Rightarrow> [] | c # cs \<Rightarrow> find_all r (Some c) cs (Suc i))"
    using assms(1,2) less by (cases s) auto
  show ?case
  proof (cases "ends r (p, s)")
    case Nil
    then show ?thesis using skip by (subst find_all.simps) simp
  next
    case (Cons st rest)
    obtain p' s' where st: "st = (p', s')" by force
    then have mem: "(p', s') \<in> set (ends r (p, s))" using Cons by simp
    then obtain w where w: "reads w (p, s) (p', s')" using ends_reads [where P = "\<lambda>_. True"] by force
    then have len: "length s - length s' = length w" by (simp add: reads_def)
    show ?thesis
    proof (cases "length s' < length s")
      case True
      with len have "w \<noteq> []" by auto
      with True Cons st assms(3) [OF w mem] less len show ?thesis by (subst find_all.simps) simp
    next
      case False
      with Cons st skip show ?thesis by (subst find_all.simps) simp
    qed
  qed
qed

lemma find_all_spans: "spans_from i (i + length s) (find_all r p s i)"
proof (induction rule: find_all_rule)
  case (hit p s i p' w s' xs)
  then show ?case by (auto simp: reads_def add.assoc)
qed (auto intro: spans_from_mono)

text \<open>Every span is a match of the pattern at that place of the subject.\<close>

definition span_of :: "rx \<Rightarrow> char option \<Rightarrow> string \<Rightarrow> nat \<Rightarrow> nat \<Rightarrow> bool" where
  "span_of r p s a b \<longleftrightarrow>
     (\<exists>u w v q q'. s = u @ w @ v \<and> length u = a \<and> length u + length w = b \<and>
        reads u (p, s) (q, w @ v) \<and> (q', v) \<in> set (ends r (q, w @ v)))"

lemma span_of_shift:
  assumes "reads x (p, s) (p', s')" and "span_of r p' s' a b"
  shows "span_of r p s (length x + a) (length x + b)"
proof -
  obtain u w v q q' where *: "s' = u @ w @ v" "length u = a" "length u + length w = b"
      "reads u (p', s') (q, w @ v)" "(q', v) \<in> set (ends r (q, w @ v))"
    using assms(2) unfolding span_of_def by blast
  have "reads (x @ u) (p, s) (q, w @ v)" using assms(1) *(4) by (rule reads_append)
  then show ?thesis
    unfolding span_of_def using * assms(1)
    by (intro exI [of _ "x @ u"] exI [of _ w] exI [of _ v] exI [of _ q] exI [of _ q'])
      (auto simp: reads_def)
qed

lemma find_all_span_of:
  "(a, b) \<in> set (find_all r p s i) \<Longrightarrow> \<exists>a' b'. a = i + a' \<and> b = i + b' \<and> span_of r p s a' b'"
proof (induction rule: find_all_rule)
  case (skip p c cs i xs)
  then obtain a' b' where "a = Suc i + a'" "b = Suc i + b'" "span_of r (Some c) cs a' b'" by blast
  then show ?case using span_of_shift [OF reads_single, of r c cs a' b' p]
    by (intro exI [of _ "Suc a'"] exI [of _ "Suc b'"]) simp
next
  case (hit p s i p' w s' xs)
  show ?case
  proof (cases "(a, b) = (i, i + length w)")
    case True
    have "span_of r p s 0 (length w)"
      unfolding span_of_def using hit(1,2)
      by (intro exI [of _ "[]"] exI [of _ w] exI [of _ s'] exI [of _ p] exI [of _ p'])
        (auto simp: reads_def)
    with True show ?thesis by (intro exI [of _ 0] exI [of _ "length w"]) simp
  next
    case False
    with hit obtain a' b' where "a = i + length w + a'" "b = i + length w + b'" "span_of r p' s' a' b'"
      by auto
    then show ?thesis using span_of_shift [OF hit(1)] by (metis add.assoc)
  qed
qed simp

lemma span_of_reads:
  assumes "span_of r p s a b" and "reads_only P r"
  shows "list_all P (take (b - a) (drop a s))" and "a + min_len r \<le> b" and "b \<le> length s"
proof -
  obtain u w v q q' where *: "s = u @ w @ v" "length u = a" "length u + length w = b"
      "(q', v) \<in> set (ends r (q, w @ v))"
    using assms(1) unfolding span_of_def by blast
  from ends_reads [OF *(4) assms(2)] obtain w'
    where w': "reads w' (q, w @ v) (q', v)" "list_all P w'" "min_len r \<le> length w'" by blast
  then have "w' = w" by (simp add: reads_def)
  with w' * show "list_all P (take (b - a) (drop a s))" "a + min_len r \<le> b" "b \<le> length s" by auto
qed

lemma span_of_first:
  assumes "span_of r p s a b" and "starts_with P r" and "a < b"
  shows "P (byte_of (s ! a))"
proof -
  obtain u w v q q' where *: "s = u @ w @ v" "length u = a" "length u + length w = b"
      "(q', v) \<in> set (ends r (q, w @ v))"
    using assms(1) unfolding span_of_def by blast
  obtain w' where "reads w' (q, w @ v) (q', v)" using ends_reads_some [OF *(4)] by blast
  then have "reads w (q, w @ v) (q', v)" by (simp add: reads_def)
  moreover have "w \<noteq> []" using * assms(3) by auto
  ultimately have "P (byte_of (hd w))"
    using ends_first_ok [OF *(4) assms(2)] by (simp add: first_ok_def)
  with * \<open>w \<noteq> []\<close> show ?thesis by (auto simp: nth_append hd_conv_nth)
qed

lemma FindAll_span_of: "(a, b) \<in> set (FindAllStringIndex r s) \<Longrightarrow> span_of r None s a b"
  using find_all_span_of [of a b r None s 0] by (auto simp: FindAllStringIndex_def)

lemma FindAll_spans: "spans_from 0 (length s) (FindAllStringIndex r s)"
  using find_all_spans [of 0 s r None] by (simp add: FindAllStringIndex_def)

section \<open>Search is complete\<close>

text \<open>
  \<^verbatim>\<open>MatchString\<close> finds a match exactly when there is one at some place of the subject.
\<close>

lemma match_from_iff:
  "match_from r p s \<longleftrightarrow> (\<exists>u v q. reads u (p, s) (q, v) \<and> ends r (q, v) \<noteq> [])"
proof (induction r p s rule: match_from.induct)
  case (1 r p)
  then show ?case by (auto simp: reads_def)
next
  case (2 r p c cs)
  show ?case
  proof
    assume "match_from r p (c # cs)"
    then consider "ends r (p, c # cs) \<noteq> []" | "match_from r (Some c) cs" by auto
    then show "\<exists>u v q. reads u (p, c # cs) (q, v) \<and> ends r (q, v) \<noteq> []"
    proof cases
      case 1
      then show ?thesis by (metis reads_refl)
    next
      case 2
      then show ?thesis using "2.IH" reads_append [OF reads_single] by metis
    qed
  next
    assume "\<exists>u v q. reads u (p, c # cs) (q, v) \<and> ends r (q, v) \<noteq> []"
    then obtain u v q where u: "reads u (p, c # cs) (q, v)" "ends r (q, v) \<noteq> []" by blast
    show "match_from r p (c # cs)"
    proof (cases u)
      case Nil
      with u show ?thesis by simp
    next
      case (Cons x u')
      with u(1) have "reads u' (Some c, cs) (q, v)" by (auto simp: reads_def)
      with u(2) "2.IH" show ?thesis by auto
    qed
  qed
qed

lemma MatchString_iff:
  "MatchString r s \<longleftrightarrow> (\<exists>u v q. reads u (None, s) (q, v) \<and> ends r (q, v) \<noteq> [])"
  by (simp add: MatchString_def match_from_iff)

text \<open>A pattern that starts with \<^verbatim>\<open>^\<close> is tried at the start only.\<close>

lemma MatchString_anchored:
  "MatchString (Seq BeginText r) s \<longleftrightarrow> ends r (None, s) \<noteq> []"
proof
  assume "MatchString (Seq BeginText r) s"
  then obtain u v q where *: "reads u (None, s) (q, v)" "q = None" "ends r (q, v) \<noteq> []"
    by (auto simp: MatchString_iff split: if_splits)
  then have "u = []" by (auto simp: reads_def split: if_splits)
  with * show "ends r (None, s) \<noteq> []" by simp
next
  assume "ends r (None, s) \<noteq> []"
  then show "MatchString (Seq BeginText r) s"
    unfolding MatchString_iff by (intro exI [of _ "[]"] exI [of _ s] exI [of _ None]) simp
qed

end
