(* ===== verification/Nlp_Mock.thy ===== *)
theory Nlp_Mock
  imports Go_Regexp Domain
begin

text \<open>
  \<^verbatim>\<open>internal/nlp/mock.go\<close>: the rule-based extractor. Byte offsets are natural numbers; the
  positions it reports are integers, as in the domain.
\<close>

section \<open>Rules\<close>

record rule =
  nameLike :: bool
  re :: rx

definition month_names :: "string list" where
  "month_names = [''January'', ''February'', ''March'', ''April'', ''May'', ''June'', ''July'',
     ''August'', ''September'', ''October'', ''November'', ''December'']"

definition titles :: "string list" where
  "titles = [''Mr'', ''Mrs'', ''Ms'', ''Dr'', ''Prof'', ''President'', ''CEO'', ''CFO'', ''CTO'',
     ''Senator'', ''Governor'', ''Mayor'', ''Chairman'']"

definition monthDay_re :: rx where
  "monthDay_re = seqs [WordB, words_rx month_names, plus_rx rx_s, Rep 1 2 rx_d,
     opt_rx (words_rx [''st'', ''nd'', ''rd'', ''th'']),
     opt_rx (seqs [Lit '','', Star rx_s, Rep 4 4 rx_d]), WordB]"

definition slashDate_re :: rx where
  "slashDate_re = seqs [WordB, Rep 1 2 rx_d, Lit ''/'', Rep 1 2 rx_d, Lit ''/'', Rep 2 4 rx_d, WordB]"

definition year_re :: rx where
  "year_re = seqs [WordB, words_rx [''19'', ''20''], Rep 2 2 rx_d, WordB]"

definition address_re :: rx where
  "address_re = seqs [WordB, Rep 1 5 rx_d, plus_rx rx_s,
     Rep 1 3 (seqs [rx_upper, plus_rx rx_alpha, opt_rx (Lit ''.''), plus_rx rx_s]),
     words_rx [''Street'', ''St'', ''Avenue'', ''Ave'', ''Road'', ''Rd'', ''Boulevard'', ''Blvd'',
       ''Lane'', ''Ln'', ''Drive'', ''Dr'', ''Way'', ''Court'', ''Ct'', ''Place'', ''Pl'', ''Square'',
       ''Sq''],
     WordB, opt_rx (Lit ''.'')]"

definition org_re :: rx where
  "org_re = seqs [WordB,
     Rep 0 4 (seqs [rx_upper, plus_rx (Cls [(65, 90), (97, 122), (38, 38), (45, 46)]), plus_rx rx_s]),
     words_rx [''Inc'', ''Incorporated'', ''Corp'', ''Corporation'', ''Company'', ''Co'', ''Ltd'',
       ''LLC'', ''PLC'', ''Group'', ''Technologies'', ''Systems'', ''Solutions'', ''Holdings'',
       ''Industries'', ''Bank'', ''Partners'', ''Capital'', ''Ventures'', ''University'',
       ''Institute'', ''Association'', ''Foundation'', ''Agency'', ''Department'', ''Ministry''],
     WordB, opt_rx (Lit ''.'')]"

definition name_re :: rx where
  "name_re = seqs [WordB,
     opt_rx (seqs [words_rx titles, opt_rx (Lit ''.''), plus_rx rx_s]),
     rx_upper, plus_rx rx_lower,
     opt_rx (seqs [plus_rx rx_s, rx_upper, Lit ''.'']),
     Rep 1 2 (seqs [plus_rx rx_s, rx_upper, plus_rx rx_lower]), WordB]"

definition NewMockExtractor :: "rule list" where
  "NewMockExtractor =
     [\<lparr>nameLike = False, re = monthDay_re\<rparr>, \<lparr>nameLike = False, re = slashDate_re\<rparr>,
      \<lparr>nameLike = False, re = year_re\<rparr>, \<lparr>nameLike = False, re = address_re\<rparr>,
      \<lparr>nameLike = False, re = org_re\<rparr>, \<lparr>nameLike = True, re = name_re\<rparr>]"

section \<open>Sentences\<close>

record sentence =
  sen_text :: string
  sen_index :: int
  runeStart :: int
  docPrefix :: string

definition sentenceBoundary :: rx where
  "sentenceBoundary = Alt (Seq (plus_rx (Cls [(33, 33), (46, 46), (63, 63)])) (plus_rx rx_s))
                          (plus_rx (Lit [CHR 0x0A]))"

text \<open>The segments between consecutive starts, and the numbered sentences among them.\<close>

fun segments :: "nat list \<Rightarrow> nat \<Rightarrow> (nat \<times> nat) list" where
  "segments [] n = []"
| "segments [a] n = [(a, n)]"
| "segments (a # b # xs) n = (a, b) # segments (b # xs) n"

fun number_segments :: "string \<Rightarrow> int \<Rightarrow> (nat \<times> nat) list \<Rightarrow> sentence list" where
  "number_segments txt idx [] = []"
| "number_segments txt idx ((start, en) # segs) =
     (if en \<le> start \<or> TrimSpace (take (en - start) (drop start txt)) = [] then number_segments txt idx segs
      else \<lparr>sen_text = take (en - start) (drop start txt), sen_index = idx,
            runeStart = int (RuneCountInString (take start txt)), docPrefix = take start txt\<rparr>
           # number_segments txt (idx + 1) segs)"

definition sentence_starts :: "string \<Rightarrow> nat list" where
  "sentence_starts txt = 0 # map snd (FindAllStringIndex sentenceBoundary txt)"

definition splitSentences :: "string \<Rightarrow> sentence list" where
  "splitSentences txt = number_segments txt 0 (segments (sentence_starts txt) (length txt))"

definition pageForOffset :: "string \<Rightarrow> int" where
  "pageForOffset prefix = 1 + int (Count1 prefix (CHR 0x0C))"

section \<open>Word filters\<close>

definition roleWords :: "string list" where
  "roleWords = [''Chief'', ''Executive'', ''Officer'', ''Financial'', ''Technology'', ''Operating'',
     ''President'', ''Vice'', ''Senior'', ''Managing'', ''Director'', ''Chairman'', ''Chairwoman'',
     ''Board'', ''Member'', ''Head'']"

definition isAllRoleWords :: "string \<Rightarrow> bool" where
  "isAllRoleWords s =
     (let fields = Fields s in fields \<noteq> [] \<and> list_all (\<lambda>w. w \<in> set roleWords) fields)"

definition nonNameWords :: "string list" where
  "nonNameWords = [''The'', ''This'', ''That'', ''On'', ''In'', ''At'', ''Of'', ''And'', ''For'',
     ''With'', ''During'', ''After'', ''Before'', ''New'', ''Leadership'', ''Announces'',
     ''Announced'', ''Announce'', ''Reports'', ''Report'', ''Names'', ''Appoints'', ''Appointed'',
     ''Joins'', ''Welcomes'', ''Summit'', ''Annual'', ''Regional'', ''He'', ''She'', ''They'',
     ''We'', ''It'', ''More'', ''Visit'']"

definition containsNonNameWord :: "string \<Rightarrow> bool" where
  "containsNonNameWord s = list_ex (\<lambda>w. w \<in> set nonNameWords) (Fields s)"

section \<open>Extraction\<close>

record span =
  sp_start :: nat
  sp_end :: nat
  sp_text :: string

definition occupied :: "span list \<Rightarrow> nat \<Rightarrow> nat \<Rightarrow> bool" where
  "occupied spans start en = list_ex (\<lambda>sp. start < sp_end sp \<and> sp_start sp < en) spans"

text \<open>The body of the inner loop: one match of one rule.\<close>

definition add_span :: "string \<Rightarrow> rule \<Rightarrow> span list \<Rightarrow> nat \<times> nat \<Rightarrow> span list" where
  "add_span s r spans lc =
     (if occupied spans (fst lc) (snd lc) then spans
      else let t = TrimRight1 (TrimSpace (take (snd lc - fst lc) (drop (fst lc) s))) (CHR ''.'')
           in if t = [] then spans
              else if nameLike r \<and> (isAllRoleWords t \<or> containsNonNameWord t) then spans
              else spans @ [\<lparr>sp_start = fst lc, sp_end = snd lc, sp_text = t\<rparr>])"

definition scan_rule :: "string \<Rightarrow> span list \<Rightarrow> rule \<Rightarrow> span list" where
  "scan_rule s spans r = foldl (add_span s r) spans (FindAllStringIndex (re r) s)"

definition scan_spans :: "rule list \<Rightarrow> string \<Rightarrow> span list" where
  "scan_spans rules s = foldl (scan_rule s) [] rules"

text \<open>
  \<^verbatim>\<open>sort.Slice\<close> is not stable; the starts are pairwise different
  (\<open>scan_spans_disjoint\<close> below), so every sort by start gives the same list.
\<close>

definition extractSentence :: "rule list \<Rightarrow> sentence \<Rightarrow> Entity list" where
  "extractSentence rules s =
     map (\<lambda>sp. \<lparr>ent_Text = sp_text sp, ent_Context = TrimSpace (sen_text s),
                ent_Position = \<lparr>Page = pageForOffset (docPrefix s), Sentence = sen_index s,
                  CharOffset = runeStart s + int (RuneCountInString (take (sp_start sp) (sen_text s)))\<rparr>\<rparr>)
         (sort_key sp_start (scan_spans rules (sen_text s)))"

definition Extract_entities :: "rule list \<Rightarrow> string \<Rightarrow> Entity list" where
  "Extract_entities rules txt =
     sort_key (\<lambda>e. CharOffset (ent_Position e)) (concat (map (extractSentence rules) (splitSentences txt)))"

definition MockExtractor_Extract :: "Document \<Rightarrow> go_error + Entity list" where
  "MockExtractor_Extract doc = Inr (Extract_entities NewMockExtractor (doc_Text doc))"

end
