(* ===== verification/Nlp_Properties.thy ===== *)
theory Nlp_Properties
  imports Nlp_Mock
begin

text \<open>
  What the rule-based extractor promises: its spans are disjoint and lie in the text, the
  sentences tile the document, and each reported position counts the runes before the
  entity.
\<close>

section \<open>The rules read ASCII text only\<close>

definition good_rx :: "rx \<Rightarrow> bool" where
  "good_rx r \<longleftrightarrow> ascii_rx r \<and> nonempty_rx r \<and> starts_with (\<lambda>b. 32 < b) r"

lemmas rule_defs = monthDay_re_def slashDate_re_def year_re_def address_re_def org_re_def name_re_def
  month_names_def titles_def words_rx_def opt_rx_def plus_rx_def rx_d_def rx_s_def rx_upper_def
  rx_lower_def rx_alpha_def

lemma good_rules: "good_rx monthDay_re" "good_rx slashDate_re" "good_rx year_re" "good_rx address_re"
  "good_rx org_re" "good_rx name_re"
  by (simp_all add: good_rx_def nonempty_rx_def rule_defs is_ascii_digit7 byte_of_def)

lemma good_NewMockExtractor: "list_all (good_rx \<circ> re) NewMockExtractor"
  by (simp add: NewMockExtractor_def good_rules)

lemma good_sentenceBoundary: "ascii_rx sentenceBoundary \<and> nonempty_rx sentenceBoundary"
  by (simp add: nonempty_rx_def sentenceBoundary_def rule_defs is_ascii_digit7)

text \<open>What a good pattern finds: a non-empty span of ASCII characters.\<close>

definition sub :: "string \<Rightarrow> nat \<Rightarrow> nat \<Rightarrow> string" where
  "sub s a b = take (b - a) (drop a s)"

lemma ascii_span:
  assumes "ascii_rx r \<and> nonempty_rx r" and "(a, b) \<in> set (FindAllStringIndex r s)"
  shows "a < b" and "b \<le> length s" and "list_all is_ascii (sub s a b)"
proof -
  have ro: "reads_only is_ascii r" and "0 < min_len r"
    using assms(1) by (auto simp: nonempty_rx_def ascii_rx_reads_only)
  note * = span_of_reads [OF FindAll_span_of [OF assms(2)] ro]
  show "a < b" using *(2) \<open>0 < min_len r\<close> by simp
  show "b \<le> length s" "list_all is_ascii (sub s a b)" using * by (simp_all add: sub_def)
qed

lemma good_span:
  assumes "good_rx r" and "(a, b) \<in> set (FindAllStringIndex r s)"
  shows "a < b" and "b \<le> length s" and "list_all is_ascii (sub s a b)" and "32 < byte_of (s ! a)"
proof -
  have r: "ascii_rx r \<and> nonempty_rx r" and st: "starts_with (\<lambda>b. 32 < b) r"
    using assms(1) by (auto simp: good_rx_def)
  note ascii_span [OF r assms(2)]
  then show "a < b" "b \<le> length s" "list_all is_ascii (sub s a b)" by simp_all
  show "32 < byte_of (s ! a)" using span_of_first [OF FindAll_span_of [OF assms(2)] st \<open>a < b\<close>] .
qed

section \<open>Spans of one sentence\<close>

definition disjoint_spans :: "span \<Rightarrow> span \<Rightarrow> bool" where
  "disjoint_spans x y \<longleftrightarrow> sp_end x \<le> sp_start y \<or> sp_end y \<le> sp_start x"

definition span_ok :: "string \<Rightarrow> span \<Rightarrow> bool" where
  "span_ok s sp \<longleftrightarrow> sp_start sp < sp_end sp \<and> sp_end sp \<le> length s \<and>
     list_all is_ascii (sub s (sp_start sp) (sp_end sp)) \<and> 32 < byte_of (s ! sp_start sp) \<and>
     sp_text sp = TrimRight1 (TrimSpace (sub s (sp_start sp) (sp_end sp))) (CHR ''.'') \<and>
     sp_text sp \<noteq> []"

definition spans_ok :: "string \<Rightarrow> span list \<Rightarrow> bool" where
  "spans_ok s spans \<longleftrightarrow> (\<forall>x \<in> set spans. span_ok s x) \<and> sorted_wrt disjoint_spans spans"

lemma add_span_ok:
  assumes "spans_ok s spans" and "good_rx (re r)" and "lc \<in> set (FindAllStringIndex (re r) s)"
  shows "spans_ok s (add_span s r spans lc)"
proof -
  obtain a b where lc: "lc = (a, b)" by force
  have ab: "a < b" "b \<le> length s" "list_all is_ascii (sub s a b)" "32 < byte_of (s ! a)"
    using good_span [OF assms(2)] assms(3) lc by blast+
  let ?t = "TrimRight1 (TrimSpace (sub s a b)) (CHR ''.'')"
  let ?x = "\<lparr>sp_start = a, sp_end = b, sp_text = ?t\<rparr>"
  have "add_span s r spans lc = spans \<or>
      \<not> occupied spans a b \<and> ?t \<noteq> [] \<and> add_span s r spans lc = spans @ [?x]"
    by (simp add: add_span_def Let_def lc sub_def)
  then consider "add_span s r spans lc = spans"
    | "\<not> occupied spans a b" "?t \<noteq> []" "add_span s r spans lc = spans @ [?x]" by blast
  then show ?thesis
  proof cases
    case 1
    with assms(1) show ?thesis by simp
  next
    case 2
    have "span_ok s ?x" using ab 2(2) by (simp add: span_ok_def)
    moreover have "\<forall>y \<in> set spans. disjoint_spans y ?x"
      using 2(1) by (auto simp: occupied_def list_ex_iff disjoint_spans_def not_less)
    ultimately show ?thesis using assms(1) 2(3) by (simp add: spans_ok_def sorted_wrt_append)
  qed
qed

lemma scan_spans_ok:
  assumes "list_all (good_rx \<circ> re) rules"
  shows "spans_ok s (scan_spans rules s)"
  unfolding scan_spans_def
proof (rule foldl_invariant [where P = "spans_ok s"])
  show "spans_ok s []" by (simp add: spans_ok_def)
next
  fix spans r
  assume r: "r \<in> set rules" and ok: "spans_ok s spans"
  from r assms have good: "good_rx (re r)" by (simp add: list_all_iff)
  show "spans_ok s (scan_rule s spans r)"
    unfolding scan_rule_def
    by (rule foldl_invariant [where P = "spans_ok s"]) (use ok good add_span_ok in blast)+
qed

text \<open>Sorted by start, the spans follow one another.\<close>

lemma spans_sorted:
  assumes "spans_ok s spans"
  shows "sorted_wrt (\<lambda>x y. sp_end x \<le> sp_start y) (sort_key sp_start spans)"
proof -
  have ok: "\<forall>x \<in> set spans. sp_start x < sp_end x" and dis: "sorted_wrt disjoint_spans spans"
    using assms by (auto simp: spans_ok_def span_ok_def)
  have pair: "disjoint_spans x y" if "x \<in> set spans" "y \<in> set spans" "sp_start x \<noteq> sp_start y" for x y
    using dis that by (induction spans) (auto simp: disjoint_spans_def)
  have "sorted_wrt (\<lambda>x y. sp_start x \<noteq> sp_start y) spans"
    using dis by (rule sorted_wrt_mono_rel [rotated]) (use ok in \<open>fastforce simp: disjoint_spans_def\<close>)
  then have "distinct (map sp_start spans)" by (induction spans) auto
  then have "sorted_wrt (<) (map sp_start (sort_key sp_start spans))"
    by (simp add: strict_sorted_iff distinct_map)
  then have "sorted_wrt (\<lambda>x y. sp_start x < sp_start y) (sort_key sp_start spans)"
    by (simp add: sorted_wrt_map)
  then show ?thesis
  proof (rule sorted_wrt_mono_rel [rotated])
    fix x y
    assume xy: "x \<in> set (sort_key sp_start spans)" "y \<in> set (sort_key sp_start spans)"
      "sp_start x < sp_start y"
    with pair have "disjoint_spans x y" by simp
    with xy ok show "sp_end x \<le> sp_start y" by (fastforce simp: disjoint_spans_def)
  qed
qed

section \<open>Sentences\<close>

text \<open>Segments that tile the text from \<open>lo\<close> on, cut at ASCII characters.\<close>

fun tiles :: "string \<Rightarrow> nat \<Rightarrow> (nat \<times> nat) list \<Rightarrow> bool" where
  "tiles txt lo [] \<longleftrightarrow> lo = length txt"
| "tiles txt lo ((a, b) # segs) \<longleftrightarrow>
     a = lo \<and> a \<le> b \<and> b \<le> length txt \<and> rune_cut (take a txt) (drop a txt) \<and> tiles txt b segs"

lemma segments_tiles:
  assumes "rune_cut (take a txt) (drop a txt)" and "a \<le> length txt"
    and "spans_from a (length txt) xs"
    and "\<forall>(i, j) \<in> set xs. rune_cut (take j txt) (drop j txt)"
  shows "tiles txt a (segments (a # map snd xs) (length txt))"
  using assms
proof (induction xs arbitrary: a)
  case (Cons x xs)
  then show ?case by (cases x) auto
qed auto

lemma sentence_tiles: "tiles txt 0 (segments (sentence_starts txt) (length txt))"
  unfolding sentence_starts_def
proof (rule segments_tiles)
  show "\<forall>(i, j) \<in> set (FindAllStringIndex sentenceBoundary txt). rune_cut (take j txt) (drop j txt)"
  proof clarify
    fix i j
    assume "(i, j) \<in> set (FindAllStringIndex sentenceBoundary txt)"
    note * = ascii_span [OF good_sentenceBoundary this]
    then have ne: "sub txt i j \<noteq> []" by (simp add: sub_def)
    then have "is_ascii (last (sub txt i j))"
      using *(3) by (metis last_in_set list_all_iff)
    moreover have "take j txt = take i txt @ sub txt i j"
      using *(1) by (metis sub_def le_add_diff_inverse less_imp_le take_add)
    ultimately show "rune_cut (take j txt) (drop j txt)"
      using ne by (simp add: rune_cut_def)
  qed
qed (simp_all add: FindAll_spans rune_cut_def)

lemma tiles_concat: "tiles s lo segs \<Longrightarrow> concat (map (\<lambda>(a, b). sub s a b) segs) = drop lo s"
proof (induction s lo segs rule: tiles.induct)
  case (2 s lo a b segs)
  then have "take (b - a) (drop a s) @ drop b s = drop a s"
    by (metis append_take_drop_id drop_drop le_add_diff_inverse2 tiles.simps(2))
  with 2 show ?case by (simp add: sub_def)
qed simp

section \<open>Where an entity is\<close>

text \<open>
  An entity found at the bytes \<open>p\<close> to \<open>q\<close> of the document: its text is what stands there
  from \<open>p\<close> on, its offset counts the runes before \<open>p\<close>, and its context holds its text.
\<close>

definition located :: "string \<Rightarrow> Entity \<Rightarrow> nat \<times> nat \<Rightarrow> bool" where
  "located s e pq \<longleftrightarrow>
     is_ascii (s ! fst pq) \<and> list_all is_ascii (ent_Text e) \<and> ent_Text e \<noteq> [] \<and>
     (\<exists>u. sub s (fst pq) (snd pq) = ent_Text e @ u) \<and>
     (\<exists>l m. ent_Context e = l @ ent_Text e @ m) \<and>
     CharOffset (ent_Position e) = int (RuneCountInString (take (fst pq) s))"

lemma spans_from_append:
  "spans_from i m xs \<Longrightarrow> m \<le> n \<Longrightarrow> spans_from m n ys \<Longrightarrow> i \<le> m \<Longrightarrow> spans_from i n (xs @ ys)"
  by (induction i m xs rule: spans_from.induct) (auto intro: spans_from_mono)

lemma spans_from_sorted:
  assumes "sorted_wrt (\<lambda>x y. g x \<le> f y) xs" and "\<forall>x \<in> set xs. f x < g x \<and> g x \<le> n"
    and "\<forall>x \<in> set xs. i \<le> f x"
  shows "spans_from i n (map (\<lambda>x. (f x, g x)) xs)"
  using assms by (induction xs arbitrary: i) auto

text \<open>A span that starts in a visible character keeps its left end when it is trimmed.\<close>

lemma trimmed_span:
  assumes "w \<noteq> []" and "list_all is_ascii w" and "32 < byte_of (hd w)"
  shows "\<exists>u. w = TrimSpace w @ u"
    and "TrimSpace w \<noteq> [] \<Longrightarrow> rune_cut a (w @ b) \<Longrightarrow> rune_cut (a @ w) b \<Longrightarrow>
      \<exists>l m. TrimSpace (a @ w @ b) = l @ TrimSpace w @ m"
proof -
  have asc: "\<And>c. c \<in> set w \<Longrightarrow> byte_of c < 128" using assms(2) by (simp add: list_all_iff is_ascii_def)
  then have rw: "runes w = map (\<lambda>c. [c]) w" by (rule runes_ascii)
  then have hd: "hd (runes w) = [hd w]" using assms(1) by (simp add: hd_map)
  have "byte_of (hd w) < 128" using asc assms(1) by simp
  then have ns: "\<not> IsSpace (hd (runes w))" using assms(3) by (auto simp: hd IsSpace_def)
  have "runes w \<noteq> []" using assms(1) rw by simp
  then obtain m where m: "runes w = trim_runes (runes w) @ m" using trim_runes_keep_left ns by blast
  then have "w = TrimSpace w @ concat m" by (metis TrimSpace_runes concat_append concat_runes)
  then show "\<exists>u. w = TrimSpace w @ u" ..
  assume tw: "TrimSpace w \<noteq> []" and c1: "rune_cut a (w @ b)" and c2: "rune_cut (a @ w) b"
  have c3: "rune_cut w b" using c2 assms(1) by (simp add: rune_cut_def)
  have R: "trim_runes (runes w) \<noteq> []" using tw by (auto simp: TrimSpace_runes)
  have "runes (a @ w @ b) = runes a @ trim_runes (runes w) @ (m @ runes b)"
    using rune_cut_runes [OF c1] rune_cut_runes [OF c3] m by simp
  then obtain A B where "trim_runes (runes (a @ w @ b)) = A @ trim_runes (runes w) @ B"
    using trim_runes_keep [OF R trim_runes_ends [OF R]] by metis
  then have "TrimSpace (a @ w @ b) = concat A @ TrimSpace w @ concat B"
    unfolding TrimSpace_runes by simp
  then show "\<exists>l m. TrimSpace (a @ w @ b) = l @ TrimSpace w @ m" by blast
qed

lemma sub_of_sub: "b \<le> length s \<Longrightarrow> p \<le> q \<Longrightarrow> q \<le> b - a \<Longrightarrow> sub (sub s a b) p q = sub s (a + p) (a + q)"
  by (rule nth_equalityI) (simp_all add: sub_def add.assoc)

lemma sub_parts: "p \<le> q \<Longrightarrow> q \<le> length s \<Longrightarrow> s = take p s @ sub s p q @ drop q s"
proof -
  assume "p \<le> q" "q \<le> length s"
  then have "drop p s = take (q - p) (drop p s) @ drop q s"
    using append_take_drop_id [of "q - p" "drop p s"] by simp
  then show ?thesis unfolding sub_def using append_take_drop_id [of p s] by simp
qed

lemma hd_sub: "p < q \<Longrightarrow> q \<le> length s \<Longrightarrow> hd (sub s p q) = s ! p"
  by (simp add: sub_def hd_drop_conv_nth)

lemma span_located:
  assumes seg: "a \<le> b" "b \<le> length s" "rune_cut (take a s) (drop a s)"
    and sp: "span_ok (sub s a b) sp"
    and e: "ent_Text e = sp_text sp" "ent_Context e = TrimSpace (sub s a b)"
      "CharOffset (ent_Position e) =
         int (RuneCountInString (take a s)) + int (RuneCountInString (take (sp_start sp) (sub s a b)))"
  shows "located s e (a + sp_start sp, a + sp_end sp)"
proof -
  let ?t = "sub s a b" and ?p = "sp_start sp" and ?q = "sp_end sp"
  let ?w = "sub ?t ?p ?q"
  have len: "length ?t = b - a" using seg by (simp add: sub_def)
  have pq: "?p < ?q" "?q \<le> b - a" "list_all is_ascii ?w" "32 < byte_of (hd ?w)"
    "sp_text sp = TrimRight1 (TrimSpace ?w) (CHR ''.'')" "sp_text sp \<noteq> []"
    using sp len by (auto simp: span_ok_def hd_sub)
  have w: "?w = sub s (a + ?p) (a + ?q)" using sub_of_sub [of b s ?p ?q a] seg pq by simp
  have wne: "?w \<noteq> []" using pq len by (simp add: sub_def)
  have hd: "hd ?w = s ! (a + ?p)" using hd_sub [of "a + ?p" "a + ?q" s] w pq seg by simp
  have asc: "is_ascii (hd ?w)" "is_ascii (last ?w)" using pq(3) wne by (simp_all add: list_all_iff)
  obtain u where u: "?w = TrimSpace ?w @ u" using trimmed_span(1) [OF wne pq(3,4)] by blast
  obtain v where v: "TrimSpace ?w = sp_text sp @ v" using TrimRight1_prefix pq(5) by metis
  have "TrimSpace ?w \<noteq> []" using v pq(6) by auto
  moreover have "rune_cut (take ?p ?t) (?w @ drop ?q ?t)" "rune_cut (take ?p ?t @ ?w) (drop ?q ?t)"
    using asc wne by (simp_all add: rune_cut_def)
  ultimately obtain l m where "TrimSpace (take ?p ?t @ ?w @ drop ?q ?t) = l @ TrimSpace ?w @ m"
    using trimmed_span(2) [OF wne pq(3,4)] by blast
  then have ctx: "TrimSpace ?t = l @ TrimSpace ?w @ m"
    using sub_parts [of ?p ?q ?t] pq len by simp
  have "take (a + ?p) s = take a s @ take ?p ?t" using pq by (simp add: sub_def take_add)
  moreover have "rune_cut (take a s) (take ?p ?t)"
    using seg(3) pq by (cases ?p) (auto simp: rune_cut_def sub_def hd_take)
  ultimately have "RuneCountInString (take (a + ?p) s) =
      RuneCountInString (take a s) + RuneCountInString (take ?p ?t)" by (simp add: RuneCount_cut)
  moreover have "list_all is_ascii (sp_text sp)" using pq(3) u v by (metis list_all_append)
  ultimately show ?thesis
    unfolding located_def using e asc(1) hd pq(6) u v w ctx by (simp add: e) (metis append.assoc)
qed

lemma sentence_located:
  assumes good: "list_all (good_rx \<circ> re) rules"
    and seg: "a \<le> b" "b \<le> length s" "rune_cut (take a s) (drop a s)"
    and sen: "sen_text x = sub s a b" "runeStart x = int (RuneCountInString (take a s))"
  shows "\<exists>ps. list_all2 (located s) (extractSentence rules x) ps \<and> spans_from a b ps"
proof -
  let ?xs = "sort_key sp_start (scan_spans rules (sub s a b))"
  let ?ps = "map (\<lambda>sp. (a + sp_start sp, a + sp_end sp)) ?xs"
  have ok: "spans_ok (sub s a b) (scan_spans rules (sub s a b))" using good by (rule scan_spans_ok)
  have spans: "\<And>sp. sp \<in> set ?xs \<Longrightarrow> span_ok (sub s a b) sp" using ok by (simp add: spans_ok_def)
  have loc: "list_all2 (located s) (extractSentence rules x) ?ps"
    unfolding extractSentence_def sen list.rel_map
    by (rule list.rel_refl_strong) (rule span_located [OF seg spans]; simp)
  have "spans_from a b ?ps"
  proof (rule spans_from_sorted)
    show "sorted_wrt (\<lambda>x y. a + sp_end x \<le> a + sp_start y) ?xs" using spans_sorted [OF ok] by simp
    have "length (sub s a b) = b - a" using seg by (simp add: sub_def)
    then show "\<forall>x \<in> set ?xs. a + sp_start x < a + sp_end x \<and> a + sp_end x \<le> b"
      using spans seg(1) by (fastforce simp: span_ok_def)
  qed simp
  with loc show ?thesis by blast
qed

lemma entities_located:
  assumes "list_all (good_rx \<circ> re) rules"
  shows "tiles s lo segs \<Longrightarrow>
    \<exists>ps. list_all2 (located s) (concat (map (extractSentence rules) (number_segments s idx segs))) ps \<and>
         spans_from lo (length s) ps"
proof (induction segs arbitrary: lo idx)
  case Nil
  then show ?case by simp
next
  case (Cons ab segs)
  obtain a b where ab: "ab = (a, b)" by force
  with Cons.prems have seg: "a = lo" "a \<le> b" "b \<le> length s" "rune_cut (take a s) (drop a s)"
    and rest: "tiles s b segs" by auto
  show ?case
  proof (cases "b \<le> a \<or> TrimSpace (take (b - a) (drop a s)) = []")
    case True
    then have "number_segments s idx (ab # segs) = number_segments s idx segs" by (simp add: ab)
    with Cons.IH [OF rest, of idx] seg show ?thesis by (metis spans_from_mono)
  next
    case False
    let ?x = "\<lparr>sen_text = take (b - a) (drop a s), sen_index = idx,
            runeStart = int (RuneCountInString (take a s)), docPrefix = take a s\<rparr>"
    obtain ps where ps: "list_all2 (located s) (extractSentence rules ?x) ps" "spans_from a b ps"
      using sentence_located [OF assms seg(2-4), of ?x] by (auto simp: sub_def)
    obtain qs where qs: "list_all2 (located s)
        (concat (map (extractSentence rules) (number_segments s (idx + 1) segs))) qs"
      "spans_from b (length s) qs" using Cons.IH [OF rest] by blast
    show ?thesis
      using False ab seg list_all2_appendI [OF ps(1) qs(1)] spans_from_append [OF ps(2) seg(3) qs(2) seg(2)]
      by (intro exI [of _ "ps @ qs"]) simp
  qed
qed

text \<open>Before the final sort the entities are located and in order already.\<close>

lemma scanned_located:
  "\<exists>ps. list_all2 (located s) (concat (map (extractSentence NewMockExtractor) (splitSentences s))) ps \<and>
        spans_from 0 (length s) ps"
  unfolding splitSentences_def by (rule entities_located [OF good_NewMockExtractor sentence_tiles])

lemma located_runes:
  assumes "located s e (p, q)" and "p < q" and "q \<le> length s"
  shows "runes s = runes (take p s) @ runes (ent_Text e) @ runes (drop (p + length (ent_Text e)) s)"
    and "p + length (ent_Text e) \<le> q"
proof -
  from assms obtain u where u: "sub s p q = ent_Text e @ u" and T: "ent_Text e \<noteq> []"
      "list_all is_ascii (ent_Text e)" and p: "is_ascii (s ! p)" by (auto simp: located_def)
  have "length (sub s p q) = q - p" using assms by (simp add: sub_def)
  with u show le: "p + length (ent_Text e) \<le> q" using assms(2) by (metis le_add_diff_inverse length_append
        less_imp_le nat_add_left_cancel_le trans_le_add1 le_add1)
  have "ent_Text e = take (length (ent_Text e)) (sub s p q)" using u by simp
  then have "ent_Text e = sub s p (p + length (ent_Text e))"
    using le by (simp add: sub_def min_def split: if_splits)
  then have s: "s = take p s @ ent_Text e @ drop (p + length (ent_Text e)) s"
    using sub_parts [of p "p + length (ent_Text e)" s] le assms(3) by simp
  have "is_ascii (hd (ent_Text e))" "is_ascii (last (ent_Text e))" using T by (simp_all add: list_all_iff)
  then have "rune_cut (take p s) (ent_Text e @ drop (p + length (ent_Text e)) s)"
    "rune_cut (ent_Text e) (drop (p + length (ent_Text e)) s)" using T by (simp_all add: rune_cut_def)
  then show "runes s = runes (take p s) @ runes (ent_Text e) @ runes (drop (p + length (ent_Text e)) s)"
    using s rune_cut_runes by metis
qed

lemma spans_from_nth:
  "spans_from i n ps \<Longrightarrow> k < length ps \<Longrightarrow> fst (ps ! k) < snd (ps ! k) \<and> snd (ps ! k) \<le> n"
  using spans_from_mem [of i n ps "fst (ps ! k)" "snd (ps ! k)"] by simp

lemma spans_from_pairs:
  "spans_from i n ps \<Longrightarrow> sorted_wrt (\<lambda>x y. snd x \<le> fst y) ps"
  by (induction i n ps rule: spans_from.induct) (auto dest: spans_from_mem)

text \<open>Located entities in byte order are in rune order and do not overlap.\<close>

lemma located_before:
  assumes "located s e (p, q)" "located s e' (p', q')" "p < q" "q \<le> p'" "p' < q'" "q' \<le> length s"
  shows "CharOffset (ent_Position e) + int (RuneCountInString (ent_Text e)) \<le> CharOffset (ent_Position e')"
proof -
  have "located (take p' s) e (p, q)"
    using assms by (auto simp: located_def sub_def drop_take min_def)
  then have "runes (take p' s) = runes (take p (take p' s)) @ runes (ent_Text e) @
      runes (drop (p + length (ent_Text e)) (take p' s))"
    using assms by (intro located_runes(1)) auto
  then have "RuneCountInString (take p s) + RuneCountInString (ent_Text e) \<le> RuneCountInString (take p' s)"
    using assms by (simp add: RuneCountInString_def min_def)
  with assms(1,2) show ?thesis by (simp add: located_def)
qed

definition entity_before :: "Entity \<Rightarrow> Entity \<Rightarrow> bool" where
  "entity_before e e' \<longleftrightarrow>
     CharOffset (ent_Position e) + int (RuneCountInString (ent_Text e)) \<le> CharOffset (ent_Position e')"

lemma located_sorted:
  assumes "list_all2 (located s) es ps" and "spans_from 0 (length s) ps"
  shows "sorted_wrt entity_before es"
  unfolding sorted_wrt_iff_nth_less entity_before_def
proof (intro allI impI)
  fix i j
  assume ij: "i < j" "j < length es"
  have len: "length ps = length es" using assms(1) by (simp add: list_all2_lengthD)
  have loc: "located s (es ! i) (fst (ps ! i), snd (ps ! i))" "located s (es ! j) (fst (ps ! j), snd (ps ! j))"
    using assms(1) ij by (simp_all add: list_all2_nthD)
  have before: "snd (ps ! i) \<le> fst (ps ! j)"
    using spans_from_pairs [OF assms(2)] ij len by (simp add: sorted_wrt_iff_nth_less)
  show "CharOffset (ent_Position (es ! i)) + int (RuneCountInString (ent_Text (es ! i)))
      \<le> CharOffset (ent_Position (es ! j))"
    using spans_from_nth [OF assms(2), of i] spans_from_nth [OF assms(2), of j] ij len before
    by (intro located_before [OF loc]) simp_all
qed

lemma Extract_is_scan:
  "Extract_entities NewMockExtractor s =
   concat (map (extractSentence NewMockExtractor) (splitSentences s))"
proof -
  obtain ps where ps: "list_all2 (located s)
      (concat (map (extractSentence NewMockExtractor) (splitSentences s))) ps"
    "spans_from 0 (length s) ps" using scanned_located by blast
  have "sorted_wrt (\<lambda>e e'. CharOffset (ent_Position e) \<le> CharOffset (ent_Position e'))
      (concat (map (extractSentence NewMockExtractor) (splitSentences s)))"
    using located_sorted [OF ps] by (rule sorted_wrt_mono_rel [rotated]) (simp add: entity_before_def)
  then show ?thesis
    unfolding Extract_entities_def by (intro sort_key_id_if_sorted) (simp add: sorted_map)
qed

section \<open>Properties\<close>

lemma Extract_points_at_text_parts:
  assumes "MockExtractor_Extract doc = Inr es" and "e \<in> set es"
  shows "0 \<le> CharOffset (ent_Position e)"
    and "concat (take (RuneCountInString (ent_Text e))
           (drop (nat (CharOffset (ent_Position e))) (runes (doc_Text doc)))) = ent_Text e"
    and "ent_Text e \<noteq> []"
    and "\<exists>l m. ent_Context e = l @ ent_Text e @ m"
proof -
  let ?s = "doc_Text doc"
  obtain ps where ps: "list_all2 (located ?s) es ps" "spans_from 0 (length ?s) ps"
    using assms(1) scanned_located [of ?s] by (auto simp: MockExtractor_Extract_def Extract_is_scan)
  obtain k where k: "k < length es" "es ! k = e" using assms(2) by (metis in_set_conv_nth)
  then have "k < length ps" using ps(1) by (simp add: list_all2_lengthD)
  define p q where "p = fst (ps ! k)" and "q = snd (ps ! k)"
  have loc: "located ?s e (p, q)" using list_all2_nthD [OF ps(1) k(1)] k(2) by (simp add: p_def q_def)
  have pq: "p < q" "q \<le> length ?s" using spans_from_nth [OF ps(2) \<open>k < length ps\<close>] by (simp_all add: p_def q_def)
  have off: "CharOffset (ent_Position e) = int (length (runes (take p ?s)))"
    using loc by (simp add: located_def RuneCountInString_def)
  then show "0 \<le> CharOffset (ent_Position e)" by simp
  show "ent_Text e \<noteq> []" "\<exists>l m. ent_Context e = l @ ent_Text e @ m" using loc by (simp_all add: located_def)
  have "take (RuneCountInString (ent_Text e)) (drop (nat (CharOffset (ent_Position e))) (runes ?s)) =
      runes (ent_Text e)"
    unfolding located_runes(1) [OF loc pq] off by (simp add: RuneCountInString_def)
  then show "concat (take (RuneCountInString (ent_Text e))
      (drop (nat (CharOffset (ent_Position e))) (runes ?s))) = ent_Text e" by simp
qed

text \<open>
  C20. Every entity the rule-based extractor returns is a non-empty piece of the document:
  read from the reported character offset, as many characters of the document as the
  entity's text has are exactly that text (characters are runes, so offsets are right in any
  UTF-8 text, and in text that is not UTF-8), and the context it carries contains the text.
\<close>
theorem Extract_points_at_text:
  assumes "MockExtractor_Extract doc = Inr es" and "e \<in> set es"
  shows "0 \<le> CharOffset (ent_Position e) \<and>
    concat (take (RuneCountInString (ent_Text e))
      (drop (nat (CharOffset (ent_Position e))) (runes (doc_Text doc)))) = ent_Text e \<and>
    ent_Text e \<noteq> [] \<and> (\<exists>l m. ent_Context e = l @ ent_Text e @ m)"
  using Extract_points_at_text_parts [OF assms] by blast

definition sample_doc :: "string \<Rightarrow> Document" where
  "sample_doc s = \<lparr>doc_ID = ''d'', doc_Text = s, doc_ContentHash = [], doc_Status = DocExtracting,
     doc_RunVersion = 1, doc_TotalTokens = 0, doc_ClassifiedCount = 0, ExtractionStartedAt = None,
     ExtractionCompletedAt = None, ClassificationStartedAt = None, ClassificationCompletedAt = None,
     doc_CreatedAt = 0, doc_UpdatedAt = 0\<rparr>"

definition sample_entity :: Entity where
  "sample_entity = \<lparr>ent_Text = ''Jo Fox'', ent_Context = ''Jo Fox'',
     ent_Position = \<lparr>Page = 1, Sentence = 0, CharOffset = 0\<rparr>\<rparr>"

lemma sample_extracted: "MockExtractor_Extract (sample_doc ''Jo Fox'') = Inr [sample_entity]"
  unfolding MockExtractor_Extract_def sample_doc_def sample_entity_def by code_simp

theorem Extract_points_at_text_witness:
  "MockExtractor_Extract (sample_doc ''Jo Fox'') = Inr [sample_entity] \<and>
   concat (take (RuneCountInString (ent_Text sample_entity))
     (drop (nat (CharOffset (ent_Position sample_entity))) (runes (doc_Text (sample_doc ''Jo Fox''))))) =
   ent_Text sample_entity"
  using Extract_points_at_text [OF sample_extracted, of sample_entity] sample_extracted by simp

lemma Extract_order_parts:
  "sorted_wrt (\<lambda>e e'. CharOffset (ent_Position e) + int (RuneCountInString (ent_Text e))
                 \<le> CharOffset (ent_Position e')) (Extract_entities NewMockExtractor s) \<and>
   Extract_entities NewMockExtractor s =
     concat (map (extractSentence NewMockExtractor) (splitSentences s)) \<and>
   distinct (map (CharOffset \<circ> ent_Position) (Extract_entities NewMockExtractor s))"
proof -
  let ?es = "Extract_entities NewMockExtractor s"
  obtain ps where ps: "list_all2 (located s) ?es ps" "spans_from 0 (length s) ps"
    using scanned_located Extract_is_scan by metis
  have sorted: "sorted_wrt entity_before ?es" using ps by (rule located_sorted)
  have pos: "0 < RuneCountInString (ent_Text e)" if "e \<in> set ?es" for e
    using that ps(1) by (auto simp: list_all2_conv_all_nth in_set_conv_nth located_def intro!: RuneCount_pos)
  have "sorted_wrt (\<lambda>e e'. CharOffset (ent_Position e) < CharOffset (ent_Position e')) ?es"
    using sorted by (rule sorted_wrt_mono_rel [rotated]) (use pos in \<open>fastforce simp: entity_before_def\<close>)
  then have "sorted_wrt (<) (map (CharOffset \<circ> ent_Position) ?es)" by (simp add: sorted_wrt_map)
  then have "distinct (map (CharOffset \<circ> ent_Position) ?es)" by (simp add: strict_sorted_iff)
  with sorted Extract_is_scan show ?thesis by (simp add: entity_before_def [abs_def])
qed

text \<open>
  C21. The entities come in the order of the document and never overlap: each starts at or
  after the character where the one before it ends. The scan already produces them in that
  order, so the final sort changes nothing, and no two entities share a position.
\<close>
theorem Extract_in_order:
  "sorted_wrt (\<lambda>e e'. CharOffset (ent_Position e) + int (RuneCountInString (ent_Text e))
                 \<le> CharOffset (ent_Position e')) (Extract_entities NewMockExtractor s) \<and>
   Extract_entities NewMockExtractor s =
     concat (map (extractSentence NewMockExtractor) (splitSentences s)) \<and>
   distinct (map (CharOffset \<circ> ent_Position) (Extract_entities NewMockExtractor s))"
  by (rule Extract_order_parts)

lemma number_segments_parts:
  "map sen_text (number_segments s idx segs) = filter (\<lambda>x. TrimSpace x \<noteq> []) (map (\<lambda>(a, b). sub s a b) segs)"
  "map sen_index (number_segments s idx segs) = map (\<lambda>i. idx + int i) [0..<length (number_segments s idx segs)]"
proof (induction s idx segs rule: number_segments.induct)
  case (2 s idx start en segs)
  have blank: "TrimSpace [] = []" by (simp add: TrimSpace_def)
  { case 1 show ?case using 2 blank by (auto simp: sub_def) }
  { case 2 show ?case using "2.IH"(2,4) by (auto simp: upt_conv_Cons map_Suc_upt [symmetric] simp del: upt_Suc) }
qed simp_all

lemma number_segments_place:
  "tiles s lo segs \<Longrightarrow> x \<in> set (number_segments s idx segs) \<Longrightarrow>
   (\<exists>post. s = docPrefix x @ sen_text x @ post) \<and> runeStart x = int (RuneCountInString (docPrefix x))"
proof (induction s idx segs arbitrary: lo rule: number_segments.induct)
  case (2 s idx a b segs)
  then have "a \<le> b" "b \<le> length s" "tiles s b segs" by auto
  with 2 show ?case using sub_parts [of a b s] by (auto simp: sub_def split: if_splits)
qed simp

text \<open>
  C22. Splitting loses nothing: the document is the concatenation of the segments between
  sentence ends, the sentences are exactly the segments that are not blank, numbered from
  zero in order, and each carries the text before it and the rune offset where it starts.
\<close>
theorem splitSentences_partition:
  "\<exists>parts. concat parts = s \<and>
     map sen_text (splitSentences s) = filter (\<lambda>x. TrimSpace x \<noteq> []) parts \<and>
     map sen_index (splitSentences s) = map int [0..<length (splitSentences s)] \<and>
     list_all (\<lambda>x. (\<exists>post. s = docPrefix x @ sen_text x @ post) \<and>
                   runeStart x = int (RuneCountInString (docPrefix x))) (splitSentences s)"
proof -
  let ?segs = "segments (sentence_starts s) (length s)"
  have "concat (map (\<lambda>(a, b). sub s a b) ?segs) = s" using tiles_concat [OF sentence_tiles] by simp
  moreover have "list_all (\<lambda>x. (\<exists>post. s = docPrefix x @ sen_text x @ post) \<and>
      runeStart x = int (RuneCountInString (docPrefix x))) (splitSentences s)"
    using number_segments_place [OF sentence_tiles] by (auto simp: splitSentences_def list_all_iff)
  ultimately show ?thesis
    using number_segments_parts [of s 0 ?segs]
    by (intro exI [of _ "map (\<lambda>(a, b). sub s a b) ?segs"]) (simp add: splitSentences_def)
qed

end
