(* ===== verification/Llm_Mock.thy ===== *)
theory Llm_Mock
  imports Nlp_Mock Go_Float
begin

text \<open>
  \<^verbatim>\<open>internal/llm/mock.go\<close>: the deterministic classifier. Its regular expressions are those
  of the source; a float64 is the rational number it denotes, every operation rounding to
  the nearest representable one.
\<close>

record MockClassifier =
  delay :: int

type_synonym MockOption = "MockClassifier \<Rightarrow> MockClassifier"

definition WithDelay :: "int \<Rightarrow> MockOption" where
  "WithDelay d = (\<lambda>m. m\<lparr>delay := d\<rparr>)"

definition NewMockClassifier :: "MockOption list \<Rightarrow> MockClassifier" where
  "NewMockClassifier opts = foldl (\<lambda>m opt. opt m) \<lparr>delay = 0\<rparr> opts"

section \<open>Rules\<close>

definition dateRe :: rx where
  "dateRe = Seq BeginText (alts
     [seqs [fold_words month_names, plus_rx rx_s, Rep 1 2 rx_d],
      Seq (words_rx [''19'', ''20'']) (Rep 2 2 rx_d),
      seqs [Rep 1 2 rx_d, Lit ''/'', Rep 1 2 rx_d, Lit ''/'', Rep 2 4 rx_d]])"

definition addressPrefix :: rx where
  "addressPrefix = Seq BeginText (seqs [Rep 1 5 rx_d, plus_rx rx_s, rx_alpha])"

definition orgSuffix :: rx where
  "orgSuffix = seqs [WordB,
     fold_words [''inc'', ''incorporated'', ''corp'', ''corporation'', ''company'', ''co'', ''ltd'',
       ''llc'', ''plc'', ''group'', ''technologies'', ''systems'', ''solutions'', ''holdings'',
       ''industries'', ''bank'', ''partners'', ''capital'', ''ventures'', ''university'',
       ''institute'', ''association'', ''foundation'', ''agency''],
     WordB]"

definition personRe :: rx where
  "personRe = Seq BeginText (seqs
     [opt_rx (seqs [words_rx titles, opt_rx (Lit ''.''), plus_rx rx_s]),
      rx_upper, plus_rx rx_lower,
      opt_rx (seqs [plus_rx rx_s, rx_upper, Lit ''.'']),
      Rep 1 2 (seqs [plus_rx rx_s, rx_upper, plus_rx rx_lower]), EndText])"

definition classify :: "Token \<Rightarrow> Category \<times> string" where
  "classify tok =
     (let s = TrimSpace (tok_Text tok)
      in if MatchString dateRe s then (CategoryDate, ''matches a date/temporal pattern'')
         else if MatchString addressPrefix s then
           (CategoryAddress, ''leading street number indicates a postal address'')
         else if MatchString orgSuffix s then (CategoryCompany, ''contains a corporate suffix'')
         else if MatchString personRe s then (CategoryPerson, ''capitalized personal-name pattern'')
         else (CategoryUnknown, ''no confident signal from the token text''))"

text \<open>
  The constants are rounded to float64 at compile time; the division and the addition round
  at run time.
\<close>

definition confidence :: "string \<Rightarrow> Category \<Rightarrow> float64" where
  "confidence s c =
     (if c = CategoryUnknown then float64_of (40 / 100)
      else float64_of (float64_of (80 / 100) + float64_of (of_nat (unat (fnv32a s mod 20)) / 100)))"

text \<open>
  Whether the context is cancelled before the simulated latency is over is the argument
  \<open>cancelled\<close>; when both are ready \<^verbatim>\<open>select\<close> picks either, and both picks are covered.
\<close>

definition MockClassifier_Classify :: "MockClassifier \<Rightarrow> bool \<Rightarrow> Token \<Rightarrow> go_error + Classification" where
  "MockClassifier_Classify m cancelled tok =
     (if 0 < delay m \<and> cancelled then Inl ErrCanceled
      else case classify tok of
             (category, reason) \<Rightarrow>
               Inr \<lparr>cls_Category = category, cls_Confidence = confidence (tok_Text tok) category,
                    cls_Reasoning = reason\<rparr>)"

section \<open>The classifier's contract\<close>

text \<open>
  What the pipeline and the database rely on: a classifier that returns, returns one of the
  five categories and a confidence between zero and one.
\<close>

locale classifier =
  fixes run :: "Token \<Rightarrow> go_error + Classification"
  assumes category_valid: "run tok = Inr c \<Longrightarrow> Category_Valid (cls_Category c)"
    and confidence_unit: "run tok = Inr c \<Longrightarrow> 0 \<le> cls_Confidence c \<and> cls_Confidence c \<le> 1"
begin

text \<open>The value the REAL column stores stays in the unit interval.\<close>

lemma stored_confidence: "run tok = Inr c \<Longrightarrow> 0 \<le> float32_of (cls_Confidence c) \<and> float32_of (cls_Confidence c) \<le> 1"
  using confidence_unit by (simp add: float32_of_unit)

end

lemma classify_valid: "Category_Valid (fst (classify tok))"
  by (simp add: classify_def Let_def Category_Valid_def)

lemma unat_mod_20: "unat (w mod 20) < (20 :: nat)" for w :: u32
  by (simp add: unat_mod)

definition scaled_confidence :: "nat \<Rightarrow> float64" where
  "scaled_confidence n = float64_of (float64_of (80 / 100) + float64_of (of_nat n / 100))"

lemma float64_80: "float64_of (80 / 100) = 3602879701896397 / 4503599627370496"
  by code_simp

lemma float64_19: "float64_of (19 / 100) = 6845471433603154 / 36028797018963968"
  by code_simp

lemma scaled_confidence_bounds:
  assumes "n < 20"
  shows "float64_of (80 / 100) \<le> scaled_confidence n \<and> scaled_confidence n \<le> float64_of (99 / 100)"
proof -
  define A b x where "A = float64_of (80 / 100)" and "b = float64_of (x / 100)" and "x = (of_nat n :: rat)"
  have A: "A = 3602879701896397 / 4503599627370496" unfolding A_def by (rule float64_80)
  have x: "0 \<le> x" "x \<le> 19" using of_nat_mono [of n 19, where 'a = rat] assms by (simp_all add: x_def)
  then have unit: "0 \<le> x / 100" "x / 100 \<le> 1" by simp_all
  have "b - x / 100 \<le> 1 / 2 ^ 53" unfolding b_def using float64_of_error [OF unit] by (rule abs_le_D1)
  then have b: "0 \<le> b" "b \<le> x / 100 + 1 / 2 ^ 53"
    using float64_of_unit [OF unit] by (simp_all only: diff_le_eq add.commute b_def)
  have exact: "float64_of A = A"
    unfolding A by (intro float64_of_half_exact [where k = 7205759403792794]) simp_all
  have sum: "1 / 2 \<le> A" "A \<le> A + b" "A + b < 1" using b x unfolding A by simp_all
  then have lower: "A \<le> float64_of (A + b)" using float64_of_half_mono [of A "A + b"] exact by simp
  have "float64_of (A + b) \<le> float64_of (99 / 100)"
  proof (cases "n = 19")
    case True
    then have "b = 6845471433603154 / 36028797018963968" using float64_19 by (simp add: b_def x_def)
    with A have ab: "A + b = 35668509048774330 / 36028797018963968" by simp
    have "\<lfloor>17834254524387165 / 2 :: rat\<rfloor> = 8917127262193582" "\<lfloor>222928181554839552 / 25 :: rat\<rfloor> = 8917127262193582"
      by (simp_all add: floor_eq_iff)
    then show ?thesis
      unfolding ab by (simp add: float64_of_half round_half_even_def Let_def)
  next
    case False
    with assms have "x \<le> 18" using of_nat_mono [of n 18, where 'a = rat] by (simp add: x_def)
    then have "A + b \<le> 99 / 100" using b(2) unfolding A by simp
    with sum show ?thesis by (intro float64_of_half_mono) simp_all
  qed
  with lower show ?thesis by (simp only: scaled_confidence_def A_def b_def x_def simp_thms)
qed

lemma confidence_cases:
  "c = CategoryUnknown \<Longrightarrow> confidence s c = float64_of (40 / 100)"
  "c \<noteq> CategoryUnknown \<Longrightarrow> float64_of (80 / 100) \<le> confidence s c \<and> confidence s c \<le> float64_of (99 / 100)"
proof -
  show "c = CategoryUnknown \<Longrightarrow> confidence s c = float64_of (40 / 100)" by (simp add: confidence_def)
  assume "c \<noteq> CategoryUnknown"
  then have "confidence s c = scaled_confidence (unat (fnv32a s mod 20))"
    by (simp add: confidence_def scaled_confidence_def)
  with scaled_confidence_bounds [OF unat_mod_20]
  show "float64_of (80 / 100) \<le> confidence s c \<and> confidence s c \<le> float64_of (99 / 100)" by simp
qed

lemma confidence_in_unit: "0 \<le> confidence s c \<and> confidence s c \<le> 1"
proof (cases "c = CategoryUnknown")
  case True
  then show ?thesis using float64_of_unit [of "40 / 100"] by (simp add: confidence_cases(1))
next
  case False
  from confidence_cases(2) [OF this, of s] float64_of_unit [of "80 / 100"] float64_of_unit [of "99 / 100"]
  show ?thesis by simp
qed

interpretation mock: classifier "MockClassifier_Classify m cancelled"
  for m :: MockClassifier and cancelled :: bool
proof
  fix tok c
  assume run: "MockClassifier_Classify m cancelled tok = Inr c"
  then obtain k r where "classify tok = (k, r)" "cls_Category c = k" "cls_Confidence c = confidence (tok_Text tok) k"
    by (auto simp: MockClassifier_Classify_def split: if_splits prod.splits)
  with classify_valid [of tok] confidence_in_unit
  show "Category_Valid (cls_Category c)" "0 \<le> cls_Confidence c \<and> cls_Confidence c \<le> 1" by auto
qed

section \<open>Classes and repetitions of classes\<close>

lemma reps_class_iff:
  "st' \<in> set (reps (ends (Cls rs)) m n st) \<longleftrightarrow>
   (\<exists>w. reads w st st' \<and> list_all (in_class rs) w \<and> m \<le> length w \<and> length w \<le> n)"
proof (induction n arbitrary: m st)
  case 0
  show ?case by auto
next
  case (Suc n)
  show ?case
  proof
    assume "st' \<in> set (reps (ends (Cls rs)) m (Suc n) st)"
    then consider "m = 0" "st' = st"
      | st1 where "st1 \<in> set (ends (Cls rs) st)" "st' \<in> set (reps (ends (Cls rs)) (m - 1) n st1)"
      by (auto split: if_splits simp del: ends.simps)
    then show "\<exists>w. reads w st st' \<and> list_all (in_class rs) w \<and> m \<le> length w \<and> length w \<le> Suc n"
    proof cases
      case 1
      then show ?thesis by (intro exI [of _ "[]"]) simp
    next
      case 2
      from 2(1) obtain c cs where c: "snd st = c # cs" "in_class rs c" "st1 = (Some c, cs)"
        by (cases "snd st") (auto split: if_splits)
      from 2(2) Suc.IH obtain w where w: "reads w st1 st'" "list_all (in_class rs) w" "m - 1 \<le> length w" "length w \<le> n"
        by blast
      have "reads [c] st st1" using c by (simp add: reads_def)
      then have "reads (c # w) st st'" using reads_append w(1) by fastforce
      with w c(2) show ?thesis by (intro exI [of _ "c # w"]) auto
    qed
  next
    assume "\<exists>w. reads w st st' \<and> list_all (in_class rs) w \<and> m \<le> length w \<and> length w \<le> Suc n"
    then obtain w where w: "reads w st st'" "list_all (in_class rs) w" "m \<le> length w" "length w \<le> Suc n" by blast
    show "st' \<in> set (reps (ends (Cls rs)) m (Suc n) st)"
    proof (cases w)
      case Nil
      with w show ?thesis by simp
    next
      case (Cons c u)
      with w have st: "snd st = c # u @ snd st'" by (simp add: reads_def)
      have "reads u (Some c, u @ snd st') st'" using w Cons by (auto simp: reads_def)
      with w Cons Suc.IH have "st' \<in> set (reps (ends (Cls rs)) (m - 1) n (Some c, u @ snd st'))"
        by (metis Suc_le_mono diff_le_mono length_Cons list.pred_inject(2) diff_Suc_1)
      moreover have "(Some c, u @ snd st') \<in> set (ends (Cls rs) st)" using st w(2) Cons by simp
      ultimately show ?thesis by (auto simp del: ends.simps)
    qed
  qed
qed

lemma plus_class_iff:
  "st' \<in> set (ends (plus_rx (Cls rs)) st) \<longleftrightarrow> (\<exists>w. reads w st st' \<and> list_all (in_class rs) w \<and> w \<noteq> [])"
proof -
  have eq: "set (ends (plus_rx (Cls rs)) st) = set (reps (ends (Cls rs)) 1 (length (snd st)) st)"
  proof (cases "snd st")
    case Nil
    then show ?thesis by (simp add: plus_rx_def)
  next
    case (Cons c cs)
    then show ?thesis by (simp add: plus_rx_def)
  qed
  have "length w \<le> length (snd st)" if "reads w st st'" for w using that by (simp add: reads_def)
  then show ?thesis unfolding eq reps_class_iff by (auto simp: Suc_le_eq)
qed

definition is_rx_space :: "char \<Rightarrow> bool" where
  "is_rx_space c \<longleftrightarrow> in_class [(9, 10), (12, 13), (32, 32)] c"

definition is_alpha :: "char \<Rightarrow> bool" where
  "is_alpha c \<longleftrightarrow> in_class [(65, 90), (97, 122)] c"

lemma addressPrefix_iff:
  "MatchString addressPrefix s \<longleftrightarrow>
   (\<exists>ds ws c r. s = ds @ ws @ c # r \<and> 1 \<le> length ds \<and> length ds \<le> 5 \<and> list_all is_digit ds \<and>
      ws \<noteq> [] \<and> list_all is_rx_space ws \<and> is_alpha c)"
proof -
  have dig: "is_digit = in_class [(48, 57)]" by (simp add: fun_eq_iff is_digit_def in_class_def)
  have sp: "is_rx_space = in_class [(9, 10), (12, 13), (32, 32)]" by (simp add: fun_eq_iff is_rx_space_def)
  have "MatchString addressPrefix s \<longleftrightarrow>
    (\<exists>st1 \<in> set (reps (ends rx_d) 1 5 (None, s)). \<exists>st2 \<in> set (ends (plus_rx rx_s) st1). ends rx_alpha st2 \<noteq> [])"
    by (simp add: addressPrefix_def MatchString_anchored)
  also have "\<dots> \<longleftrightarrow> (\<exists>ds st1 ws st2. reads ds (None, s) st1 \<and> list_all is_digit ds \<and> 1 \<le> length ds \<and> length ds \<le> 5 \<and>
      reads ws st1 st2 \<and> list_all is_rx_space ws \<and> ws \<noteq> [] \<and> ends rx_alpha st2 \<noteq> [])"
    unfolding rx_d_def rx_s_def Bex_def reps_class_iff plus_class_iff dig sp by blast
  also have "\<dots> \<longleftrightarrow> (\<exists>ds ws c r. s = ds @ ws @ c # r \<and> 1 \<le> length ds \<and> length ds \<le> 5 \<and> list_all is_digit ds \<and>
      ws \<noteq> [] \<and> list_all is_rx_space ws \<and> is_alpha c)"
    (is "?L \<longleftrightarrow> ?R")
  proof
    assume ?L
    then obtain ds st1 ws st2 where *: "reads ds (None, s) st1" "list_all is_digit ds" "1 \<le> length ds"
      "length ds \<le> 5" "reads ws st1 st2" "list_all is_rx_space ws" "ws \<noteq> []" "ends rx_alpha st2 \<noteq> []" by blast
    then obtain c r where c: "snd st2 = c # r" "is_alpha c"
      by (cases "snd st2") (auto simp: rx_alpha_def is_alpha_def split: if_splits)
    with * have "s = ds @ ws @ c # r" by (simp add: reads_def)
    with * c show ?R by blast
  next
    assume ?R
    then obtain ds ws c r where *: "s = ds @ ws @ c # r" "1 \<le> length ds" "length ds \<le> 5" "list_all is_digit ds"
      "ws \<noteq> []" "list_all is_rx_space ws" "is_alpha c" by blast
    then have "reads ds (None, s) (Some (last ds), ws @ c # r)"
      "reads ws (Some (last ds), ws @ c # r) (Some (last ws), c # r)"
      "ends rx_alpha (Some (last ws), c # r) \<noteq> []"
      by (auto simp: reads_def rx_alpha_def is_alpha_def)
    with * show ?L by blast
  qed
  finally show ?thesis .
qed

section \<open>Years and addresses\<close>

lemma digit_class: "in_class [(48, 57)] = is_digit"
  by (simp add: fun_eq_iff is_digit_def in_class_def)

lemma slash_byte: "byte_of (CHR ''/'') = 47"
  by code_simp

lemma space_no_digit: "is_rx_space c \<Longrightarrow> \<not> is_digit c \<and> c \<noteq> CHR ''/''"
  by (auto simp: is_rx_space_def is_digit_def in_class_def in_range_def slash_byte)

lemma digit_no_slash: "is_digit c \<Longrightarrow> c \<noteq> CHR ''/''"
  by (auto simp: is_digit_def in_range_def slash_byte)

lemma year_matches:
  "ends (Seq (words_rx [''19'', ''20'']) (Rep 2 2 rx_d)) (None, s) \<noteq> [] \<longleftrightarrow>
   (\<exists>y \<in> {''19'', ''20''}. \<exists>a b t. s = y @ a # b # t \<and> is_digit a \<and> is_digit b)"
proof -
  have two: "reps (ends rx_d) 2 2 (p, t) \<noteq> [] \<longleftrightarrow> (\<exists>a b u. t = a # b # u \<and> is_digit a \<and> is_digit b)" for p t
    by (cases t; cases "tl t") (auto simp: numeral_2_eq_2 rx_d_def digit_class)
  have "ends (Seq (words_rx [''19'', ''20'']) (Rep 2 2 rx_d)) (None, s) \<noteq> [] \<longleftrightarrow>
      (\<exists>t a b u. (s = ''19'' @ t \<or> s = ''20'' @ t) \<and> t = a # b # u \<and> is_digit a \<and> is_digit b)"
    by (cases s; cases "tl s") (auto simp: words_rx_def two simp del: reps.simps)
  then show ?thesis by auto
qed

lemma month_starts: "is_digit d \<Longrightarrow> ends (fold_words month_names) (p, d # s) = []"
proof (rule ccontr)
  assume d: "is_digit d" and "ends (fold_words month_names) (p, d # s) \<noteq> []"
  then obtain st where st: "st \<in> set (ends (fold_words month_names) (p, d # s))" by (cases "ends (fold_words month_names) (p, d # s)") auto
  have "starts_with (\<lambda>b. b < 48 \<or> 57 < b) (fold_words month_names)" "min_len (fold_words month_names) = 3"
    by code_simp+
  with ends_reads_some [OF st] ends_first_ok [OF st] obtain w where "reads w (p, d # s) st" "w \<noteq> []"
    "first_ok (\<lambda>b. b < 48 \<or> 57 < b) (p, d # s) st" by fastforce
  with d show False
    by (cases w) (auto simp: first_ok_def reads_def is_digit_def in_range_def)
qed

lemma slashes_match:
  assumes "s = ds @ w # t" and "list_all is_digit ds" and "is_rx_space w"
  shows "ends (seqs [Rep 1 2 rx_d, Lit ''/'', Rep 1 2 rx_d, Lit ''/'', Rep 2 4 rx_d]) (None, s) = []"
proof -
  have "step_lit ''/'' st = []" if "st \<in> set (reps (ends rx_d) 1 2 (None, s))" for st
  proof -
    from that obtain v where v: "s = v @ snd st" "list_all is_digit v"
      unfolding rx_d_def reps_class_iff digit_class by (auto simp: reads_def)
    have "\<exists>c u. snd st = c # u \<and> c \<noteq> CHR ''/''"
    proof -
      have "ds @ w # t = v @ snd st" using v assms(1) by simp
      then consider us where "ds = v @ us" "snd st = us @ w # t" | us where "v = ds @ us" "w # t = us @ snd st"
        by (auto simp: append_eq_append_conv2)
      then show ?thesis
      proof cases
        case (1 us)
        with assms(2,3) space_no_digit [of w] digit_no_slash show ?thesis by (cases us) auto
      next
        case (2 us)
        with v(2) assms(3) space_no_digit [of w] show ?thesis by (cases us) (auto simp: eq_commute [of "w # t"])
      qed
    qed
    then show ?thesis by (cases st) auto
  qed
  then show ?thesis by (auto simp: concat_eq_Nil_conv simp del: reps.simps)
qed

lemma address_dateRe:
  assumes s: "s = ds @ ws @ c # r" and ds: "ds \<noteq> []" "list_all is_digit ds" and ws: "ws \<noteq> []" "list_all is_rx_space ws"
  shows "MatchString dateRe s \<longleftrightarrow> 4 \<le> length ds \<and> take 2 ds \<in> {''19'', ''20''}"
proof -
  obtain w u where w: "ws = w # u" "is_rx_space w" using ws by (cases ws) auto
  obtain d e where d: "ds = d # e" "is_digit d" using ds by (cases ds) auto
  have "MatchString dateRe s \<longleftrightarrow> ends (Seq (words_rx [''19'', ''20'']) (Rep 2 2 rx_d)) (None, s) \<noteq> []"
    using slashes_match [of s ds w "u @ c # r"] s w ds(2) month_starts [OF d(2), of None "e @ ws @ c # r"] d(1)
    by (simp add: dateRe_def MatchString_anchored del: reps.simps)
  also have "\<dots> \<longleftrightarrow> 4 \<le> length ds \<and> take 2 ds \<in> {''19'', ''20''}"
    unfolding year_matches
  proof
    assume "\<exists>y \<in> {''19'', ''20''}. \<exists>a b t. s = y @ a # b # t \<and> is_digit a \<and> is_digit b"
    then obtain y a b t where eq: "s = y @ a # b # t" and year: "y \<in> {''19'', ''20''}" and ab: "is_digit a" "is_digit b"
      by blast
    have "list_all is_digit ''19''" "list_all is_digit ''20''" by code_simp+
    with eq year ab have y: "ds @ w # u @ c # r = y @ [a, b] @ t" "y \<in> {''19'', ''20''}"
      "list_all is_digit (y @ [a, b])" "length y = 2" unfolding s w(1) by auto
    have "4 \<le> length ds"
    proof (rule ccontr)
      assume "\<not> 4 \<le> length ds"
      then have "length ds < length (y @ [a, b])" using y(4) by simp
      moreover from this y(1) have "(y @ [a, b]) ! length ds = w"
        by (metis append.assoc nth_append nth_append_length)
      ultimately have "is_digit w" using y(3) by (metis list_all_length)
      with space_no_digit [OF w(2)] show False by simp
    qed
    moreover from this have "take 2 ds = y" using arg_cong [OF y(1), of "take 2"] y(4) by simp
    ultimately show "4 \<le> length ds \<and> take 2 ds \<in> {''19'', ''20''}" using y(2) by simp
  next
    assume four: "4 \<le> length ds \<and> take 2 ds \<in> {''19'', ''20''}"
    then obtain a b t where t: "drop 2 ds = a # b # t"
      by (cases "drop 2 ds"; cases "tl (drop 2 ds)") (auto dest: arg_cong [where f = length])
    have "ds = take 2 ds @ a # b # t" using append_take_drop_id [of 2 ds] by (simp only: t)
    moreover from this have "is_digit a" "is_digit b" using ds(2) by (metis list_all_append list.pred_inject(2))+
    ultimately show "\<exists>y \<in> {''19'', ''20''}. \<exists>a b t. s = y @ a # b # t \<and> is_digit a \<and> is_digit b"
      using four unfolding s by (metis append.assoc append_Cons)
  qed
  finally show ?thesis .
qed

section \<open>Properties\<close>

text \<open>
  C23. The deterministic classifier returns on every token unless its simulated latency is
  interrupted, and what it returns depends on the token's text alone: one of the five
  categories, a confidence of 0.40 (as a float64) for UNKNOWN and one between the float64
  values of 0.80 and 0.99 for the others, however the hash of the text falls; an
  interrupted call reports the cancellation.
\<close>
theorem mock_Classify_outcome:
  "case MockClassifier_Classify m cancelled tok of
     Inl e \<Rightarrow> 0 < delay m \<and> cancelled \<and> e = ErrCanceled
   | Inr c \<Rightarrow> \<not> (0 < delay m \<and> cancelled) \<and> Category_Valid (cls_Category c) \<and>
       (if cls_Category c = CategoryUnknown then cls_Confidence c = float64_of (40 / 100)
        else float64_of (80 / 100) \<le> cls_Confidence c \<and> cls_Confidence c \<le> float64_of (99 / 100)) \<and>
       (\<forall>tok'. tok_Text tok' = tok_Text tok \<longrightarrow> MockClassifier_Classify m cancelled tok' = Inr c)"
proof (cases "0 < delay m \<and> cancelled")
  case True
  then show ?thesis by (simp add: MockClassifier_Classify_def)
next
  case False
  obtain k r where k: "classify tok = (k, r)" by force
  have same: "classify tok' = (k, r)" if "tok_Text tok' = tok_Text tok" for tok'
    using k that by (simp add: classify_def)
  have "Category_Valid k" using classify_valid [of tok] k by simp
  with False k same confidence_cases [of k "tok_Text tok"] show ?thesis
    by (auto simp: MockClassifier_Classify_def)
qed

definition sample_token :: "string \<Rightarrow> Token" where
  "sample_token s = \<lparr>tok_ID = 7, tok_DocumentID = ''d'', tok_RunVersion = 1, tok_Text = s,
     tok_Context = s, tok_Position = \<lparr>Page = 1, Sentence = 0, CharOffset = 0\<rparr>,
     tok_Status = TokenPending, tok_Classification = None, tok_Confidence = None,
     tok_Reasoning = None, tok_CreatedAt = 0, tok_ClassifiedAt = None\<rparr>"

theorem mock_Classify_outcome_witness:
  "case MockClassifier_Classify \<lparr>delay = 5\<rparr> True (sample_token ''x'') of
     Inl e \<Rightarrow> e = ErrCanceled | Inr c \<Rightarrow> False"
  using mock_Classify_outcome [of "\<lparr>delay = 5\<rparr>" True "sample_token ''x''"]
  by (simp add: MockClassifier_Classify_def)

text \<open>
  C24. The rule for addresses is the pattern it describes: text is given the category ADDRESS
  exactly when, trimmed, it starts with one to five digits, white space and a letter, and
  the date rule, which comes first, does not apply.
\<close>
theorem classify_address_iff:
  "fst (classify tok) = CategoryAddress \<longleftrightarrow>
   \<not> MatchString dateRe (TrimSpace (tok_Text tok)) \<and>
   (\<exists>ds ws c r. TrimSpace (tok_Text tok) = ds @ ws @ c # r \<and> 1 \<le> length ds \<and> length ds \<le> 5 \<and>
      list_all is_digit ds \<and> ws \<noteq> [] \<and> list_all is_rx_space ws \<and> is_alpha c)"
  using category_distinct by (simp add: classify_def Let_def addressPrefix_iff del: category_distinct) auto

text \<open>
  C25. Which postal addresses are recognised as such. A text that, trimmed, starts like one (one to
  five digits, white space, a letter) is labelled ADDRESS unless its number has four or five
  digits and starts with 19 or 20: those read as a year to the date rule, which is anchored at
  the start only and comes first, and are labelled DATE, whatever follows.
\<close>
theorem year_numbers_are_dates:
  assumes "TrimSpace (tok_Text tok) = ds @ ws @ c # r" and "1 \<le> length ds" and "length ds \<le> 5"
    and "list_all is_digit ds" and "ws \<noteq> []" and "list_all is_rx_space ws" and "is_alpha c"
  shows "fst (classify tok) =
    (if 4 \<le> length ds \<and> take 2 ds \<in> {''19'', ''20''} then CategoryDate else CategoryAddress)"
proof -
  have "MatchString addressPrefix (TrimSpace (tok_Text tok))" unfolding addressPrefix_iff using assms by blast
  moreover have "ds \<noteq> []" using assms(2) by auto
  ultimately show ?thesis
    using address_dateRe [OF assms(1) _ assms(4,5,6)] by (auto simp: classify_def Let_def)
qed

theorem year_numbers_are_dates_witness:
  "fst (classify (sample_token ''1900 Main Street'')) = CategoryDate \<and>
   fst (classify (sample_token ''350 Fifth Avenue'')) = CategoryAddress"
proof -
  have "TrimSpace (tok_Text (sample_token ''1900 Main Street'')) = ''1900'' @ '' '' @ CHR ''M'' # ''ain Street''"
    "TrimSpace (tok_Text (sample_token ''350 Fifth Avenue'')) = ''350'' @ '' '' @ CHR ''F'' # ''ifth Avenue''"
    unfolding sample_token_def by code_simp+
  moreover have "list_all is_digit ''1900''" "list_all is_digit ''350''" "list_all is_rx_space '' ''"
    "is_alpha (CHR ''M'')" "is_alpha (CHR ''F'')" by code_simp+
  ultimately show ?thesis
    using year_numbers_are_dates [of "sample_token ''1900 Main Street''" "''1900''" "'' ''" "CHR ''M''" "''ain Street''"]
      year_numbers_are_dates [of "sample_token ''350 Fifth Avenue''" "''350''" "'' ''" "CHR ''F''" "''ifth Avenue''"]
    by simp
qed

end
