(* ===== verification/Valid_Text.thy ===== *)
theory Valid_Text
  imports Jobs
begin

text \<open>
  Text the database accepts: which operations on strings keep UTF-8 valid (concatenation,
  cutting at runes, trimming, encoding runes), and that every string read from JSON is valid,
  so that the zero byte is all the database can object to in a decoded request.
\<close>

section \<open>Pieces of valid UTF-8\<close>

text \<open>A rune of a valid string is one well-formed sequence, and decoding finds it again.\<close>

definition valid_rune :: "string \<Rightarrow> bool" where
  "valid_rune r \<longleftrightarrow> utf8_len r = Some (length r)"

lemma ValidString_runes: "ValidString s \<longleftrightarrow> list_all valid_rune (runes s)"
  unfolding ValidString_def valid_rune_def list_all_iff by (metis option.distinct(1) runes_len)

lemma runes_concat: "list_all valid_rune rs \<Longrightarrow> runes (concat rs) = rs"
proof (induction rs)
  case (Cons r rs)
  then have r: "utf8_len (r @ concat rs) = Some (length r)" by (simp add: valid_rune_def utf8_len_append)
  then have "rune_width (r @ concat rs) = length r" by (simp add: rune_width_def)
  moreover obtain c cs where "r @ concat rs = c # cs"
    using utf8_len_bounds [OF r] by (cases r) auto
  ultimately show ?case using Cons by (metis append_eq_conv_conj concat.simps(2) list.pred_inject(2) runes.simps(2))
qed simp

lemma text_ok_runes:
  assumes "text_ok s" and "runes s = l @ rs @ m"
  shows "text_ok (concat rs)"
proof -
  have "list_all valid_rune rs" using assms by (simp add: text_ok_def ValidString_runes)
  moreover have "set (concat rs) \<subseteq> set s" by (metis UnCI assms(2) concat_append concat_runes set_append subsetI)
  ultimately show ?thesis using assms(1) by (auto simp: text_ok_def ValidString_runes runes_concat)
qed

lemma text_ok_TrimSpace: "text_ok s \<Longrightarrow> text_ok (TrimSpace s)"
  using trim_runes_parts [of "runes s"] by (metis TrimSpace_runes text_ok_runes)

lemma byte_of_zero: "byte_of c = 0 \<longleftrightarrow> c = CHR 0x00"
  by (cases c) (auto simp: byte_of_def)

section \<open>Strings read from JSON\<close>

lemma ValidString_concat: "list_all valid_rune rs \<Longrightarrow> ValidString (concat rs)"
  by (simp add: ValidString_runes runes_concat)

lemma ValidString_Cons: "valid_rune r \<Longrightarrow> ValidString s \<Longrightarrow> ValidString (r @ s)"
  using ValidString_concat [of "r # runes s"] by (simp add: ValidString_runes)

lemma valid_rune_encode:
  "n < 128 \<Longrightarrow> valid_rune [char_of_nat n]"
  "194 \<le> a \<Longrightarrow> a \<le> 223 \<Longrightarrow> b < 64 \<Longrightarrow> valid_rune [char_of_nat a, char_of_nat (128 + b)]"
  "224 \<le> a \<Longrightarrow> a \<le> 239 \<Longrightarrow> b < 64 \<Longrightarrow> (a = 224 \<longrightarrow> 32 \<le> b) \<Longrightarrow> (a = 237 \<longrightarrow> b < 32) \<Longrightarrow> c < 64 \<Longrightarrow>
     valid_rune [char_of_nat a, char_of_nat (128 + b), char_of_nat (128 + c)]"
  "240 \<le> a \<Longrightarrow> a \<le> 244 \<Longrightarrow> b < 64 \<Longrightarrow> (a = 240 \<longrightarrow> 16 \<le> b) \<Longrightarrow> (a = 244 \<longrightarrow> b < 16) \<Longrightarrow> c < 64 \<Longrightarrow> d < 64 \<Longrightarrow>
     valid_rune [char_of_nat a, char_of_nat (128 + b), char_of_nat (128 + c), char_of_nat (128 + d)]"
  by (auto simp: valid_rune_def utf8_len_def is_cont_def in_range_def)

lemma valid_rune_replacement: "valid_rune replacement_char"
  by (simp add: replacement_char_def valid_rune_def utf8_len_def is_cont_def in_range_def)

text \<open>\<^verbatim>\<open>EncodeRune\<close> never writes anything but one well-formed sequence.\<close>

lemma valid_EncodeRune: "valid_rune (EncodeRune u)"
proof -
  consider "u < 128" | "128 \<le> u" "u < 2048" | "\<not> u < 2048" "55296 \<le> u \<and> u \<le> 57343 \<or> 1114111 < u"
    | "2048 \<le> u" "u < 65536" "\<not> (55296 \<le> u \<and> u \<le> 57343)" | "65536 \<le> u" "u \<le> 1114111" by linarith
  then show ?thesis
  proof cases
    case 1
    then show ?thesis by (simp add: EncodeRune_def valid_rune_encode)
  next
    case 2
    then have "valid_rune [char_of_nat (192 + u div 64), char_of_nat (128 + u mod 64)]"
      by (intro valid_rune_encode) simp_all
    with 2 show ?thesis by (simp add: EncodeRune_def)
  next
    case 3
    then show ?thesis by (auto simp: EncodeRune_def valid_rune_replacement)
  next
    case 4
    define k where "k = u div 64"
    have k: "32 \<le> k" "k < 1024" "k < 864 \<or> 896 \<le> k"
      using 4 by (auto simp: k_def less_eq_div_iff_mult_less_eq div_less_iff_less_mult)
    have split: "k = 64 * (k div 64) + k mod 64" "k mod 64 < 64" by simp_all
    have "k div 64 \<le> 15" "k div 64 = 0 \<longrightarrow> 32 \<le> k mod 64" "k div 64 = 13 \<longrightarrow> k mod 64 < 32"
      using k split by linarith+
    then have "valid_rune [char_of_nat (224 + k div 64), char_of_nat (128 + k mod 64), char_of_nat (128 + u mod 64)]"
      by (intro valid_rune_encode) simp_all
    moreover have "u div 4096 = k div 64" by (simp add: k_def flip: div_mult2_eq)
    ultimately show ?thesis using 4 by (auto simp: EncodeRune_def k_def)
  next
    case 5
    define k where "k = u div 4096"
    have k: "16 \<le> k" "k < 272"
      using 5 by (simp_all add: k_def less_eq_div_iff_mult_less_eq div_less_iff_less_mult)
    have split: "k = 64 * (k div 64) + k mod 64" "k mod 64 < 64" by simp_all
    have "k div 64 \<le> 4" "k div 64 = 0 \<longrightarrow> 16 \<le> k mod 64" "k div 64 = 4 \<longrightarrow> k mod 64 < 16"
      using k split by linarith+
    then have "valid_rune [char_of_nat (240 + k div 64), char_of_nat (128 + k mod 64),
        char_of_nat (128 + u div 64 mod 64), char_of_nat (128 + u mod 64)]"
      by (intro valid_rune_encode) simp_all
    moreover have "u div 262144 = k div 64" by (simp add: k_def flip: div_mult2_eq)
    ultimately show ?thesis using 5 by (simp add: EncodeRune_def k_def)
  qed
qed

lemma valid_rune_take: "utf8_len s \<noteq> None \<Longrightarrow> valid_rune (take (rune_width s) s)"
  using utf8_len_bounds [of s] utf8_len_take [of s] by (auto simp: rune_width_def valid_rune_def)

lemma simple_escape_ascii: "simple_escape c = Some x \<Longrightarrow> valid_rune [x]"
  by (auto simp: simple_escape_def valid_rune_def utf8_len_def byte_of_def split: if_splits)

lemma parse_str_valid: "parse_str s = Some (x, r) \<Longrightarrow> ValidString x"
proof (induction s arbitrary: x r rule: parse_str.induct)
  case (2 c cs)
  note step = "2.prems" [unfolded parse_str.simps(2)]
  consider "c = CHR 0x22" | "c = CHR 0x5C" | "c \<noteq> CHR 0x22" "c \<noteq> CHR 0x5C" by blast
  then show ?case
  proof cases
    case 1
    with step show ?thesis by (simp add: ValidString_def)
  next
    case 2
    with step obtain e ds where cs: "cs = e # ds" by (auto split: list.splits)
    show ?thesis
      using step 2 cs "2.IH"(1,2) valid_EncodeRune simple_escape_ascii
      by (fastforce simp: prepend_Some intro: ValidString_Cons [of "[_]", simplified] ValidString_Cons split: if_splits option.splits)
  next
    case 3
    with step obtain y where y: "parse_str (drop (rune_width (c # cs)) (c # cs)) = Some (y, r)"
      "x = (if utf8_len (c # cs) = None then replacement_char else take (rune_width (c # cs)) (c # cs)) @ y" "\<not> byte_of c < 32"
      by (auto simp: prepend_Some split: if_splits)
    with "2.IH"(3) 3 have "ValidString y" by blast
    then show ?thesis unfolding y(2) using valid_rune_replacement valid_rune_take [of "c # cs"]
      by (intro ValidString_Cons) auto
  qed
qed simp

text \<open>A value, and the members of an object, hold only valid strings where they are strings.\<close>

definition string_ok :: "json \<Rightarrow> bool" where
  "string_ok v \<longleftrightarrow> (\<forall>s. v = JStr s \<longrightarrow> ValidString s)"

definition members_ok :: "json \<Rightarrow> bool" where
  "members_ok v \<longleftrightarrow> (\<forall>ms. v = JObj ms \<longrightarrow> list_all (\<lambda>(k, w). string_ok w) ms)"

lemma expect_result: "expect lit v s = Some (w, r) \<Longrightarrow> w = v"
  by (simp add: expect_def split: if_splits)

lemma parse_value_ok:
  "parse_value n d s = Some (v, r) \<Longrightarrow> string_ok v \<and> members_ok v"
  "parse_elems n d s = Some (vs, r) \<Longrightarrow> True"
  "parse_members n d s = Some (ms, r) \<Longrightarrow> list_all (\<lambda>(k, w). string_ok w) ms"
proof (induction n d s and n d s and n d s arbitrary: v r and vs r and ms r
    rule: parse_value_parse_elems_parse_members.induct)
  case (2 n d s)
  from "2.prems" obtain c cs where ws: "skip_ws s = c # cs" by (auto split: list.splits)
  show ?case
  proof (cases "c = CHR 0x7B \<or> c = CHR 0x5B")
    case True
    with "2.prems" ws obtain e es where es: "skip_ws cs = e # es" and d: "d \<noteq> 0"
      by (auto split: list.splits if_splits)
    from "2.prems" ws es d True show ?thesis
      using "2.IH"(1) [OF ws _ d es] by (auto simp: string_ok_def members_ok_def split: if_splits)
  next
    case False
    with "2.prems" ws show ?thesis
      by (auto simp: string_ok_def members_ok_def split: if_splits dest!: parse_str_valid expect_result)
  qed
next
  case (6 n d s)
  then show ?case by (fastforce split: if_splits list.splits option.splits)
qed simp_all

end
