(* ===== verification/Mock_Completion.thy ===== *)
theory Mock_Completion
  imports Completion Nlp_Properties Llm_Mock Valid_Text
begin

text \<open>
  The pipeline with its own rule-based extractor and classifier: whatever text the database
  accepts, the extractor's entities are rows the database accepts, so the hypotheses under
  which \<open>Completion\<close> takes a document all the way hold.
\<close>

section \<open>What the extractor returns can be stored\<close>

definition cut_at :: "string \<Rightarrow> nat \<Rightarrow> bool" where
  "cut_at s a \<longleftrightarrow> rune_cut (take a s) (drop a s)"

lemma text_ok_sub:
  assumes "text_ok s" and "a \<le> b" and "b \<le> length s" and "cut_at s a" and "cut_at s b"
  shows "text_ok (sub s a b)"
proof -
  have b: "take b s = take a s @ sub s a b" using assms(2) by (metis le_add_diff_inverse sub_def take_add)
  have "rune_cut (take a s) (sub s a b)"
    using assms(2,4) by (auto simp: cut_at_def rune_cut_def sub_def hd_take)
  then have "runes (take b s) = runes (take a s) @ runes (sub s a b)" unfolding b by (rule rune_cut_runes)
  moreover have "runes s = runes (take b s) @ runes (drop b s)"
    using assms(5) rune_cut_runes [of "take b s" "drop b s"] by (simp add: cut_at_def)
  ultimately have "runes s = runes (take a s) @ runes (sub s a b) @ runes (drop b s)" by simp
  from text_ok_runes [OF assms(1) this] show ?thesis by simp
qed

text \<open>Each sentence is a segment cut at ASCII characters; there are at most as many as characters.\<close>

lemma number_segments_cut:
  "tiles s lo segs \<Longrightarrow> cut_at s lo \<Longrightarrow> x \<in> set (number_segments s idx segs) \<Longrightarrow>
   \<exists>a b. a \<le> b \<and> b \<le> length s \<and> cut_at s a \<and> cut_at s b \<and> sen_text x = sub s a b \<and> docPrefix x = take a s"
proof (induction s idx segs arbitrary: lo rule: number_segments.induct)
  case (2 s idx a b segs)
  then have ab: "a \<le> b" "b \<le> length s" "cut_at s a" "tiles s b segs" by (auto simp: cut_at_def)
  have b: "cut_at s b" using ab(4) by (cases segs) (auto simp: cut_at_def rune_cut_def)
  show ?case
  proof (cases "b \<le> a \<or> TrimSpace (take (b - a) (drop a s)) = []")
    case True
    with 2(1) [OF True ab(4) b] 2(5) show ?thesis by simp
  next
    case False
    with 2(5) consider "sen_text x = sub s a b" "docPrefix x = take a s" | "x \<in> set (number_segments s (idx + 1) segs)"
      by (auto simp: sub_def)
    then show ?thesis using 2(2) [OF False ab(4) b] ab b by cases blast+
  qed
qed simp

lemma number_segments_index:
  "tiles s lo segs \<Longrightarrow> lo \<le> length s \<Longrightarrow> x \<in> set (number_segments s idx segs) \<Longrightarrow>
   idx \<le> sen_index x \<and> sen_index x < idx + int (length s - lo)"
proof (induction s idx segs arbitrary: lo rule: number_segments.induct)
  case (2 s idx a b segs)
  then have ab: "lo = a" "a \<le> b" "b \<le> length s" "tiles s b segs" by auto
  show ?case
  proof (cases "b \<le> a \<or> TrimSpace (take (b - a) (drop a s)) = []")
    case True
    with 2(1) [OF True ab(4,3)] 2(5) ab show ?thesis by simp
  next
    case False
    with 2(2) [OF False ab(4,3)] 2(5) ab show ?thesis by auto
  qed
qed simp

lemma splitSentences_cut:
  assumes "x \<in> set (splitSentences s)"
  shows "\<exists>a b. a \<le> b \<and> b \<le> length s \<and> cut_at s a \<and> cut_at s b \<and> sen_text x = sub s a b \<and> docPrefix x = take a s"
    and "0 \<le> sen_index x" and "sen_index x < int (length s)"
proof -
  show "\<exists>a b. a \<le> b \<and> b \<le> length s \<and> cut_at s a \<and> cut_at s b \<and> sen_text x = sub s a b \<and> docPrefix x = take a s"
    using number_segments_cut [OF sentence_tiles, of s] assms by (simp add: splitSentences_def cut_at_def rune_cut_def)
  show "0 \<le> sen_index x" "sen_index x < int (length s)"
    using number_segments_index [OF sentence_tiles, of s x 0] assms by (simp_all add: splitSentences_def)
qed

text \<open>Disjoint non-empty spans are at most as many as characters.\<close>

lemma spans_from_count: "spans_from i n ps \<Longrightarrow> i \<le> n \<Longrightarrow> length ps \<le> n - i"
  by (induction i n ps rule: spans_from.induct) auto

lemma Extract_count: "length (Extract_entities NewMockExtractor s) \<le> length s"
proof -
  obtain ps where "list_all2 (located s) (Extract_entities NewMockExtractor s) ps" "spans_from 0 (length s) ps"
    using scanned_located Extract_is_scan by metis
  then show ?thesis using spans_from_count [of 0 "length s" ps] by (simp add: list_all2_lengthD)
qed

lemma Extract_storable:
  assumes "text_ok s" and "int4_ok (int (length s) + 1)" and "e \<in> set (Extract_entities NewMockExtractor s)"
  shows "storable e"
proof -
  from assms(3) obtain x where x: "x \<in> set (splitSentences s)" "e \<in> set (extractSentence NewMockExtractor x)"
    by (auto simp: Extract_is_scan)
  from splitSentences_cut(1) [OF x(1)] obtain a b where
    ab: "a \<le> b" "b \<le> length s" "cut_at s a" "cut_at s b" "sen_text x = sub s a b" "docPrefix x = take a s" by blast
  have fields: "ent_Context e = TrimSpace (sub s a b)" "Page (ent_Position e) = pageForOffset (take a s)"
    "Sentence (ent_Position e) = sen_index x"
    using x(2) ab(5,6) by (auto simp: extractSentence_def)
  have ctx: "text_ok (ent_Context e)" unfolding fields(1) using text_ok_sub [OF assms(1) ab(1-4)] by (rule text_ok_TrimSpace)
  obtain ps where "list_all2 (located s) (Extract_entities NewMockExtractor s) ps"
    using scanned_located Extract_is_scan by metis
  with assms(3) obtain pq where loc: "located s e pq" by (metis list_all2_conv_all_nth in_set_conv_nth)
  then obtain l m where lm: "ent_Context e = l @ ent_Text e @ m" and asc: "list_all is_ascii (ent_Text e)"
    and off: "CharOffset (ent_Position e) = int (RuneCountInString (take (fst pq) s))" by (auto simp: located_def)
  have "CHR 0x00 \<notin> set (ent_Text e)" using ctx by (auto simp: lm text_ok_def)
  with asc have "text_ok (ent_Text e)"
    by (intro text_ok_ascii) (auto simp: list_all_iff is_ascii_def byte_of_zero intro!: gr0I)
  moreover have "0 \<le> CharOffset (ent_Position e)" "CharOffset (ent_Position e) \<le> int (length s)"
    using RuneCountInString_le [of "take (fst pq) s"] by (simp_all add: off)
  moreover have "1 \<le> Page (ent_Position e)" "Page (ent_Position e) \<le> int (length s) + 1"
    using length_filter_le [of "\<lambda>c. c = CHR 0x0C" "take a s"] by (simp_all add: fields pageForOffset_def Count1_def)
  moreover note splitSentences_cut(2,3) [OF x(1)]
  ultimately show ?thesis using ctx assms(2) by (simp add: storable_def fields int4_ok_def)
qed

text \<open>No two entities have the same key: their offsets differ.\<close>

lemma Extract_keys:
  "card (entity_key i v ` set (Extract_entities NewMockExtractor s)) = length (Extract_entities NewMockExtractor s)"
proof -
  let ?es = "Extract_entities NewMockExtractor s"
  have d: "distinct (map (CharOffset \<circ> ent_Position) ?es)" using Extract_order_parts by blast
  then have "inj_on (entity_key i v) (set ?es)"
    by (auto simp: inj_on_def entity_key_def distinct_map)
  then have "card (entity_key i v ` set ?es) = card (set ?es)" by (rule card_image)
  also have "\<dots> = length ?es" using d by (simp add: distinct_card distinct_map)
  finally show ?thesis .
qed

section \<open>The rule-based classifier always answers\<close>

lemma mock_text_ok:
  "text_ok CategoryDate" "text_ok CategoryAddress" "text_ok CategoryCompany" "text_ok CategoryPerson"
  "text_ok CategoryUnknown" "text_ok ''matches a date/temporal pattern''"
  "text_ok ''leading street number indicates a postal address''" "text_ok ''contains a corporate suffix''"
  "text_ok ''capitalized personal-name pattern''" "text_ok ''no confident signal from the token text''"
  by code_simp+

lemma mock_answers: "answers (MockClassifier_Classify m False)"
  using mock_text_ok by (simp add: answers_def MockClassifier_Classify_def classify_def Let_def)

definition labelled :: "Token \<Rightarrow> bool" where
  "labelled t \<longleftrightarrow> tok_Status t = TokenClassified \<and>
     tok_Classification t = Some (fst (classify t)) \<and> tok_Reasoning t = Some (snd (classify t)) \<and>
     tok_Confidence t = Some (float32_of (confidence (tok_Text t) (fst (classify t))))"

lemma answered_labelled: "answered (MockClassifier_Classify m False) t \<Longrightarrow> labelled t"
proof -
  assume "answered (MockClassifier_Classify m False) t"
  then obtain u c \<tau> where u: "MockClassifier_Classify m False u = Inr c" "t = classify_row c \<tau> u"
    unfolding answered_def by blast
  then have same: "tok_Text t = tok_Text u" "classify t = classify u" by (simp_all add: classify_row_def classify_def)
  have "cls_Category c = fst (classify u)" "cls_Reasoning c = snd (classify u)"
    "cls_Confidence c = confidence (tok_Text u) (fst (classify u))"
    using u(1) by (auto simp: MockClassifier_Classify_def split: prod.splits)
  with u(2) same show ?thesis by (simp add: labelled_def classify_row_def)
qed

section \<open>A document of its own accord\<close>

lemma room_mono: "room i n s \<Longrightarrow> m \<le> n \<Longrightarrow> room i m s"
  by (auto simp: room_def int4_ok_def int8_ok_def)

text \<open>Both halves, and what the submission before them returns.\<close>

lemma mock_document_runs:
  assumes "db_inv s" and "faults s = []" and "outbox (tbl s) = []" and "starts_run i mode s"
    and "text_ok i" and "text_ok x" and "room i (length x + 1) s"
  shows "\<exists>res a rs s'. Submit i x mode s = (Inr res, a) \<and> Accepted res \<and>
     doc_Status (sub_Document res) = DocPending \<and> doc_RunVersion (sub_Document res) = next_version i s \<and>
     doc_ID (sub_Document res) = i \<and>
     work_off MockExtractor_Extract (MockClassifier_Classify m False) a = (rs, s') \<and> set rs \<subseteq> {None} \<and>
     db_inv s' \<and> faults s' = [] \<and>
     completed_run (MockClassifier_Classify m False) i (next_version i s) (Extract_entities NewMockExtractor x) s'"
proof (rule document_runs [OF assms(1-6)])
  let ?es = "Extract_entities NewMockExtractor x"
  show "room i (length ?es + 1) s" using assms(7) by (rule room_mono) (simp add: Extract_count)
  have "int4_ok (int (length x) + 1)" using assms(7) by (simp add: room_def int4_ok_def)
  then show "list_all storable ?es" using Extract_storable [OF assms(6)] by (simp add: list_all_iff)
  show "\<forall>d. doc_ID d = i \<and> doc_Text d = x \<longrightarrow> MockExtractor_Extract d = Inr ?es"
    by (simp add: MockExtractor_Extract_def)
qed (rule mock_answers)

end
