(* ===== verification/End_To_End.thy ===== *)
theory End_To_End
  imports Api Mock_Completion
begin

text \<open>
  The two ends of the pipeline. What a request can carry is what JSON can carry: valid UTF-8, of
  which the database refuses only the zero byte. And what the status and token endpoints
  answer about a document is what the tables hold.
\<close>

section \<open>Decoded requests\<close>

definition request_ok :: "processRequest \<Rightarrow> bool" where
  "request_ok r \<longleftrightarrow> ValidString (pr_DocumentID r) \<and> ValidString (pr_Text r) \<and> ValidString (pr_Mode r)"

lemma store_string_ok:
  "store_string v old = (x, ok) \<Longrightarrow> string_ok v \<Longrightarrow> ValidString old \<Longrightarrow> ValidString x"
  by (auto simp: store_string_def string_ok_def split: json.splits)

lemma field_processRequest_ok:
  "string_ok v \<Longrightarrow> request_ok r \<Longrightarrow> request_ok (fst (field_processRequest k v r))"
  by (auto simp: field_processRequest_def request_ok_def split: prod.split dest: store_string_ok)

lemma store_members_ok:
  assumes "list_all (\<lambda>(k, w). string_ok w) ms" and "request_ok z"
  shows "request_ok (fst (store_members field_processRequest ms z))"
proof -
  have "request_ok (fst (fold (\<lambda>(k, v) (a, ok). case field_processRequest k v a of (a', ok') \<Rightarrow> (a', ok \<and> ok')) ms (z, b)))"
    for b using assms
  proof (induction ms arbitrary: z b)
    case (Cons kv ms)
    obtain k v where kv: "kv = (k, v)" by force
    obtain z' b' where z': "field_processRequest k v z = (z', b')" by force
    have "request_ok z'" using field_processRequest_ok [of v z k] Cons.prems kv z' by simp
    with Cons.IH [of z'] Cons.prems show ?case by (simp add: kv z')
  qed simp
  then show ?thesis by (simp add: store_members_def)
qed

lemma decode_body_ok: "decode_body b = Inr req \<Longrightarrow> request_ok req"
proof -
  assume dec: "decode_body b = Inr req"
  let ?z = "\<lparr>pr_DocumentID = [], pr_Text = [], pr_Mode = []\<rparr>"
  from dec obtain v rest where v: "json_first b = Some (v, rest)" "unmarshal_struct field_processRequest ?z v = Inr req"
    by (auto simp: decode_body_def split: option.splits)
  have z: "request_ok ?z" by (simp add: request_ok_def ValidString_def)
  from parse_value_ok(1) v(1) have "members_ok v" unfolding json_first_def by blast
  with v(2) z store_members_ok [of _ ?z] show ?thesis
    by (auto simp: unmarshal_struct_def members_ok_def split: json.splits prod.splits if_splits) (metis fst_conv)
qed

lemma decoded_text_ok:
  assumes "decode_body b = Inr req"
  shows "text_ok (pr_DocumentID req) \<longleftrightarrow> CHR 0x00 \<notin> set (pr_DocumentID req)"
    and "text_ok (pr_Text req) \<longleftrightarrow> CHR 0x00 \<notin> set (pr_Text req)"
  using decode_body_ok [OF assms] by (simp_all add: request_ok_def text_ok_def)

section \<open>What the endpoints answer\<close>

lemma pop_fault_none: "faults s = [] \<Longrightarrow> pop_fault s = s"
  by (simp add: pop_fault_def)

lemma GetDocument_row:
  assumes "db_inv s" and "faults s = []" and "documents (tbl s) i = Some d"
  shows "GetDocument i s = (Inr d, s)"
  using assms db_inv_doc [OF assms(1,3)]
  by (simp add: GetDocument_def stmt_def select_doc_def CollectExactlyOneRow_def next_fault_def pop_fault_def doc_ok_def)

text \<open>A client that escapes every byte of the id can ask for any document but one.\<close>

definition PathEscape :: "string \<Rightarrow> string" where
  "PathEscape x = concat (map (\<lambda>c. [CHR ''%'', hex_char (byte_of c div 16), hex_char (byte_of c mod 16)]) x)"

lemma PathUnescape_escape: "PathUnescape (PathEscape x) = Some x"
proof (induction x)
  case (Cons c x)
  have "byte_of c div 16 < 16" "byte_of c mod 16 < 16" using byte_of_less [of c] by (simp_all add: less_mult_imp_div_less)
  with Cons show ?case by (simp add: PathEscape_def hex_val_char)
qed (simp add: PathEscape_def)

lemma pathUnescape_plain: "CHR ''%'' \<notin> set x \<Longrightarrow> pathUnescape x = x"
proof -
  assume "CHR ''%'' \<notin> set x"
  then have "PathUnescape x = Some x" by (induction x) auto
  then show ?thesis by (simp add: pathUnescape_def)
qed

definition status_req :: "string \<Rightarrow> http_req" where
  "status_req i = \<lparr>rq_method = ''GET'', rq_segments = [''documents'', PathEscape i, ''status''], rq_query = [], rq_body = []\<rparr>"

definition tokens_req :: "string \<Rightarrow> http_req" where
  "tokens_req i = \<lparr>rq_method = ''GET'', rq_segments = [''documents'', PathEscape i, ''tokens''], rq_query = [], rq_body = []\<rparr>"

lemma escaped_clean:
  assumes "i \<noteq> []"
  shows "\<not> unclean (status_req i)" and "\<not> unclean (tokens_req i)"
proof -
  from assms have "PathEscape i \<notin> {[], ''.'', ''..''}" by (cases i) (auto simp: PathEscape_def)
  then show "\<not> unclean (status_req i)" "\<not> unclean (tokens_req i)"
    by (simp_all add: unclean_def status_req_def tokens_req_def cleanPath_clean)
qed

lemma escaped_path:
  "rq_path (status_req i) = [''documents'', i, ''status'']" "rq_path (tokens_req i) = [''documents'', i, ''tokens'']"
  by (simp_all add: rq_path_def status_req_def tokens_req_def pathUnescape_plain)
    (simp_all add: pathUnescape_def PathUnescape_escape)

lemma serve_status:
  assumes "db_inv s" and "faults s = []" and "documents (tbl s) i = Some d" and "i \<noteq> []" and "i \<noteq> ''/''"
  shows "serve err_text sp bp (status_req i) s = (\<lparr>rsp_status = 200, rsp_body = StatusBody (newStatusResponse d)\<rparr>, s)"
  using GetDocument_row [OF assms(1-3)] escaped_clean(1) [OF assms(4)] assms(5)
  by (simp add: serve_def route_request_def escaped_path path_route_def route_method_ok_def handleStatus_def
      Status_def writeJSON_def) (simp add: status_req_def)

lemma serve_tokens:
  assumes "db_inv s" and "faults s = []" and "documents (tbl s) i = Some d" and "i \<noteq> []" and "i \<noteq> ''/''"
  shows "serve err_text sp bp (tokens_req i) s =
    (\<lparr>rsp_status = 200, rsp_body = TokensBody \<lparr>tr_DocumentID = i, tr_Count = int (length (tokens_of i (tokens (tbl s)))),
        tr_Tokens = sort_key tok_ID (tokens_of i (tokens (tbl s)))\<rparr>\<rparr>, s)"
proof -
  let ?f = "tokenFilterFromQuery (tokens_req i)"
  have f: "?f = \<lparr>flt_Classification = None, flt_Status = None, flt_Page = None, flt_Limit = 0, flt_Offset = 0\<rparr>"
    by (simp add: tokenFilterFromQuery_def tokens_req_def query_Get_def ParseQuery_def query_pair_def queryInt_def
        List.map_filter_def Let_def)
  have "matching_tokens i ?f (tbl s) = run_tokens i (doc_RunVersion d) (tokens (tbl s))"
    using assms(3) by (simp add: matching_tokens_def f filter_ok_def run_tokens_def)
  then have "matching_tokens i ?f (tbl s) = tokens_of i (tokens (tbl s))"
    using run_tokens_current [OF assms(1,3)] by simp
  moreover have "text_ok i" using db_inv_doc [OF assms(1,3)] by (simp add: doc_ok_def)
  ultimately have "ListTokens i ?f s = (Inr (sort_key tok_ID (tokens_of i (tokens (tbl s)))), s)"
    using assms(2) by (simp add: ListTokens_def stmt_def f paginate_def next_fault_def pop_fault_def)
  then have "handleTokens i (tokens_req i) s =
    (\<lparr>rsp_status = 200, rsp_body = TokensBody \<lparr>tr_DocumentID = i, tr_Count = int (length (tokens_of i (tokens (tbl s)))),
        tr_Tokens = sort_key tok_ID (tokens_of i (tokens (tbl s)))\<rparr>\<rparr>, s)"
    using GetDocument_row [OF assms(1-3)] by (simp add: handleTokens_def Tokens_def tx_bind_def writeJSON_def)
  moreover have "path_route (rq_path (tokens_req i)) = Some (RTokens i)" "rq_method (tokens_req i) = ''GET''"
    using assms(5) by (simp_all add: escaped_path path_route_def) (simp add: tokens_req_def)
  ultimately show ?thesis
    using escaped_clean(2) [OF assms(4)] by (simp add: serve_def route_request_def route_method_ok_def)
qed

lemma serve_process:
  assumes "rq_method r = ''POST''" and "rq_path r = [''process'']"
  shows "serve err_text sp bp r s = handleProcess r s"
proof -
  obtain x where x: "rq_segments r = [x]" "pathUnescape x = ''process''" using assms(2) by (auto simp: rq_path_def)
  have "pathUnescape [] = []" "pathUnescape ''.'' = ''.''" "pathUnescape ''..'' = ''..''" by code_simp+
  with x(2) have "x \<notin> {[], ''.'', ''..''}" by auto
  then have "\<not> unclean r" by (simp add: unclean_def x(1) cleanPath_clean)
  with assms show ?thesis by (simp add: serve_def route_request_def path_route_def route_method_ok_def)
qed

lemma completed_status:
  assumes "doc_TotalTokens d = int n" and "doc_ClassifiedCount d = int n" and "int4_ok (int n)"
  shows "st_Progress (newStatusResponse d) =
    \<lparr>pg_Classified = int n, pg_Total = int n, pg_Percent = (if n = 0 then 0 else 100)\<rparr>"
  using assms percent_full [of d] percent_zero [of d] by (simp add: newStatusResponse_def split: prod.splits)

section \<open>Properties\<close>

definition posted_req :: http_req where
  \<open>posted_req = \<lparr>rq_method = ''POST'', rq_segments = [''process''], rq_query = [],
     rq_body = ''{"document_id":"d","text":"Jo Fox"}''\<rparr>\<close>

lemma posted_body: "decode_body (rq_body posted_req) = Inr \<lparr>pr_DocumentID = ''d'', pr_Text = ''Jo Fox'', pr_Mode = []\<rparr>"
  unfolding posted_req_def by code_simp

lemma posted_extracted: "Extract_entities NewMockExtractor ''Jo Fox'' = [sample_entity]"
  using sample_extracted by (simp add: MockExtractor_Extract_def sample_doc_def)

text \<open>
  C32. What the database can object to. The strings of a request are valid UTF-8 whatever bytes
  the body had; so a submission that starts a run, in a database in order and without faults,
  is accepted exactly when neither its id nor its text holds a zero byte, which JSON writes
  as \<^verbatim>\<open>\u0000\<close>. Such a request is the client's mistake, but it is answered 500, not 400; the
  tables stay as they were.
\<close>
theorem zero_byte_is_500:
  assumes "db_inv s" and "faults s = []" and "decode_body (rq_body r) = Inr req"
    and "TrimSpace (pr_DocumentID req) \<noteq> []" and "TrimSpace (pr_Text req) \<noteq> []"
    and "starts_run (pr_DocumentID req) (rerunMode req) s" and "int8_ok (outbox_id_seq s)"
  shows "request_ok req \<and>
    (CHR 0x00 \<notin> set (pr_DocumentID req) \<union> set (pr_Text req) \<longrightarrow> rsp_status (fst (handleProcess r s)) = 202) \<and>
    (CHR 0x00 \<in> set (pr_DocumentID req) \<union> set (pr_Text req) \<longrightarrow>
       rsp_status (fst (handleProcess r s)) = 500 \<and> tbl (snd (handleProcess r s)) = tbl s)"
proof (intro conjI impI)
  note ok = decoded_text_ok [OF assms(3)]
  let ?i = "pr_DocumentID req" and ?x = "pr_Text req"
  show "request_ok req" using assms(3) by (rule decode_body_ok)
  {
    assume "CHR 0x00 \<notin> set ?i \<union> set ?x"
    then obtain res a where "Submit ?i ?x (rerunMode req) s = (Inr res, a)"
      using Submit_starts [OF assms(1,2) _ _ assms(7,6), of ?x] ok by auto
    then show "rsp_status (fst (handleProcess r s)) = 202"
      using assms(3-5) by (simp add: handleProcess_def writeJSON_def)
  next
    assume "CHR 0x00 \<in> set ?i \<union> set ?x"
    then obtain e a where "Submit ?i ?x (rerunMode req) s = (Inl e, a)" "tbl a = tbl s"
      using Submit_refuses [OF assms(1,2,6), of ?x] ok by blast
    then show "rsp_status (fst (handleProcess r s)) = 500" "tbl (snd (handleProcess r s)) = tbl s"
      using assms(3-5) by (simp_all add: handleProcess_def writeError_def writeJSON_def)
  }
qed

text \<open>Comparing as integers lets the evaluation of literals work on binary numbers.\<close>

lemma pair_surrogate_int [code]:
  "pair_surrogate u s =
     (if 55296 \<le> int u \<and> int u \<le> 57343 then
        (case (if take 2 s = [CHR 0x5C, CHR ''u''] then hex4 (drop 2 s) else None) of
           Some v \<Rightarrow> if int u \<le> 56319 \<and> 56320 \<le> int v \<and> int v \<le> 57343
                      then (65536 + (u - 55296) * 1024 + (v - 56320), 6) else (65533, 0)
         | None \<Rightarrow> (65533, 0))
      else (u, 0))"
  unfolding pair_surrogate_def by (simp split: option.split)

definition zero_req :: http_req where
  \<open>zero_req = \<lparr>rq_method = ''POST'', rq_segments = [''process''], rq_query = [],
     rq_body = ''{"document_id":"d","text":"x'' @ [CHR 0x5C] @ ''u0000"}''\<rparr>\<close>

lemma zero_body: "decode_body (rq_body zero_req) = Inr \<lparr>pr_DocumentID = ''d'', pr_Text = [CHR ''x'', CHR 0x00], pr_Mode = []\<rparr>"
  unfolding zero_req_def by code_simp

theorem zero_byte_is_500_witness:
  "rsp_status (fst (handleProcess zero_req (empty_db 5 []))) = 500"
proof -
  let ?req = "\<lparr>pr_DocumentID = ''d'', pr_Text = [CHR ''x'', CHR 0x00], pr_Mode = []\<rparr>"
  have "TrimSpace (pr_DocumentID ?req) \<noteq> []" "TrimSpace (pr_Text ?req) \<noteq> []" by code_simp+
  moreover have "starts_run (pr_DocumentID ?req) (rerunMode ?req) (empty_db 5 [])" "faults (empty_db 5 []) = []"
    "int8_ok (outbox_id_seq (empty_db 5 []))"
    by (simp_all add: starts_run_def next_version_def empty_db_def int4_ok_def int8_ok_def)
  ultimately show ?thesis using zero_byte_is_500 [OF empty_db_inv _ zero_body] by simp
qed

end
