(* ===== verification/Ollama.thy ===== *)
theory Ollama
  imports Jobs Llm_Mock
begin

text \<open>
  \<^verbatim>\<open>internal/llm/ollama.go\<close>: the classifier backed by a chat model. The HTTP client, the
  network and the model behind it are the record \<open>http_env\<close>, an argument of the definitions:
  whether a request can be built for a URL, what the client returns for the n-th attempt, and
  whether the context is cancelled before the n-th wait is over. Two tables of the Unicode
  standard are arguments or cut down: which runes past ASCII are printable (for \<^verbatim>\<open>%q\<close>) is a
  field of the environment; \<open>ToUpper\<close> keeps to what a comparison with ASCII words can see.
\<close>

section \<open>Formatting\<close>

definition hex2 :: "nat \<Rightarrow> string" where
  "hex2 n = [hex_char (n div 16 mod 16), hex_char (n mod 16)]"

definition hex4_of :: "nat \<Rightarrow> string" where
  "hex4_of n = hex2 (n div 256 mod 256) @ hex2 (n mod 256)"

text \<open>The code point of a well-formed rune.\<close>

definition rune_value :: "string \<Rightarrow> nat" where
  "rune_value r =
     (case map byte_of r of
        [a] \<Rightarrow> a
      | [a, b] \<Rightarrow> (a - 192) * 64 + (b - 128)
      | [a, b, c] \<Rightarrow> ((a - 224) * 64 + (b - 128)) * 64 + (c - 128)
      | [a, b, c, d] \<Rightarrow> (((a - 240) * 64 + (b - 128)) * 64 + (c - 128)) * 64 + (d - 128)
      | _ \<Rightarrow> 65533)"

text \<open>\<^verbatim>\<open>strconv.Quote\<close>, the verb \<^verbatim>\<open>%q\<close>, rune by rune.\<close>

definition quote_go_ascii :: "char \<Rightarrow> string" where
  "quote_go_ascii c =
     (if c = CHR 0x22 \<or> c = CHR 0x5C then [CHR 0x5C, c]
      else if in_range 32 126 c then [c]
      else if c = CHR 0x07 then CHR 0x5C # ''a''
      else if c = CHR 0x08 then CHR 0x5C # ''b''
      else if c = CHR 0x0C then CHR 0x5C # ''f''
      else if c = CHR 0x0A then CHR 0x5C # ''n''
      else if c = CHR 0x0D then CHR 0x5C # ''r''
      else if c = CHR 0x09 then CHR 0x5C # ''t''
      else if c = CHR 0x0B then CHR 0x5C # ''v''
      else CHR 0x5C # ''x'' @ hex2 (byte_of c))"

definition quote_go_rune :: "(string \<Rightarrow> bool) \<Rightarrow> string \<Rightarrow> string" where
  "quote_go_rune isPrint r =
     (if utf8_len r = None then CHR 0x5C # ''x'' @ concat (map (hex2 \<circ> byte_of) r)
      else case r of
             [c] \<Rightarrow> quote_go_ascii c
           | _ \<Rightarrow> if isPrint r then r
                  else if rune_value r < 65536 then CHR 0x5C # ''u'' @ hex4_of (rune_value r)
                  else CHR 0x5C # ''U'' @ hex4_of (rune_value r div 65536) @ hex4_of (rune_value r mod 65536))"

definition Quote :: "(string \<Rightarrow> bool) \<Rightarrow> string \<Rightarrow> string" where
  "Quote isPrint s = CHR 0x22 # concat (map (quote_go_rune isPrint) (runes s)) @ [CHR 0x22]"

section \<open>Numbers in JSON\<close>

text \<open>
  \<^verbatim>\<open>strconv.ParseFloat(lit, 64)\<close> on the literal of a JSON number: the decimal value, rounded
  once; a result past the largest float64 is a range error.
\<close>

definition decimal_value :: "string \<Rightarrow> rat" where
  "decimal_value lit =
     (let (neg, r0) = (case lit of c # cs \<Rightarrow> if c = CHR ''-'' then (True, cs) else (False, lit)
                               | [] \<Rightarrow> (False, lit));
          (ip, r1) = span_while is_digit r0;
          (fp, r2) = (case r1 of c # cs \<Rightarrow> if c = CHR ''.'' then span_while is_digit cs else ([], r1)
                               | [] \<Rightarrow> ([], r1));
          e = (case r2 of c # cs \<Rightarrow> (case cs of
                              d # ds \<Rightarrow> if d = CHR ''-'' then - int (digits_val ds)
                                        else if d = CHR ''+'' then int (digits_val ds)
                                        else int (digits_val cs)
                            | [] \<Rightarrow> 0)
                        | [] \<Rightarrow> 0);
          m = of_nat (digits_val (ip @ fp)) * 10 powi (e - int (length fp))
      in if neg then - m else m)"

definition ParseFloat :: "string \<Rightarrow> float64 option" where
  "ParseFloat lit =
     (let x = float64_of (decimal_value lit) in if \<bar>x\<bar> < 2 ^ 1024 then Some x else None)"

definition store_float :: "json \<Rightarrow> float64 \<Rightarrow> float64 \<times> bool" where
  "store_float v old =
     (case v of
        JNum lit \<Rightarrow> (case ParseFloat lit of Some x \<Rightarrow> (x, True) | None \<Rightarrow> (old, False))
      | JNull \<Rightarrow> (old, True)
      | _ \<Rightarrow> (old, False))"

section \<open>The client\<close>

record http_request =
  rq_URL :: string
  rq_ContentType :: string
  rq_Authorization :: "string option"
  rq_Body :: string

record http_response =
  rs_StatusCode :: int
  rs_Body :: "go_error + string"

record http_env =
  env_NewRequest :: "string \<Rightarrow> go_error option"
  env_Do :: "nat \<Rightarrow> http_request \<Rightarrow> go_error + http_response"
  env_Cancelled :: "nat \<Rightarrow> bool"
  env_IsPrint :: "string \<Rightarrow> bool"

record OllamaClassifier =
  oc_baseURL :: string
  oc_apiKey :: string
  oc_model :: string
  oc_maxRetries :: int

type_synonym OllamaOption = "OllamaClassifier \<Rightarrow> OllamaClassifier"

definition WithMaxRetries :: "int \<Rightarrow> OllamaOption" where
  "WithMaxRetries n = (\<lambda>oc. oc\<lparr>oc_maxRetries := n\<rparr>)"

definition NewOllamaClassifier :: "string \<Rightarrow> string \<Rightarrow> string \<Rightarrow> OllamaOption list \<Rightarrow> OllamaClassifier" where
  "NewOllamaClassifier baseURL apiKey model opts =
     foldl (\<lambda>oc opt. opt oc)
       \<lparr>oc_baseURL = TrimRight1 baseURL (CHR ''/''), oc_apiKey = apiKey, oc_model = model, oc_maxRetries = 4\<rparr>
       opts"

definition ellipsis :: string where
  "ellipsis = [char_of_nat 226, char_of_nat 128, char_of_nat 166]"

definition truncate_body :: "string \<Rightarrow> string" where
  "truncate_body b = (if 200 < length b then take 200 b @ ellipsis else b)"

text \<open>\<open>do\<close>: the n-th attempt.\<close>

definition do_request :: "OllamaClassifier \<Rightarrow> http_env \<Rightarrow> nat \<Rightarrow> string \<Rightarrow> go_error + (int \<times> string)" where
  "do_request oc env n payload =
     (let url = oc_baseURL oc @ ''/api/chat''
      in case env_NewRequest env url of
           Some e \<Rightarrow> Inl (Wrap ''build request'' e)
         | None \<Rightarrow>
             (let req = \<lparr>rq_URL = url, rq_ContentType = ''application/json'',
                         rq_Authorization = (if oc_apiKey oc \<noteq> [] then Some (''Bearer '' @ oc_apiKey oc) else None),
                         rq_Body = payload\<rparr>
              in case env_Do env n req of
                   Inl e \<Rightarrow> Inl (Wrap ''http do'' e)
                 | Inr resp \<Rightarrow>
                     (case rs_Body resp of
                        Inl e \<Rightarrow> Inl (Wrap ''read body'' e)
                      | Inr body \<Rightarrow> Inr (rs_StatusCode resp, body))))"

text \<open>
  The pause before attempt \<open>n\<close>, in nanoseconds: a float64 power converted to a 64-bit
  integer, then multiplied with wrap-around. The conversion is defined by the language up to
  \<open>n = 63\<close>.
\<close>

definition wrap64 :: "int \<Rightarrow> int" where
  "wrap64 n = (n + 2 ^ 63) mod 2 ^ 64 - 2 ^ 63"

definition backoff :: "nat \<Rightarrow> int" where
  "backoff n = wrap64 (2 ^ (n - 1) * 250000000)"

text \<open>
  What one answer means to the loop of \<open>doWithRetry\<close>.
\<close>

datatype verdict = Answer string | Retry go_error | GiveUp go_error

definition judge :: "go_error + (int \<times> string) \<Rightarrow> verdict" where
  "judge r =
     (case r of
        Inl e \<Rightarrow> Retry e
      | Inr (status, body) \<Rightarrow>
          if status = 200 then Answer body
          else if status = 429 \<or> 500 \<le> status then
            Retry (ErrCompute (''ollama transient status '' @ FormatInt status @ '': '' @ truncate_body body))
          else GiveUp (ErrCompute (''ollama status '' @ FormatInt status @ '': '' @ truncate_body body)))"

text \<open>
  The loop from attempt \<open>n\<close> on, with \<open>k\<close> attempts left and the last error so far. It returns
  the result and the pauses it made.
\<close>

fun retry_loop :: "OllamaClassifier \<Rightarrow> http_env \<Rightarrow> string \<Rightarrow> nat \<Rightarrow> nat \<Rightarrow> go_error option \<Rightarrow>
    (go_error + string) \<times> int list" where
  "retry_loop oc env payload n 0 lastErr =
     (Inl (case lastErr of
             Some e \<Rightarrow> Wrap ''ollama exhausted retries'' e
           | None \<Rightarrow> ErrCompute ''ollama exhausted retries: %!w(<nil>)''), [])"
| "retry_loop oc env payload n (Suc k) lastErr =
     (if 0 < n \<and> env_Cancelled env n then (Inl ErrCanceled, [])
      else
        let pauses = (if 0 < n then [backoff n] else [])
        in case judge (do_request oc env n payload) of
             Answer body \<Rightarrow> (Inr body, pauses)
           | GiveUp e \<Rightarrow> (Inl e, pauses)
           | Retry e \<Rightarrow> (case retry_loop oc env payload (Suc n) k (Some e) of
                          (r, ps) \<Rightarrow> (r, pauses @ ps)))"

definition doWithRetry :: "OllamaClassifier \<Rightarrow> http_env \<Rightarrow> string \<Rightarrow> (go_error + string) \<times> int list" where
  "doWithRetry oc env payload = retry_loop oc env payload 0 (nat (oc_maxRetries oc + 1)) None"

section \<open>Requests and answers\<close>

record chatMessage =
  cm_Role :: string
  cm_Content :: string

record chatRequest =
  cr_Model :: string
  cr_Messages :: "chatMessage list"
  cr_Stream :: bool
  cr_Format :: string
  cr_Options :: "(string \<times> int) list"

record classificationJSON =
  pj_Category :: string
  pj_Confidence :: float64
  pj_Reasoning :: string

text \<open>The schema as the encoder writes it, without white space.\<close>

definition responseSchema :: string where
  \<open>responseSchema =
     ''{"type":"object","properties":{"category":{"type":"string","enum":'' @
     ''["COMPANY","PERSON","ADDRESS","DATE","UNKNOWN"]},"confidence":{"type":"number"},'' @
     ''"reasoning":{"type":"string"}},"required":["category","confidence","reasoning"]}''\<close>

definition systemPrompt :: string where
  "systemPrompt =
     ''You are an entity classifier in a document-processing pipeline.'' @ [CHR 0x0A] @
     ''Classify the given token into exactly one category:'' @ [CHR 0x0A] @
     ''- COMPANY: a business, organization, or institution'' @ [CHR 0x0A] @
     ''- PERSON: an individual'' @ [CHR 0x27] @ ''s name'' @ [CHR 0x0A] @
     ''- ADDRESS: a street address or physical location'' @ [CHR 0x0A] @
     ''- DATE: a date or time expression'' @ [CHR 0x0A] @
     ''- UNKNOWN: none of the above, or insufficient signal'' @ [CHR 0x0A] @
     ''Respond ONLY with the requested JSON. Confidence is a number between 0 and 1.''"

fun comma_sep :: "string list \<Rightarrow> string" where
  "comma_sep [] = []"
| "comma_sep [x] = x"
| "comma_sep (x # xs) = x @ CHR 0x2C # comma_sep xs"

definition json_member :: "string \<Rightarrow> string \<Rightarrow> string" where
  "json_member k v = json_string k @ CHR 0x3A # v"

definition json_object :: "(string \<times> string) list \<Rightarrow> string" where
  "json_object ms = CHR 0x7B # comma_sep (map (\<lambda>(k, v). json_member k v) ms) @ [CHR 0x7D]"

definition json_array :: "string list \<Rightarrow> string" where
  "json_array xs = CHR 0x5B # comma_sep xs @ [CHR 0x5D]"

definition marshal_chatMessage :: "chatMessage \<Rightarrow> string" where
  "marshal_chatMessage c =
     json_object [(''role'', json_string (cm_Role c)), (''content'', json_string (cm_Content c))]"

text \<open>An empty format or empty options are left out; a map's keys are written in order.\<close>

definition marshal_chatRequest :: "chatRequest \<Rightarrow> string" where
  "marshal_chatRequest r =
     json_object
       ([(''model'', json_string (cr_Model r)),
         (''messages'', json_array (map marshal_chatMessage (cr_Messages r))),
         (''stream'', if cr_Stream r then ''true'' else ''false'')] @
        (if cr_Format r = [] then [] else [(''format'', cr_Format r)]) @
        (if cr_Options r = [] then []
         else [(''options'', json_object (map (\<lambda>(k, v). (k, FormatInt v)) (cr_Options r)))]))"

definition user_prompt :: "(string \<Rightarrow> bool) \<Rightarrow> Token \<Rightarrow> string" where
  "user_prompt isPrint tok =
     ''Token: '' @ Quote isPrint (tok_Text tok) @ [CHR 0x0A] @
     ''Context (the sentence it appears in): '' @
     Quote isPrint (if tok_Context tok = [] then ''(none)'' else tok_Context tok) @ [CHR 0x0A] @
     ''Classify this token.''"

definition chat_request :: "OllamaClassifier \<Rightarrow> (string \<Rightarrow> bool) \<Rightarrow> Token \<Rightarrow> chatRequest" where
  "chat_request oc isPrint tok =
     \<lparr>cr_Model = oc_model oc,
      cr_Messages = [\<lparr>cm_Role = ''system'', cm_Content = systemPrompt\<rparr>,
                     \<lparr>cm_Role = ''user'', cm_Content = user_prompt isPrint tok\<rparr>],
      cr_Stream = False, cr_Format = responseSchema,
      cr_Options = [(''num_predict'', 200), (''temperature'', 0)]\<rparr>"

definition field_chatMessage :: "string \<Rightarrow> json \<Rightarrow> chatMessage \<Rightarrow> chatMessage \<times> bool" where
  "field_chatMessage k v c =
     (if is_field ''role'' k
        then (case store_string v (cm_Role c) of (x, ok) \<Rightarrow> (c\<lparr>cm_Role := x\<rparr>, ok))
      else if is_field ''content'' k
        then (case store_string v (cm_Content c) of (x, ok) \<Rightarrow> (c\<lparr>cm_Content := x\<rparr>, ok))
      else (c, True))"

text \<open>
  A \<open>chatResponse\<close> is its one field, the message: a nested object is stored into the message
  there is so far.
\<close>

definition field_chatResponse :: "string \<Rightarrow> json \<Rightarrow> chatMessage \<Rightarrow> chatMessage \<times> bool" where
  "field_chatResponse k v c =
     (if is_field ''message'' k
        then (case v of
                JObj ms \<Rightarrow> store_members field_chatMessage ms c
              | JNull \<Rightarrow> (c, True)
              | _ \<Rightarrow> (c, False))
      else (c, True))"

definition field_classificationJSON :: "string \<Rightarrow> json \<Rightarrow> classificationJSON \<Rightarrow> classificationJSON \<times> bool" where
  "field_classificationJSON k v p =
     (if is_field ''category'' k
        then (case store_string v (pj_Category p) of (x, ok) \<Rightarrow> (p\<lparr>pj_Category := x\<rparr>, ok))
      else if is_field ''confidence'' k
        then (case store_float v (pj_Confidence p) of (x, ok) \<Rightarrow> (p\<lparr>pj_Confidence := x\<rparr>, ok))
      else if is_field ''reasoning'' k
        then (case store_string v (pj_Reasoning p) of (x, ok) \<Rightarrow> (p\<lparr>pj_Reasoning := x\<rparr>, ok))
      else (p, True))"

definition unmarshal :: "(string \<Rightarrow> json \<Rightarrow> 'a \<Rightarrow> 'a \<times> bool) \<Rightarrow> 'a \<Rightarrow> string \<Rightarrow> go_error + 'a" where
  "unmarshal field zero s =
     (case json_parse s of None \<Rightarrow> Inl ErrDecode | Some v \<Rightarrow> unmarshal_struct field zero v)"

section \<open>Classification\<close>

definition normalise :: "classificationJSON \<Rightarrow> Classification" where
  "normalise parsed =
     (let category = ToUpper (TrimSpace (pj_Category parsed))
      in \<lparr>cls_Category = (if Category_Valid category then category else CategoryUnknown),
          cls_Confidence = max 0 (min 1 (pj_Confidence parsed)),
          cls_Reasoning = pj_Reasoning parsed\<rparr>)"

definition decode_answer :: "(string \<Rightarrow> bool) \<Rightarrow> string \<Rightarrow> go_error + Classification" where
  "decode_answer isPrint raw =
     (case unmarshal field_chatResponse \<lparr>cm_Role = [], cm_Content = []\<rparr> raw of
        Inl e \<Rightarrow> Inl (Wrap ''decode chat response'' e)
      | Inr msg \<Rightarrow>
          (case unmarshal field_classificationJSON \<lparr>pj_Category = [], pj_Confidence = 0, pj_Reasoning = []\<rparr>
                  (cm_Content msg) of
             Inl e \<Rightarrow> Inl (Wrap (''decode classification JSON '' @ Quote isPrint (cm_Content msg)) e)
           | Inr parsed \<Rightarrow> Inr (normalise parsed)))"

definition Ollama_Classify :: "OllamaClassifier \<Rightarrow> http_env \<Rightarrow> Token \<Rightarrow> go_error + Classification" where
  "Ollama_Classify oc env tok =
     (case fst (doWithRetry oc env (marshal_chatRequest (chat_request oc (env_IsPrint env) tok))) of
        Inl e \<Rightarrow> Inl e
      | Inr raw \<Rightarrow> decode_answer (env_IsPrint env) raw)"

section \<open>The contract\<close>

lemma normalise_ok:
  "Category_Valid (cls_Category (normalise p))"
  "0 \<le> cls_Confidence (normalise p) \<and> cls_Confidence (normalise p) \<le> 1"
  by (simp_all add: normalise_def Let_def Category_Valid_def)

lemma Ollama_Classify_normalised: "Ollama_Classify oc env tok = Inr c \<Longrightarrow> \<exists>p. c = normalise p"
  by (auto simp: Ollama_Classify_def decode_answer_def split: sum.splits)

interpretation ollama: classifier "Ollama_Classify oc env"
  for oc :: OllamaClassifier and env :: http_env
  by unfold_locales (auto dest!: Ollama_Classify_normalised simp: normalise_ok)

section \<open>Retries\<close>

text \<open>
  A reference definition of the outcome: the verdicts of the attempts in turn, each attempt
  after the first preceded by a check of the context.
\<close>

definition verdict_at :: "OllamaClassifier \<Rightarrow> http_env \<Rightarrow> string \<Rightarrow> nat \<Rightarrow> verdict" where
  "verdict_at oc env payload n =
     (if 0 < n \<and> env_Cancelled env n then GiveUp ErrCanceled else judge (do_request oc env n payload))"

definition transient :: "verdict \<Rightarrow> bool" where
  "transient v \<longleftrightarrow> (case v of Retry _ \<Rightarrow> True | _ \<Rightarrow> False)"

lemma transient_iff: "transient v \<longleftrightarrow> (\<exists>e. v = Retry e)"
  by (cases v) (simp_all add: transient_def)

lemma retry_loop_step:
  "fst (retry_loop oc env payload n (Suc k) l) =
   (case verdict_at oc env payload n of
      Answer body \<Rightarrow> Inr body
    | GiveUp e \<Rightarrow> Inl e
    | Retry e \<Rightarrow> fst (retry_loop oc env payload (Suc n) k (Some e)))"
  by (auto simp: verdict_at_def Let_def split: verdict.splits prod.splits)

lemma retry_loop_pauses:
  "0 < n \<Longrightarrow> \<exists>m. snd (retry_loop oc env payload n k l) = map backoff [n..<n + m] \<and> m \<le> k"
proof (induction k arbitrary: n l)
  case 0
  then show ?case by simp
next
  case (Suc k)
  consider "env_Cancelled env n" | (go) e where "\<not> env_Cancelled env n" "judge (do_request oc env n payload) = Retry e"
    | (stop) "\<not> env_Cancelled env n" "\<not> transient (judge (do_request oc env n payload))"
    by (auto simp: transient_iff)
  then show ?case
  proof cases
    case 1
    with Suc.prems show ?thesis by (intro exI [of _ 0]) simp
  next
    case go
    obtain m where "snd (retry_loop oc env payload (Suc n) k (Some e)) = map backoff [Suc n..<Suc n + m]" "m \<le> k"
      using Suc.IH [of "Suc n"] by blast
    moreover have "[n..<n + Suc m] = n # [Suc n..<Suc n + m]" by (simp add: upt_conv_Cons del: upt_Suc)
    ultimately show ?thesis using go Suc.prems
      by (intro exI [of _ "Suc m"]) (simp add: case_prod_beta del: upt_Suc)
  next
    case stop
    then show ?thesis using Suc.prems
      by (intro exI [of _ 1]) (auto simp: transient_iff Let_def split: verdict.splits)
  qed
qed

lemma doWithRetry_pauses:
  "\<exists>m. snd (doWithRetry oc env payload) = map backoff [1..<Suc m] \<and> m \<le> nat (oc_maxRetries oc)"
proof (cases "nat (oc_maxRetries oc + 1)")
  case 0
  then show ?thesis by (intro exI [of _ 0]) (simp add: doWithRetry_def)
next
  case (Suc k)
  then have k: "k = nat (oc_maxRetries oc)" by simp
  show ?thesis
  proof (cases "judge (do_request oc env 0 payload)")
    case (Retry e)
    obtain m where "snd (retry_loop oc env payload 1 k (Some e)) = map backoff [1..<1 + m]" "m \<le> k"
      using retry_loop_pauses [OF zero_less_one] by blast
    with Retry Suc k show ?thesis
      by (intro exI [of _ m]) (simp add: doWithRetry_def case_prod_beta del: upt_Suc)
  qed (use Suc in \<open>auto simp: doWithRetry_def intro!: exI [of _ 0]\<close>)
qed

declare retry_loop.simps(2) [simp del]

lemma transient_shift:
  "\<forall>j < Suc i. transient (verdict_at oc env payload (n + j)) \<Longrightarrow>
   \<forall>j < i. transient (verdict_at oc env payload (Suc n + j))"
  by (metis Suc_mono add_Suc add_Suc_right)

lemma retry_loop_settles:
  assumes "\<forall>j < i. transient (verdict_at oc env payload (n + j))" and "i < k"
    and "\<not> transient (verdict_at oc env payload (n + i))"
  shows "fst (retry_loop oc env payload n k l) =
    (case verdict_at oc env payload (n + i) of Answer body \<Rightarrow> Inr body | GiveUp e \<Rightarrow> Inl e | Retry e \<Rightarrow> Inl e)"
  using assms
proof (induction i arbitrary: n k l)
  case 0
  then obtain k' where "k = Suc k'" by (cases k) auto
  with 0 show ?case
    by (cases "verdict_at oc env payload n") (simp_all add: retry_loop_step transient_def)
next
  case (Suc i)
  then obtain k' where k: "k = Suc k'" by (cases k) auto
  from Suc.prems(1) have "transient (verdict_at oc env payload (n + 0))" by blast
  then obtain e where e: "verdict_at oc env payload n = Retry e" by (auto simp: transient_iff)
  have "\<forall>j < i. transient (verdict_at oc env payload (Suc n + j))" using Suc.prems(1) by (rule transient_shift)
  from Suc.IH [OF this, of k' "Some e"] Suc.prems k e show ?case
    by (simp add: retry_loop_step)
qed

lemma retry_loop_exhausts:
  assumes "\<forall>j < k. transient (verdict_at oc env payload (n + j))" and "0 < k"
  shows "\<exists>e. verdict_at oc env payload (n + k - 1) = Retry e \<and>
     fst (retry_loop oc env payload n k l) = Inl (Wrap ''ollama exhausted retries'' e)"
  using assms
proof (induction k arbitrary: n l)
  case 0
  then show ?case by simp
next
  case (Suc k)
  from Suc.prems(1) have "transient (verdict_at oc env payload (n + 0))" by blast
  then obtain e where e: "verdict_at oc env payload n = Retry e" by (auto simp: transient_iff)
  show ?case
  proof (cases "k = 0")
    case True
    then show ?thesis using e by (simp add: retry_loop_step)
  next
    case False
    have "\<forall>j < k. transient (verdict_at oc env payload (Suc n + j))" using Suc.prems(1) by (rule transient_shift)
    from Suc.IH [OF this, of "Some e"] False e show ?thesis by (simp add: retry_loop_step)
  qed
qed

lemma backoff_exact: "1 \<le> n \<Longrightarrow> n \<le> 36 \<Longrightarrow> backoff n = 250000000 * 2 ^ (n - 1)"
proof -
  assume n: "1 \<le> n" "n \<le> 36"
  then have "(2 :: int) ^ (n - 1) \<le> 2 ^ 35" by (intro power_increasing) auto
  moreover have "(0 :: int) \<le> 2 ^ (n - 1)" by simp
  ultimately show ?thesis by (simp add: backoff_def wrap64_def)
qed

lemma sum_powers: "sum_list (map (\<lambda>i. c * 2 ^ (i - 1)) [1..<Suc m]) = c * (2 ^ m - 1 :: int)"
  by (induction m) (simp_all add: algebra_simps)

section \<open>Properties\<close>

lemma Ollama_Classify_safe_parts:
  assumes "Ollama_Classify oc env tok = Inr c"
  shows "Category_Valid (cls_Category c)"
    and "0 \<le> cls_Confidence c \<and> cls_Confidence c \<le> 1"
    and "0 \<le> float32_of (cls_Confidence c) \<and> float32_of (cls_Confidence c) \<le> 1"
    and "\<exists>raw. fst (doWithRetry oc env (marshal_chatRequest (chat_request oc (env_IsPrint env) tok))) = Inr raw \<and>
           decode_answer (env_IsPrint env) raw = Inr c"
  using ollama.category_valid [OF assms] ollama.confidence_unit [OF assms]
    ollama.stored_confidence [OF assms] assms
  by (auto simp: Ollama_Classify_def split: sum.splits)

text \<open>
  C26. Whatever the model behind the endpoint answers, and whatever the network does, a
  classification that is returned has one of the five categories and a confidence between
  zero and one, so does its value as stored in the REAL column, and the reasoning is passed
  on from the answer; anything else the endpoint sends ends in an error.
\<close>
theorem Ollama_Classify_safe:
  assumes "Ollama_Classify oc env tok = Inr c"
  shows "Category_Valid (cls_Category c) \<and> 0 \<le> cls_Confidence c \<and> cls_Confidence c \<le> 1 \<and>
    0 \<le> float32_of (cls_Confidence c) \<and> float32_of (cls_Confidence c) \<le> 1 \<and>
    (\<exists>raw. fst (doWithRetry oc env (marshal_chatRequest (chat_request oc (env_IsPrint env) tok))) = Inr raw \<and>
       decode_answer (env_IsPrint env) raw = Inr c)"
  using Ollama_Classify_safe_parts [OF assms] by blast

definition sample_oc :: OllamaClassifier where
  "sample_oc = NewOllamaClassifier ''http://localhost:11434/'' [] ''m'' []"

definition sample_answer :: string where
  \<open>sample_answer = ''{"message":{"content":"{}"}}''\<close>

definition sample_env :: http_env where
  "sample_env = \<lparr>env_NewRequest = (\<lambda>_. None),
     env_Do = (\<lambda>n _. if n = 0 then Inr \<lparr>rs_StatusCode = 503, rs_Body = Inr []\<rparr>
                      else Inr \<lparr>rs_StatusCode = 200, rs_Body = Inr sample_answer\<rparr>),
     env_Cancelled = (\<lambda>_. False), env_IsPrint = (\<lambda>_. True)\<rparr>"

lemma sample_oc_retries: "oc_maxRetries sample_oc = 4"
  by (simp add: sample_oc_def NewOllamaClassifier_def)

lemma sample_retry: "fst (doWithRetry sample_oc sample_env payload) = Inr sample_answer"
  by (simp add: doWithRetry_def sample_oc_retries numeral_eq_Suc retry_loop_step verdict_at_def
      sample_env_def do_request_def judge_def)

lemma sample_decoded: "decode_answer (\<lambda>_. True) sample_answer =
    Inr \<lparr>cls_Category = CategoryUnknown, cls_Confidence = 0, cls_Reasoning = []\<rparr>"
  unfolding sample_answer_def CategoryUnknown_def by code_simp

lemma sample_classified: "Ollama_Classify sample_oc sample_env (sample_token ''x'') =
    Inr \<lparr>cls_Category = CategoryUnknown, cls_Confidence = 0, cls_Reasoning = []\<rparr>"
  unfolding Ollama_Classify_def sample_retry using sample_decoded by (simp add: sample_env_def)

theorem Ollama_Classify_safe_witness:
  "Ollama_Classify sample_oc sample_env (sample_token ''x'') =
     Inr \<lparr>cls_Category = CategoryUnknown, cls_Confidence = 0, cls_Reasoning = []\<rparr> \<and>
   Category_Valid CategoryUnknown"
  using Ollama_Classify_safe [OF sample_classified] sample_classified by simp

text \<open>
  C27. The retry loop against its specification: the answer is decided by the first attempt,
  of the first and at most \<open>maxRetries\<close> more, that does not fail transiently (status 200: the
  body; cancellation during a pause, or any other status below 500 except 429: that error);
  when all of them fail transiently the result is the error of the last one, wrapped.
\<close>
theorem doWithRetry_first_settled:
  "fst (doWithRetry oc env payload) =
     (case find (\<lambda>i. \<not> transient (verdict_at oc env payload i)) [0..<nat (oc_maxRetries oc + 1)] of
        Some i \<Rightarrow> (case verdict_at oc env payload i of Answer body \<Rightarrow> Inr body | GiveUp e \<Rightarrow> Inl e | Retry e \<Rightarrow> Inl e)
      | None \<Rightarrow>
          if oc_maxRetries oc < 0 then Inl (ErrCompute ''ollama exhausted retries: %!w(<nil>)'')
          else (case verdict_at oc env payload (nat (oc_maxRetries oc)) of
                  Retry e \<Rightarrow> Inl (Wrap ''ollama exhausted retries'' e)
                | Answer body \<Rightarrow> Inr body | GiveUp e \<Rightarrow> Inl e))"
proof (cases "find (\<lambda>i. \<not> transient (verdict_at oc env payload i)) [0..<nat (oc_maxRetries oc + 1)]")
  case None
  then have all: "\<forall>j < nat (oc_maxRetries oc + 1). transient (verdict_at oc env payload (0 + j))"
    by (auto simp: find_None_iff)
  show ?thesis
  proof (cases "oc_maxRetries oc < 0")
    case True
    with None show ?thesis by (simp add: doWithRetry_def)
  next
    case False
    then have pos: "0 < nat (oc_maxRetries oc + 1)" and n: "nat (oc_maxRetries oc + 1) - 1 = nat (oc_maxRetries oc)"
      by simp_all
    obtain e where "verdict_at oc env payload (nat (oc_maxRetries oc)) = Retry e"
      "fst (doWithRetry oc env payload) = Inl (Wrap ''ollama exhausted retries'' e)"
      using retry_loop_exhausts [OF all pos, of None] unfolding doWithRetry_def add_0 n by blast
    with None False show ?thesis by simp
  qed
next
  case (Some i)
  then have "i < nat (oc_maxRetries oc + 1)" "\<not> transient (verdict_at oc env payload (0 + i))"
    "\<forall>j < i. transient (verdict_at oc env payload (0 + j))"
    by (auto simp: find_Some_iff)
  with retry_loop_settles [of i oc env payload 0 "nat (oc_maxRetries oc + 1)" None] Some
  show ?thesis by (simp add: doWithRetry_def)
qed

lemma doWithRetry_backoff_parts:
  assumes "0 \<le> oc_maxRetries oc" and "oc_maxRetries oc \<le> 36"
  shows "\<exists>m \<le> nat (oc_maxRetries oc). snd (doWithRetry oc env payload) = map (\<lambda>i. 250000000 * 2 ^ i) [0..<m]"
    and "sum_list (snd (doWithRetry oc env payload)) \<le> 250000000 * (2 ^ nat (oc_maxRetries oc) - 1)"
proof -
  obtain m where m: "snd (doWithRetry oc env payload) = map backoff [1..<Suc m]" "m \<le> nat (oc_maxRetries oc)"
    using doWithRetry_pauses by blast
  have b: "map backoff [1..<Suc m] = map (\<lambda>i. 250000000 * 2 ^ (i - 1)) [1..<Suc m]"
    using m(2) assms by (intro map_cong refl backoff_exact) auto
  also have "\<dots> = map (\<lambda>i. 250000000 * 2 ^ i) [0..<m]"
    by (simp add: map_Suc_upt [symmetric] comp_def del: upt_Suc)
  finally show "\<exists>m \<le> nat (oc_maxRetries oc). snd (doWithRetry oc env payload) = map (\<lambda>i. 250000000 * 2 ^ i) [0..<m]"
    using m by auto
  have "sum_list (snd (doWithRetry oc env payload)) = 250000000 * (2 ^ m - 1)"
    unfolding m(1) b by (rule sum_powers)
  also have "\<dots> \<le> 250000000 * (2 ^ nat (oc_maxRetries oc) - 1)"
    using m(2) by (simp add: power_increasing)
  finally show "sum_list (snd (doWithRetry oc env payload)) \<le> 250000000 * (2 ^ nat (oc_maxRetries oc) - 1)" .
qed

text \<open>
  C28. The pauses between attempts are 250 ms, 500 ms, 1 s and so on, doubling, at most
  \<open>maxRetries\<close> of them, and their sum stays below \<open>2 ^ maxRetries\<close> times 250 ms: 3.75 s with
  the default of four. Up to 36 retries no pause wraps around.
\<close>
theorem doWithRetry_backoff:
  assumes "0 \<le> oc_maxRetries oc" and "oc_maxRetries oc \<le> 36"
  shows "(\<exists>m \<le> nat (oc_maxRetries oc). snd (doWithRetry oc env payload) = map (\<lambda>i. 250000000 * 2 ^ i) [0..<m]) \<and>
    sum_list (snd (doWithRetry oc env payload)) \<le> 250000000 * (2 ^ nat (oc_maxRetries oc) - 1)"
  using doWithRetry_backoff_parts [OF assms] by blast

theorem doWithRetry_backoff_witness:
  "0 \<le> oc_maxRetries sample_oc \<and> sum_list (snd (doWithRetry sample_oc sample_env ''p'')) \<le> 3750000000"
  using doWithRetry_backoff [of sample_oc sample_env "''p''"] by (simp add: sample_oc_retries)

end
