(* ===== verification/Redis_Broker.thy ===== *)
theory Redis_Broker
  imports Queue Go_Strings
begin

text \<open>
  \<^verbatim>\<open>internal/queue/redis.go\<close>, the consuming side: group creation, the read, reclaim and
  acknowledge loop, and the handling of one message. The Redis client and the server behind
  it are the record \<open>client\<close>, an argument: its operations act on a state of type \<open>'w\<close>, which
  the message handler acts on as well. What the theorems need of the server is the predicate
  \<open>stream_laws\<close>, the documented behaviour of the pending entries list.
\<close>

section \<open>The client\<close>

datatype redis_error = RedisNil | RedisCanceled | RedisErr string

record XMessage =
  xm_ID :: string
  xm_Values :: "string \<rightharpoonup> string"

record 'w client =
  XGroupCreateMkStream :: "string \<Rightarrow> string \<Rightarrow> 'w \<Rightarrow> redis_error option \<times> 'w"
  XReadGroup :: "string \<Rightarrow> string \<Rightarrow> string \<Rightarrow> int \<Rightarrow> int \<Rightarrow> 'w \<Rightarrow> (redis_error + XMessage list list) \<times> 'w"
  XAutoClaim :: "string \<Rightarrow> string \<Rightarrow> string \<Rightarrow> int \<Rightarrow> int \<Rightarrow> 'w \<Rightarrow> (redis_error + XMessage list) \<times> 'w"
  XAck :: "string \<Rightarrow> string \<Rightarrow> string \<Rightarrow> 'w \<Rightarrow> redis_error option \<times> 'w"
  Sleep :: "int \<Rightarrow> 'w \<Rightarrow> 'w"
  ctx_Done :: "'w \<Rightarrow> bool"

type_synonym 'w handler = "Message \<Rightarrow> 'w \<Rightarrow> go_error option \<times> 'w"

record RedisBroker =
  minIdle :: int
  readCount :: int
  blockDur :: int

definition NewRedisBroker :: "int \<Rightarrow> RedisBroker" where
  "NewRedisBroker min_idle = \<lparr>minIdle = min_idle, readCount = 16, blockDur = 2000000000\<rparr>"

definition payloadField :: string where
  "payloadField = ''payload''"

fun has_prefix :: "string \<Rightarrow> string \<Rightarrow> bool" where
  "has_prefix [] s = True"
| "has_prefix (p # ps) [] = False"
| "has_prefix (p # ps) (c # cs) = (p = c \<and> has_prefix ps cs)"

fun Contains :: "string \<Rightarrow> string \<Rightarrow> bool" where
  "Contains [] sub = has_prefix sub []"
| "Contains (c # cs) sub = (has_prefix sub (c # cs) \<or> Contains cs sub)"

definition error_text :: "redis_error \<Rightarrow> string" where
  "error_text e = (case e of RedisNil \<Rightarrow> ''redis: nil'' | RedisCanceled \<Rightarrow> ''context canceled'' | RedisErr m \<Rightarrow> m)"

definition ensureGroup :: "'w client \<Rightarrow> string \<Rightarrow> string \<Rightarrow> 'w \<Rightarrow> go_error option \<times> 'w" where
  "ensureGroup cl stream grp w =
     (case XGroupCreateMkStream cl stream grp w of
        (Some e, w') \<Rightarrow>
          if Contains (error_text e) ''BUSYGROUP'' then (None, w')
          else (Some (Wrap (''xgroup create '' @ stream @ ''/'' @ grp) ErrBroker), w')
      | (None, w') \<Rightarrow> (None, w'))"

section \<open>Handling\<close>

text \<open>
  The second component of the results is a record of the deliveries: the message id and what
  the handler returned.
\<close>

type_synonym delivery_log = "(string \<times> go_error option) list"

definition message_of :: "XMessage \<Rightarrow> Message" where
  "message_of xm =
     \<lparr>msg_Key = (case xm_Values xm ''key'' of Some k \<Rightarrow> k | None \<Rightarrow> []),
      msg_Payload = (case xm_Values xm payloadField of Some p \<Rightarrow> p | None \<Rightarrow> [])\<rparr>"

definition handleOne :: "'w client \<Rightarrow> 'w handler \<Rightarrow> string \<Rightarrow> string \<Rightarrow> XMessage \<Rightarrow> 'w \<Rightarrow> delivery_log \<times> 'w" where
  "handleOne cl h stream grp xm w =
     (case h (message_of xm) w of
        (Some e, w') \<Rightarrow> ([(xm_ID xm, Some e)], w')
      | (None, w') \<Rightarrow> ([(xm_ID xm, None)], snd (XAck cl stream grp (xm_ID xm) w')))"

fun handle_all :: "'w client \<Rightarrow> 'w handler \<Rightarrow> string \<Rightarrow> string \<Rightarrow> XMessage list \<Rightarrow> 'w \<Rightarrow> delivery_log \<times> 'w" where
  "handle_all cl h stream grp [] w = ([], w)"
| "handle_all cl h stream grp (xm # xms) w =
     (case handleOne cl h stream grp xm w of
        (d, w') \<Rightarrow> (case handle_all cl h stream grp xms w' of (ds, w'') \<Rightarrow> (d @ ds, w'')))"

definition reclaim :: "RedisBroker \<Rightarrow> 'w client \<Rightarrow> 'w handler \<Rightarrow> string \<Rightarrow> string \<Rightarrow> string \<Rightarrow> 'w \<Rightarrow>
    (go_error + nat) \<times> delivery_log \<times> 'w" where
  "reclaim b cl h stream grp consumer w =
     (case XAutoClaim cl stream grp consumer (minIdle b) (readCount b) w of
        (Inl e, w') \<Rightarrow>
          if e = RedisNil \<or> ctx_Done cl w' then (Inr 0, [], w')
          else (Inl (Wrap (''xautoclaim '' @ stream) ErrBroker), [], w')
      | (Inr msgs, w') \<Rightarrow>
          (case handle_all cl h stream grp msgs w' of (ds, w'') \<Rightarrow> (Inr (length msgs), ds, w'')))"

text \<open>One turn of the loop of \<open>Consume\<close>: it returns, or goes on.\<close>

datatype turn = Stop | Again

definition consume_turn :: "RedisBroker \<Rightarrow> 'w client \<Rightarrow> 'w handler \<Rightarrow> string \<Rightarrow> string \<Rightarrow> string \<Rightarrow> 'w \<Rightarrow>
    turn \<times> delivery_log \<times> 'w" where
  "consume_turn b cl h stream grp consumer w =
     (if ctx_Done cl w then (Stop, [], w)
      else case reclaim b cl h stream grp consumer w of
             (r, ds, w1) \<Rightarrow>
               if (case r of Inr n \<Rightarrow> 0 < n | Inl _ \<Rightarrow> False) then (Again, ds, w1)
               else (case XReadGroup cl stream grp consumer (readCount b) (blockDur b) w1 of
                       (Inl e, w2) \<Rightarrow>
                         if e = RedisNil \<or> e = RedisCanceled then (Again, ds, w2)
                         else if ctx_Done cl w2 then (Stop, ds, w2)
                         else (Again, ds, Sleep cl 500000000 w2)
                     | (Inr streams, w2) \<Rightarrow>
                         (case handle_all cl h stream grp (concat streams) w2 of
                            (es, w3) \<Rightarrow> (Again, ds @ es, w3))))"

text \<open>
  The loop, at most \<open>n\<close> turns of it; the first component tells whether it has returned. It is
  meant to run until the context is cancelled, so no number of turns is enough in general.
\<close>

fun consume_loop :: "RedisBroker \<Rightarrow> 'w client \<Rightarrow> 'w handler \<Rightarrow> string \<Rightarrow> string \<Rightarrow> string \<Rightarrow> nat \<Rightarrow> 'w \<Rightarrow>
    bool \<times> delivery_log \<times> 'w" where
  "consume_loop b cl h stream grp consumer 0 w = (False, [], w)"
| "consume_loop b cl h stream grp consumer (Suc n) w =
     (case consume_turn b cl h stream grp consumer w of
        (Stop, ds, w') \<Rightarrow> (True, ds, w')
      | (Again, ds, w') \<Rightarrow>
          (case consume_loop b cl h stream grp consumer n w' of (fin, es, w'') \<Rightarrow> (fin, ds @ es, w'')))"

datatype consume_result = Returned "go_error option" | Running

definition Consume :: "RedisBroker \<Rightarrow> 'w client \<Rightarrow> 'w handler \<Rightarrow> string \<Rightarrow> string \<Rightarrow> string \<Rightarrow> nat \<Rightarrow> 'w \<Rightarrow>
    consume_result \<times> delivery_log \<times> 'w" where
  "Consume b cl h stream grp consumer n w =
     (case ensureGroup cl stream grp w of
        (Some e, w') \<Rightarrow> (Returned (Some e), [], w')
      | (None, w') \<Rightarrow>
          (case consume_loop b cl h stream grp consumer n w' of
             (fin, ds, w'') \<Rightarrow> (if fin then Returned None else Running, ds, w'')))"

section \<open>At-least-once delivery\<close>

text \<open>
  The documented behaviour of consumer groups, for the group at hand: \<open>pending w\<close> is the set
  of the ids that are in its pending entries list or that another consumer of the group has
  acknowledged. A message that is read or claimed is pending afterwards, and only an
  acknowledgement of this consumer takes an id, the one it names, out of the set; so handling,
  which does not talk to this group, waiting, and creating the group leave it alone.
\<close>

definition read_law :: "'w client \<Rightarrow> string \<Rightarrow> string \<Rightarrow> ('w \<Rightarrow> string set) \<Rightarrow> bool" where
  "read_law cl stream grp pending \<longleftrightarrow>
     (\<forall>c k d w. case XReadGroup cl stream grp c k d w of
        (r, w') \<Rightarrow> pending w \<subseteq> pending w' \<and>
          (case r of Inr ss \<Rightarrow> xm_ID ` set (concat ss) \<subseteq> pending w' | Inl _ \<Rightarrow> True))"

definition claim_law :: "'w client \<Rightarrow> string \<Rightarrow> string \<Rightarrow> ('w \<Rightarrow> string set) \<Rightarrow> bool" where
  "claim_law cl stream grp pending \<longleftrightarrow>
     (\<forall>c k d w. case XAutoClaim cl stream grp c k d w of
        (r, w') \<Rightarrow> pending w \<subseteq> pending w' \<and>
          (case r of Inr ms \<Rightarrow> xm_ID ` set ms \<subseteq> pending w' | Inl _ \<Rightarrow> True))"

definition stream_laws :: "'w client \<Rightarrow> 'w handler \<Rightarrow> string \<Rightarrow> string \<Rightarrow> ('w \<Rightarrow> string set) \<Rightarrow> bool" where
  "stream_laws cl h stream grp pending \<longleftrightarrow>
     read_law cl stream grp pending \<and> claim_law cl stream grp pending \<and>
     (\<forall>i w. pending w - {i} \<subseteq> pending (snd (XAck cl stream grp i w))) \<and>
     (\<forall>w. pending w \<subseteq> pending (snd (XGroupCreateMkStream cl stream grp w))) \<and>
     (\<forall>t w. pending w \<subseteq> pending (Sleep cl t w)) \<and>
     (\<forall>x w. pending w \<subseteq> pending (snd (h x w)))"

lemma stream_laws_read:
  assumes "stream_laws cl h stream grp pending" and "XReadGroup cl stream grp c k d w = (r, w')"
  shows "pending w \<subseteq> pending w'" and "r = Inr ss \<Longrightarrow> xm_ID ` set (concat ss) \<subseteq> pending w'"
proof -
  have "read_law cl stream grp pending" using assms(1) by (simp add: stream_laws_def)
  then have "pending w \<subseteq> pending w' \<and> (case r of Inr ss \<Rightarrow> xm_ID ` set (concat ss) \<subseteq> pending w' | Inl _ \<Rightarrow> True)"
    unfolding read_law_def by (elim allE [of _ c] allE [of _ k] allE [of _ d] allE [of _ w]) (simp add: assms(2))
  then show "pending w \<subseteq> pending w'" "r = Inr ss \<Longrightarrow> xm_ID ` set (concat ss) \<subseteq> pending w'" by auto
qed

lemma stream_laws_claim:
  assumes "stream_laws cl h stream grp pending" and "XAutoClaim cl stream grp c k d w = (r, w')"
  shows "pending w \<subseteq> pending w'" and "r = Inr ms \<Longrightarrow> xm_ID ` set ms \<subseteq> pending w'"
proof -
  have "claim_law cl stream grp pending" using assms(1) by (simp add: stream_laws_def)
  then have "pending w \<subseteq> pending w' \<and> (case r of Inr ms \<Rightarrow> xm_ID ` set ms \<subseteq> pending w' | Inl _ \<Rightarrow> True)"
    unfolding claim_law_def by (elim allE [of _ c] allE [of _ k] allE [of _ d] allE [of _ w]) (simp add: assms(2))
  then show "pending w \<subseteq> pending w'" "r = Inr ms \<Longrightarrow> xm_ID ` set ms \<subseteq> pending w'" by auto
qed

lemma stream_laws_rest:
  assumes "stream_laws cl h stream grp pending"
  shows "pending w - {i} \<subseteq> pending (snd (XAck cl stream grp i w))"
    and "pending w \<subseteq> pending (snd (XGroupCreateMkStream cl stream grp w))"
    and "pending w \<subseteq> pending (Sleep cl t w)" and "pending w \<subseteq> pending (snd (h x w))"
  using assms by (simp_all add: stream_laws_def)

text \<open>
  The contract of one stretch of the loop: what was pending before, or was delivered, is
  still pending unless its handler has returned without an error.
\<close>

definition at_least_once :: "('w \<Rightarrow> string set) \<Rightarrow> 'w \<Rightarrow> delivery_log \<Rightarrow> 'w \<Rightarrow> bool" where
  "at_least_once pending w ds w' \<longleftrightarrow>
     (\<forall>i. i \<in> pending w \<or> i \<in> fst ` set ds \<longrightarrow> (i, None) \<in> set ds \<or> i \<in> pending w')"

lemma at_least_once_trans:
  "at_least_once pending w ds w1 \<Longrightarrow> at_least_once pending w1 es w2 \<Longrightarrow> at_least_once pending w (ds @ es) w2"
  by (auto simp: at_least_once_def)

lemma at_least_once_grow: "pending w \<subseteq> pending w' \<Longrightarrow> at_least_once pending w [] w'"
  by (auto simp: at_least_once_def)

lemma handleOne_pending:
  assumes "stream_laws cl h stream grp pending" and "handleOne cl h stream grp xm w = (ds, w')"
  shows "\<exists>r. ds = [(xm_ID xm, r)] \<and> (if r = None then pending w - {xm_ID xm} else pending w) \<subseteq> pending w'"
proof -
  obtain r w1 where h: "h (message_of xm) w = (r, w1)" by force
  have grow: "pending w \<subseteq> pending w1" using stream_laws_rest(4) [OF assms(1), of w "message_of xm"] h by simp
  note ack = stream_laws_rest(1) [OF assms(1), of w1 "xm_ID xm"]
  show ?thesis using assms(2) h grow ack by (cases r) (auto simp: handleOne_def)
qed

lemma handle_all_alo_except:
  assumes laws: "stream_laws cl h stream grp pending"
  shows "handle_all cl h stream grp xms w = (ds, w') \<Longrightarrow> xm_ID ` set xms \<subseteq> pending w \<union> acked \<Longrightarrow>
    i \<in> pending w \<or> i \<in> fst ` set ds \<Longrightarrow> i \<notin> acked \<Longrightarrow> (i, None) \<in> set ds \<or> i \<in> pending w'"
proof (induction xms arbitrary: w ds acked)
  case Nil
  then show ?case by simp
next
  case (Cons xm xms)
  obtain d w1 where one: "handleOne cl h stream grp xm w = (d, w1)" by force
  obtain es where rest: "handle_all cl h stream grp xms w1 = (es, w')" and ds: "ds = d @ es"
    using Cons.prems(1) one by (auto split: prod.splits)
  from handleOne_pending [OF laws one] obtain r where d: "d = [(xm_ID xm, r)]"
    and pend: "(if r = None then pending w - {xm_ID xm} else pending w) \<subseteq> pending w1" by blast
  let ?acked = "acked \<union> (if r = None then {xm_ID xm} else {})"
  have sub: "xm_ID ` set xms \<subseteq> pending w1 \<union> ?acked" using Cons.prems(2) pend by (auto split: if_splits)
  show ?case
  proof (cases "r = None \<and> i = xm_ID xm")
    case True
    then show ?thesis by (simp add: ds d)
  next
    case False
    with Cons.prems(4) have "i \<notin> ?acked" by auto
    moreover have "i \<in> pending w1 \<or> i \<in> fst ` set es"
      using Cons.prems(2-4) False pend by (auto simp: ds d split: if_splits)
    ultimately have "(i, None) \<in> set es \<or> i \<in> pending w'" using Cons.IH [OF rest sub] by blast
    then show ?thesis by (auto simp: ds)
  qed
qed

lemma handle_all_alo:
  assumes "stream_laws cl h stream grp pending" and "xm_ID ` set xms \<subseteq> pending w"
    and "handle_all cl h stream grp xms w = (ds, w')"
  shows "at_least_once pending w ds w'"
  unfolding at_least_once_def
  using handle_all_alo_except [OF assms(1,3), where acked = "{}"] assms(2) by auto

lemma reclaim_alo:
  assumes laws: "stream_laws cl h stream grp pending"
    and "reclaim b cl h stream grp consumer w = (r, ds, w')"
  shows "at_least_once pending w ds w'"
proof -
  obtain q w1 where c: "XAutoClaim cl stream grp consumer (minIdle b) (readCount b) w = (q, w1)" by force
  note grow = stream_laws_claim [OF laws c]
  show ?thesis
  proof (cases q)
    case (Inl e)
    with assms(2) c have "ds = []" "w' = w1" by (auto simp: reclaim_def split: if_splits)
    with at_least_once_grow [of pending, OF grow(1)] show ?thesis by simp
  next
    case (Inr ms)
    with assms(2) c have "handle_all cl h stream grp ms w1 = (ds, w')"
      by (auto simp: reclaim_def split: prod.splits)
    from at_least_once_trans [OF at_least_once_grow [of pending, OF grow(1)] handle_all_alo [OF laws grow(2) [OF Inr] this]]
    show ?thesis by simp
  qed
qed

lemma consume_turn_alo:
  assumes laws: "stream_laws cl h stream grp pending"
    and turn: "consume_turn b cl h stream grp consumer w = (k, ds, w')"
  shows "at_least_once pending w ds w'"
proof (cases "ctx_Done cl w")
  case True
  with turn show ?thesis by (auto simp: consume_turn_def intro: at_least_once_grow)
next
  case False
  obtain r ds1 w1 where rec: "reclaim b cl h stream grp consumer w = (r, ds1, w1)" by (cases "reclaim b cl h stream grp consumer w") auto
  note first = reclaim_alo [OF laws rec]
  obtain q w2 where rd: "XReadGroup cl stream grp consumer (readCount b) (blockDur b) w1 = (q, w2)" by force
  note grow = stream_laws_read [OF laws rd]
  have quiet: "at_least_once pending w ds1 w'" if "pending w1 \<subseteq> pending w'" for w'
    using at_least_once_trans [OF first at_least_once_grow [of pending, OF that]] by simp
  show ?thesis
  proof (cases "case r of Inr n \<Rightarrow> 0 < n | Inl _ \<Rightarrow> False")
    case True
    with False turn rec first show ?thesis by (auto simp: consume_turn_def)
  next
    case fresh: False
    show ?thesis
    proof (cases q)
      case (Inl e)
      with turn False rec fresh rd have "ds = ds1" and "w' = w2 \<or> w' = Sleep cl 500000000 w2"
        by (auto simp: consume_turn_def split: if_splits)
      moreover have "pending w1 \<subseteq> pending (Sleep cl 500000000 w2)"
        using grow(1) stream_laws_rest(3) [OF laws] by (rule subset_trans)
      ultimately show ?thesis using quiet grow(1) by metis
    next
      case (Inr ss)
      obtain es w3 where all: "handle_all cl h stream grp (concat ss) w2 = (es, w3)" by force
      with turn False rec fresh rd Inr have "ds = ds1 @ es" "w' = w3" by (auto simp: consume_turn_def)
      moreover have "at_least_once pending w1 es w3"
        using at_least_once_trans [OF at_least_once_grow [of pending, OF grow(1)] handle_all_alo [OF laws grow(2) [OF Inr] all]] by simp
      ultimately show ?thesis using at_least_once_trans [OF first] by simp
    qed
  qed
qed

lemma consume_loop_alo:
  assumes laws: "stream_laws cl h stream grp pending"
  shows "consume_loop b cl h stream grp consumer n w = (fin, ds, w') \<Longrightarrow> at_least_once pending w ds w'"
proof (induction n arbitrary: w ds)
  case 0
  then show ?case by (auto intro: at_least_once_grow)
next
  case (Suc n)
  obtain k d w1 where t: "consume_turn b cl h stream grp consumer w = (k, d, w1)"
    by (cases "consume_turn b cl h stream grp consumer w") auto
  note first = consume_turn_alo [OF laws t]
  show ?case
  proof (cases k)
    case Stop
    with Suc.prems t first show ?thesis by simp
  next
    case Again
    with Suc.prems t obtain es where "consume_loop b cl h stream grp consumer n w1 = (fin, es, w')" "ds = d @ es"
      by (auto split: prod.splits)
    with Suc.IH at_least_once_trans [OF first] show ?thesis by blast
  qed
qed

section \<open>Properties\<close>

text \<open>
  C35. At-least-once delivery: while a consumer runs, however long, however often the server or
  the handler fails, a message that was pending when it started or was delivered to it is
  still pending, or acknowledged by another consumer that was given it, unless its handler has
  returned without an error. Only a handled message is ever acknowledged.
\<close>
theorem Consume_at_least_once:
  assumes "stream_laws cl h stream grp pending"
    and "Consume b cl h stream grp consumer n w = (res, ds, w')"
    and "i \<in> pending w \<or> i \<in> fst ` set ds"
  shows "(i, None) \<in> set ds \<or> i \<in> pending w'"
proof -
  obtain q w1 where g: "ensureGroup cl stream grp w = (q, w1)" by force
  then have "w1 = snd (XGroupCreateMkStream cl stream grp w)"
    by (auto simp: ensureGroup_def split: prod.splits option.splits if_splits)
  then have grow: "pending w \<subseteq> pending w1" using stream_laws_rest(2) [OF assms(1)] by simp
  have "at_least_once pending w ds w'"
  proof (cases q)
    case (Some e)
    with assms(2) g have "ds = []" "w' = w1" by (auto simp: Consume_def)
    with at_least_once_grow [of pending, OF grow] show ?thesis by simp
  next
    case None
    with assms(2) g obtain fin where "consume_loop b cl h stream grp consumer n w1 = (fin, ds, w')"
      by (auto simp: Consume_def split: prod.splits)
    from at_least_once_trans [OF at_least_once_grow [of pending, OF grow] consume_loop_alo [OF assms(1) this]]
    show ?thesis by simp
  qed
  with assms(3) show ?thesis unfolding at_least_once_def by blast
qed

text \<open>
  A stream server in memory, as an instance: messages not delivered yet, and the pending
  ones. A read delivers one message, a claim hands out all pending ones, an acknowledgement
  removes one. The handler refuses empty payloads.
\<close>

type_synonym mem = "XMessage list \<times> XMessage list"

definition mem_client :: "mem client" where
  "mem_client =
     \<lparr>XGroupCreateMkStream = (\<lambda>_ _ w. (Some (RedisErr ''BUSYGROUP Consumer Group name already exists''), w)),
      XReadGroup = (\<lambda>_ _ _ _ _ w. case fst w of
         [] \<Rightarrow> (Inl RedisNil, w) | xm # xs \<Rightarrow> (Inr [[xm]], (xs, snd w @ [xm]))),
      XAutoClaim = (\<lambda>_ _ _ _ _ w. (Inr (snd w), w)),
      XAck = (\<lambda>_ _ i w. (None, (fst w, filter (\<lambda>xm. xm_ID xm \<noteq> i) (snd w)))),
      Sleep = (\<lambda>_ w. w), ctx_Done = (\<lambda>w. False)\<rparr>"

definition mem_handler :: "mem handler" where
  "mem_handler msg w = (if msg_Payload msg = [] then Some ErrDecode else None, w)"

definition mem_pending :: "mem \<Rightarrow> string set" where
  "mem_pending w = xm_ID ` set (snd w)"

definition mem_start :: mem where
  "mem_start = ([\<lparr>xm_ID = ''1-0'', xm_Values = [''payload'' \<mapsto> ''p'']\<rparr>, \<lparr>xm_ID = ''2-0'', xm_Values = Map.empty\<rparr>], [])"

lemma mem_laws: "stream_laws mem_client mem_handler stream grp mem_pending"
  by (auto simp: stream_laws_def read_law_def claim_law_def mem_client_def mem_handler_def mem_pending_def
      split: list.splits)

theorem Consume_at_least_once_witness:
  "case Consume (NewRedisBroker 30) mem_client mem_handler ''s'' ''g'' ''c'' 3 mem_start of
     (res, ds, w') \<Rightarrow> ds = [(''1-0'', None), (''2-0'', Some ErrDecode), (''2-0'', Some ErrDecode)] \<and>
       ''2-0'' \<in> mem_pending w'"
proof -
  have run: "Consume (NewRedisBroker 30) mem_client mem_handler ''s'' ''g'' ''c'' 3 mem_start =
    (Running, [(''1-0'', None), (''2-0'', Some ErrDecode), (''2-0'', Some ErrDecode)], ([], [\<lparr>xm_ID = ''2-0'', xm_Values = Map.empty\<rparr>]))"
    by (simp add: Consume_def ensureGroup_def error_text_def NewRedisBroker_def numeral_eq_Suc consume_turn_def
        reclaim_def handleOne_def message_of_def payloadField_def mem_client_def mem_handler_def mem_start_def)
  from Consume_at_least_once [OF mem_laws run, of "''2-0''"] show ?thesis using run by simp
qed

text \<open>
  C36. When a consumer returns: with an error only if its group could not be created, and
  without one only after the context was cancelled; once it is cancelled the loop ends at the
  next turn without touching anything.
\<close>
theorem Consume_returns:
  "(\<forall>e ds w'. Consume b cl h stream grp consumer n w = (Returned (Some e), ds, w') \<longrightarrow>
      ensureGroup cl stream grp w = (Some e, w') \<and> ds = []) \<and>
   (\<forall>ds w'. Consume b cl h stream grp consumer n w = (Returned None, ds, w') \<longrightarrow> ctx_Done cl w') \<and>
   (ctx_Done cl w \<longrightarrow> consume_turn b cl h stream grp consumer w = (Stop, [], w))"
proof -
  have turn: "ctx_Done cl w'" if "consume_turn b cl h stream grp consumer w = (Stop, ds, w')" for w ds w'
    using that by (auto simp: consume_turn_def split: if_splits prod.splits sum.splits)
  have loop: "ctx_Done cl w'" if "consume_loop b cl h stream grp consumer n w = (True, ds, w')" for n w ds w'
    using that
  proof (induction n arbitrary: w ds)
    case (Suc n)
    obtain k d w1 where t: "consume_turn b cl h stream grp consumer w = (k, d, w1)"
      by (cases "consume_turn b cl h stream grp consumer w") auto
    show ?case using Suc t turn [of w d w1] by (cases k) (auto split: prod.splits)
  qed simp
  show ?thesis
    using loop by (auto simp: Consume_def consume_turn_def split: prod.splits option.splits if_splits)
qed

theorem Consume_returns_witness:
  "let cl = mem_client\<lparr>ctx_Done := (\<lambda>_. True)\<rparr>
   in consume_turn (NewRedisBroker 30) cl mem_handler ''s'' ''g'' ''c'' mem_start = (Stop, [], mem_start)"
  using Consume_returns [of "NewRedisBroker 30" "mem_client\<lparr>ctx_Done := (\<lambda>_. True)\<rparr>" mem_handler "''s''" "''g''" "''c''" 1 mem_start]
  by (simp add: Let_def)

end
