(* ===== verification/Runtime.thy ===== *)
theory Runtime
  imports Config Ollama Redis_Broker "HOL-Library.List_Lexorder" "HOL-Library.Char_ord"
begin

text \<open>
  How the processes are put together: connecting and migrating the store
  (\<^verbatim>\<open>internal/store/store.go\<close>), the bootstrap with its retries and the choice of the
  classifier (\<^verbatim>\<open>internal/app/app.go\<close>), and the consumers of a worker
  (\<^verbatim>\<open>internal/pipeline/runner.go\<close>). What the network answers is an argument.
\<close>

section \<open>Store\<close>

text \<open>\<^verbatim>\<open>store.New\<close>: the outcomes of opening the pool and of the first ping.\<close>

definition store_New :: "go_error option \<Rightarrow> go_error option \<Rightarrow> go_error option" where
  "store_New connect ping =
     (case connect of
        Some e \<Rightarrow> Some (Wrap ''connect postgres'' e)
      | None \<Rightarrow> (case ping of Some e \<Rightarrow> Some (Wrap ''ping postgres'' e) | None \<Rightarrow> None))"

text \<open>
  \<^verbatim>\<open>Store.Migrate\<close>: the embedded directory (names, and whether each is a directory), its
  files, and the outcome of each round trip. The second component lists the statements sent,
  each with its arguments.
\<close>

type_synonym sql_stmt = "string \<times> int list"

record migration_env =
  mig_Acquire :: "go_error option"
  mig_ReadDir :: "go_error + (string \<times> bool) list"
  mig_ReadFile :: "string \<Rightarrow> go_error + string"
  mig_Exec :: "sql_stmt \<Rightarrow> go_error option"

definition migrateLockKey :: int where "migrateLockKey = 4927013"
definition lock_stmt :: sql_stmt where "lock_stmt = (''SELECT pg_advisory_lock($1)'', [migrateLockKey])"
definition unlock_stmt :: sql_stmt where "unlock_stmt = (''SELECT pg_advisory_unlock($1)'', [migrateLockKey])"

definition HasSuffix :: "string \<Rightarrow> string \<Rightarrow> bool" where
  "HasSuffix s suf \<longleftrightarrow> length suf \<le> length s \<and> drop (length s - length suf) s = suf"

definition migration_names :: "(string \<times> bool) list \<Rightarrow> string list" where
  "migration_names entries = sort (map fst (filter (\<lambda>(n, dir). \<not> dir \<and> HasSuffix n ''.sql'') entries))"

fun apply_migrations :: "migration_env \<Rightarrow> string list \<Rightarrow> go_error option \<times> sql_stmt list" where
  "apply_migrations me [] = (None, [])"
| "apply_migrations me (name # names) =
     (case mig_ReadFile me (''migrations/'' @ name) of
        Inl e \<Rightarrow> (Some (Wrap (''read migration '' @ name) e), [])
      | Inr body \<Rightarrow>
          (case mig_Exec me (body, []) of
             Some e \<Rightarrow> (Some (Wrap (''apply migration '' @ name) e), [(body, [])])
           | None \<Rightarrow> (case apply_migrations me names of (r, tr) \<Rightarrow> (r, (body, []) # tr))))"

definition Migrate :: "migration_env \<Rightarrow> go_error option \<times> sql_stmt list" where
  "Migrate me =
     (case mig_Acquire me of
        Some e \<Rightarrow> (Some (Wrap ''acquire migration conn'' e), [])
      | None \<Rightarrow>
          (case mig_Exec me lock_stmt of
             Some e \<Rightarrow> (Some (Wrap ''acquire migration lock'' e), [lock_stmt])
           | None \<Rightarrow>
               (case (case mig_ReadDir me of
                        Inl e \<Rightarrow> (Some (Wrap ''read migrations'' e), [])
                      | Inr entries \<Rightarrow> apply_migrations me (migration_names entries)) of
                  (r, tr) \<Rightarrow> (r, lock_stmt # tr @ [unlock_stmt]))))"

section \<open>Bootstrap\<close>

text \<open>
  \<^verbatim>\<open>retry\<close>: \<open>outcome i\<close> is the result of call \<open>i\<close>, \<open>cancelled i\<close> whether the context ends in
  the pause after it. The second component counts the calls.
\<close>

fun retry_from :: "string \<Rightarrow> nat \<Rightarrow> (nat \<Rightarrow> go_error option) \<Rightarrow> (nat \<Rightarrow> bool) \<Rightarrow> nat \<Rightarrow> nat \<Rightarrow> go_error option \<Rightarrow>
    go_error option \<times> nat" where
  "retry_from what attempts outcome cancelled i 0 err =
     (Some (case err of
              Some e \<Rightarrow> Wrap (what @ '' not ready after '' @ FormatInt (int attempts) @ '' attempts'') e
            | None \<Rightarrow> ErrCompute (what @ '' not ready after '' @ FormatInt (int attempts) @ '' attempts: %!w(<nil>)'')), i)"
| "retry_from what attempts outcome cancelled i (Suc k) err =
     (case outcome i of
        None \<Rightarrow> (None, Suc i)
      | Some e \<Rightarrow>
          if cancelled i then (Some ErrCanceled, Suc i)
          else retry_from what attempts outcome cancelled (Suc i) k (Some e))"

definition retry :: "string \<Rightarrow> nat \<Rightarrow> (nat \<Rightarrow> go_error option) \<Rightarrow> (nat \<Rightarrow> bool) \<Rightarrow> go_error option \<times> nat" where
  "retry what attempts outcome cancelled = retry_from what attempts outcome cancelled 0 attempts None"

definition NewStore :: "(nat \<Rightarrow> go_error option) \<Rightarrow> (nat \<Rightarrow> go_error option) \<Rightarrow> (nat \<Rightarrow> bool) \<Rightarrow> migration_env \<Rightarrow>
    go_error option" where
  "NewStore connect ping cancelled me =
     (case fst (retry ''postgres'' 10 (\<lambda>i. store_New (connect i) (ping i)) cancelled) of
        Some e \<Rightarrow> Some e
      | None \<Rightarrow> (case fst (Migrate me) of Some e \<Rightarrow> Some (Wrap ''migrate'' e) | None \<Rightarrow> None))"

definition NewBroker :: "Config \<Rightarrow> (nat \<Rightarrow> go_error option) \<Rightarrow> (nat \<Rightarrow> bool) \<Rightarrow> go_error + RedisBroker" where
  "NewBroker cfg ping cancelled =
     (case fst (retry ''redis'' 10 ping cancelled) of
        Some e \<Rightarrow> Inl e
      | None \<Rightarrow> Inr (NewRedisBroker (ClaimMinIdle cfg)))"

datatype chosen = UseOllama OllamaClassifier | UseMock MockClassifier

definition NewClassifier :: "Config \<Rightarrow> chosen" where
  "NewClassifier cfg =
     (if LLMProvider cfg = ''ollama''
      then UseOllama (NewOllamaClassifier (OllamaBaseURL cfg) (OllamaAPIKey cfg) (OllamaModel cfg) [])
      else UseMock (NewMockClassifier [WithDelay (MockClassifyDelay cfg)]))"

definition chosen_Classify :: "chosen \<Rightarrow> http_env \<Rightarrow> bool \<Rightarrow> Token \<Rightarrow> go_error + Classification" where
  "chosen_Classify ch henv cancelled =
     (case ch of
        UseOllama oc \<Rightarrow> Ollama_Classify oc henv
      | UseMock mc \<Rightarrow> MockClassifier_Classify mc cancelled)"

section \<open>Consumers of a worker\<close>

record 'h worker =
  wk_stream :: string
  wk_group :: string
  wk_concurrency :: int
  wk_handler :: 'h

definition consumer_names :: "string \<Rightarrow> string \<Rightarrow> int \<Rightarrow> string list" where
  "consumer_names host grp concurrency =
     map (\<lambda>i. host @ ''-'' @ grp @ ''-'' @ FormatInt i) [0..concurrency - 1]"

text \<open>
  \<^verbatim>\<open>worker.run\<close>: one consumer per name; \<open>consume stream group consumer handler\<close> is what the
  broker's \<^verbatim>\<open>Consume\<close> returns for a consumer in the end, \<open>finish\<close> puts the consumers in the order
  in which they return. \<^verbatim>\<open>Wait\<close> reports the first error.
\<close>

fun first_error :: "(string \<times> go_error option) list \<Rightarrow> go_error option" where
  "first_error [] = None"
| "first_error ((c, None) # rs) = first_error rs"
| "first_error ((c, Some e) # rs) = Some (Wrap (''consumer '' @ c) e)"

definition worker_names :: "'h worker \<Rightarrow> string \<Rightarrow> string list" where
  "worker_names wk hostname =
     consumer_names (if hostname = [] then ''worker'' else hostname) (wk_group wk) (wk_concurrency wk)"

definition worker_run :: "'h worker \<Rightarrow> string \<Rightarrow> (string \<Rightarrow> string \<Rightarrow> string \<Rightarrow> 'h \<Rightarrow> go_error option) \<Rightarrow>
    (string list \<Rightarrow> string list) \<Rightarrow> go_error option" where
  "worker_run wk hostname consume finish =
     first_error (map (\<lambda>c. (c, consume (wk_stream wk) (wk_group wk) c (wk_handler wk)))
       (finish (worker_names wk hostname)))"

text \<open>\<^verbatim>\<open>ExtractionWorker.Run\<close> and \<^verbatim>\<open>ClassificationWorker.Run\<close> hand their handler to a worker.\<close>

definition extraction_worker :: "'h \<Rightarrow> int \<Rightarrow> 'h worker" where
  "extraction_worker handle concurrency =
     \<lparr>wk_stream = StreamExtract, wk_group = GroupExtract, wk_concurrency = concurrency, wk_handler = handle\<rparr>"

definition classification_worker :: "'h \<Rightarrow> int \<Rightarrow> 'h worker" where
  "classification_worker handle concurrency =
     \<lparr>wk_stream = StreamClassify, wk_group = GroupClassify, wk_concurrency = concurrency, wk_handler = handle\<rparr>"

section \<open>Properties\<close>

text \<open>
  What the loop over the files sends: the contents of a prefix of them, all of them when it
  reports no error.
\<close>

lemma apply_migrations_prefix:
  assumes "apply_migrations me names = (q, tr)"
  shows "\<exists>k \<le> length names. \<exists>bodies. tr = map (\<lambda>body. (body, [])) bodies \<and>
     map (\<lambda>n. mig_ReadFile me (''migrations/'' @ n)) (take k names) = map Inr bodies \<and> (q = None \<longrightarrow> k = length names)"
  using assms
proof (induction names arbitrary: tr)
  case (Cons n ns)
  show ?case
  proof (cases "mig_ReadFile me (''migrations/'' @ n)")
    case (Inl e)
    with Cons.prems show ?thesis by (intro exI [of _ 0]) auto
  next
    case (Inr body)
    show ?thesis
    proof (cases "mig_Exec me (body, [])")
      case (Some e)
      with Inr Cons.prems show ?thesis by (intro exI [of _ 1] conjI exI [of _ "[body]"]) auto
    next
      case None
      with Inr Cons.prems obtain tr' where "apply_migrations me ns = (q, tr')" and tr: "tr = (body, []) # tr'"
        by (auto split: prod.splits)
      with Cons.IH obtain k bodies where "k \<le> length ns" "tr' = map (\<lambda>body. (body, [])) bodies"
        "map (\<lambda>n. mig_ReadFile me (''migrations/'' @ n)) (take k ns) = map Inr bodies" "q = None \<longrightarrow> k = length ns" by blast
      with Inr tr show ?thesis by (intro exI [of _ "Suc k"] conjI exI [of _ "body # bodies"]) auto
    qed
  qed
qed simp

text \<open>
  C39. The migrations run under the advisory lock and in name order: what is sent is the lock,
  the contents of a prefix of the sorted SQL files, and the unlock of the same key, which is
  sent however the migration ends; without an error all files have been applied.
\<close>
theorem Migrate_locked_in_order:
  assumes "mig_Acquire me = None" and "mig_Exec me lock_stmt = None" and "mig_ReadDir me = Inr entries"
    and "Migrate me = (r, sent)"
  shows "\<exists>k \<le> length (migration_names entries). \<exists>bodies.
     sent = (''SELECT pg_advisory_lock($1)'', [migrateLockKey]) # map (\<lambda>body. (body, [])) bodies @
            [(''SELECT pg_advisory_unlock($1)'', [migrateLockKey])] \<and>
     map (\<lambda>n. mig_ReadFile me (''migrations/'' @ n)) (take k (migration_names entries)) = map Inr bodies \<and>
     (r = None \<longrightarrow> k = length (migration_names entries)) \<and> sorted (migration_names entries)"
proof -
  obtain q tr where a: "apply_migrations me (migration_names entries) = (q, tr)" by force
  with assms have "r = q" "sent = lock_stmt # tr @ [unlock_stmt]" by (auto simp: Migrate_def)
  moreover have "sorted (migration_names entries)" by (simp add: migration_names_def)
  ultimately show ?thesis using apply_migrations_prefix [OF a] unfolding lock_stmt_def unlock_stmt_def by blast
qed

theorem Migrate_locked_in_order_witness:
  "let me = \<lparr>mig_Acquire = None, mig_ReadDir = Inr [(''0002_b.sql'', False), (''0001_a.sql'', False), (''x'', True)],
       mig_ReadFile = (\<lambda>n. Inr n), mig_Exec = (\<lambda>_. None)\<rparr>
   in \<exists>sent. Migrate me = (None, sent) \<and> length sent = 4"
proof -
  let ?es = "[(''0002_b.sql'', False), (''0001_a.sql'', False), (''x'', True)]"
  let ?me = "\<lparr>mig_Acquire = None, mig_ReadDir = Inr ?es, mig_ReadFile = (\<lambda>n. Inr n), mig_Exec = (\<lambda>_. None)\<rparr>"
  have names: "length (migration_names ?es) = 2" by (simp add: migration_names_def HasSuffix_def)
  have "fst (apply_migrations ?me ns) = None" for ns by (induction ns) (simp_all add: case_prod_beta)
  then have "fst (Migrate ?me) = None" by (simp add: Migrate_def case_prod_beta)
  then obtain sent where m: "Migrate ?me = (None, sent)" by (cases "Migrate ?me") simp
  from Migrate_locked_in_order [of ?me ?es, OF _ _ _ m] names obtain l u bodies where sent: "sent = l # map (\<lambda>body. (body, [])) bodies @ [u]"
    and "map (\<lambda>n. mig_ReadFile ?me (''migrations/'' @ n)) (take 2 (migration_names ?es)) = map Inr bodies"
    by (metis migration_env.select_convs(1,2,4))
  from arg_cong [OF this(2), of length] have "length bodies = 2" by (simp add: names)
  with sent m show ?thesis by (simp add: Let_def)
qed

lemma retry_from_find:
  "fst (retry_from what n outcome cancelled i k err) =
     (case find (\<lambda>i. outcome i = None \<or> cancelled i) [i..<i + k] of
        Some i \<Rightarrow> if outcome i = None then None else Some ErrCanceled
      | None \<Rightarrow> Some (case (if k = 0 then err else outcome (i + k - 1)) of
          Some e \<Rightarrow> Wrap (what @ '' not ready after '' @ FormatInt (int n) @ '' attempts'') e
        | None \<Rightarrow> ErrCompute (what @ '' not ready after '' @ FormatInt (int n) @ '' attempts: %!w(<nil>)'')))"
proof (induction k arbitrary: i err)
  case 0
  then show ?case by simp
next
  case (Suc k)
  have upt: "[i..<i + Suc k] = i # [Suc i..<Suc i + k]" by (simp add: upt_conv_Cons del: upt_Suc)
  show ?case
  proof (cases "outcome i = None \<or> cancelled i")
    case True
    then show ?thesis unfolding upt by (auto split: option.splits)
  next
    case False
    then obtain e where e: "outcome i = Some e" "\<not> cancelled i" by auto
    then have "fst (retry_from what n outcome cancelled i (Suc k) err) =
        fst (retry_from what n outcome cancelled (Suc i) k (Some e))" by simp
    moreover have "(if Suc k = 0 then err else outcome (i + Suc k - 1)) =
        (if k = 0 then Some e else outcome (Suc i + k - 1))" using e by auto
    ultimately show ?thesis unfolding upt using Suc.IH [of "Suc i" "Some e"] e by (simp only: find.simps simp_thms if_False option.distinct)
  qed
qed

lemma retry_from_calls: "snd (retry_from what n outcome cancelled i k err) \<le> i + k"
proof (induction k arbitrary: i err)
  case (Suc k)
  from Suc.IH [of "Suc i"] show ?case by (auto split: option.splits)
qed simp

text \<open>
  Waiting for a dependency: of at most \<open>attempts\<close> calls, the first that succeeds ends the
  wait with success, a cancellation in the pause before it ends it with that, and otherwise
  the last call's error is reported; never more calls are made.
\<close>
lemma retry_outcome:
  "fst (retry what n outcome cancelled) =
     (case find (\<lambda>i. outcome i = None \<or> cancelled i) [0..<n] of
        Some i \<Rightarrow> if outcome i = None then None else Some ErrCanceled
      | None \<Rightarrow> Some (case (if n = 0 then None else outcome (n - 1)) of
          Some e \<Rightarrow> Wrap (what @ '' not ready after '' @ FormatInt (int n) @ '' attempts'') e
        | None \<Rightarrow> ErrCompute (what @ '' not ready after '' @ FormatInt (int n) @ '' attempts: %!w(<nil>)''))) \<and>
   snd (retry what n outcome cancelled) \<le> n"
  using retry_from_find [of what n outcome cancelled 0 n None] retry_from_calls [of what n outcome cancelled 0 n None]
  unfolding retry_def add_0 by blast

lemma first_error_Some:
  "first_error rs = Some e \<Longrightarrow> \<exists>c e'. (c, Some e') \<in> set rs \<and> e = Wrap (''consumer '' @ c) e'"
  by (induction rs rule: first_error.induct) auto

lemma first_error_None: "first_error rs = None \<longleftrightarrow> (\<forall>(c, r) \<in> set rs. r = None)"
  by (induction rs rule: first_error.induct) auto

lemma worker_names_distinct:
  "distinct (worker_names wk hostname) \<and> length (worker_names wk hostname) = nat (wk_concurrency wk)"
proof -
  let ?n = "wk_concurrency wk"
  have "inj_on FormatInt {0..?n - 1}"
  proof (rule inj_onI)
    fix i j :: int
    assume ij: "i \<in> {0..?n - 1}" "j \<in> {0..?n - 1}" "FormatInt i = FormatInt j"
    then have "nat_digits (nat i) = nat_digits (nat j)" by (simp add: FormatInt_def split: if_splits)
    then have "nat i = nat j" using nat_digits_props by metis
    with ij show "i = j" by (metis atLeastAtMost_iff eq_nat_nat_iff)
  qed
  then have "inj_on (\<lambda>i. host @ ''-'' @ grp @ ''-'' @ FormatInt i) {0..?n - 1}" for host grp
    by (auto simp: inj_on_def)
  then show ?thesis by (simp add: worker_names_def consumer_names_def distinct_map)
qed

text \<open>
  The consumers of a worker join their group under pairwise different names, as many as
  the configured concurrency, on any host; in whatever order they return, the worker reports
  no error if none of them failed, and otherwise the error of one of its consumers.
\<close>
lemma worker_consumers:
  assumes "set (finish (worker_names wk hostname)) = set (worker_names wk hostname)"
  shows "distinct (worker_names wk hostname) \<and> length (worker_names wk hostname) = nat (wk_concurrency wk) \<and>
    (case worker_run wk hostname consume finish of
       None \<Rightarrow> \<forall>c \<in> set (worker_names wk hostname). consume (wk_stream wk) (wk_group wk) c (wk_handler wk) = None
     | Some e \<Rightarrow> \<exists>c \<in> set (worker_names wk hostname). \<exists>e'.
         consume (wk_stream wk) (wk_group wk) c (wk_handler wk) = Some e' \<and> e = Wrap (''consumer '' @ c) e')"
  using worker_names_distinct [of wk hostname] assms
  by (auto simp: worker_run_def first_error_None split: option.split dest!: first_error_Some)

interpretation chosen: classifier "chosen_Classify ch henv cancelled"
  for ch :: chosen and henv :: http_env and cancelled :: bool
proof
  fix tok c
  assume "chosen_Classify ch henv cancelled tok = Inr c"
  then consider oc where "Ollama_Classify oc henv tok = Inr c" | mc where "MockClassifier_Classify mc cancelled tok = Inr c"
    by (auto simp: chosen_Classify_def split: chosen.splits)
  then show "Category_Valid (cls_Category c)" "0 \<le> cls_Confidence c \<and> cls_Confidence c \<le> 1"
    using ollama.category_valid ollama.confidence_unit mock.category_valid mock.confidence_unit by (cases; blast)+
qed

end
