(* ===== verification/Typed_Tokens.thy ===== *)
theory Typed_Tokens
  imports Runtime Worker_Properties
begin

text \<open>
  A well-formedness invariant of the token table that spans the classifier and the store:
  every operation of the pipeline keeps classified tokens well typed, for any classifier that
  keeps the contract of \<^verbatim>\<open>internal/llm/llm.go\<close>.
\<close>

section \<open>Classified tokens are well typed\<close>

text \<open>
  A classified token has a category, a confidence in the unit interval, a reasoning and a
  time; a pending one has none of them.
\<close>

definition typed_token :: "Token \<Rightarrow> bool" where
  "typed_token t \<longleftrightarrow>
     (if tok_Status t = TokenClassified
      then pred_option Category_Valid (tok_Classification t) \<and> tok_Classification t \<noteq> None \<and>
           pred_option (\<lambda>x. 0 \<le> x \<and> x \<le> 1) (tok_Confidence t) \<and> tok_Confidence t \<noteq> None \<and>
           tok_Reasoning t \<noteq> None \<and> tok_ClassifiedAt t \<noteq> None
      else tok_Classification t = None \<and> tok_Confidence t = None \<and> tok_Reasoning t = None \<and> tok_ClassifiedAt t = None)"

definition typed :: "pg \<Rightarrow> bool" where
  "typed s \<longleftrightarrow> list_all typed_token (tokens (tbl s))"

lemma typed_tbl: "typed s \<Longrightarrow> tokens (tbl s') = tokens (tbl s) \<Longrightarrow> typed s'"
  by (simp add: typed_def)

lemma typed_WithinTx:
  assumes "keeps quiet fn" and "\<And>x s s'. typed s \<Longrightarrow> fn s = (Inr x, s') \<Longrightarrow> typed s'" and "typed s"
  shows "typed (snd (WithinTx fn s))"
proof -
  obtain r s' where w: "WithinTx fn s = (r, s')" by force
  have "typed s'" using assms(1) w assms(3) by (rule uow.invariant) (auto intro: typed_tbl assms(2))
  with w show ?thesis by simp
qed

lemma typed_new_token: "typed_token (new_token i d v t e)"
  by (simp add: typed_token_def new_token_def)

lemma typed_Submit: "typed s \<Longrightarrow> typed (snd (Submit i x mode s))"
proof -
  assume s: "typed s"
  have "typed s'" if "typed s0" "Submit_body i x mode s0 = (Inr res, s')" for res s0 s'
  proof -
    from Submit_body_succ [OF that(2)] obtain t where t: "Submit_decide i x mode s0 = (Inr res, t)"
      and "tokens (tbl s') = tokens (tbl t)" by (auto simp: enqueued_def)
    moreover from t have "list_all typed_token (tokens (tbl t))"
      using that(1) by (cases rule: Submit_decide_cases) (auto simp: typed_def list_all_iff)
    ultimately show ?thesis by (simp add: typed_def)
  qed
  then have "typed (snd (WithinTx (Submit_body i x mode) s))" using s by (rule typed_WithinTx [OF keeps_Submit(2)])
  then show ?thesis by (simp add: Submit_def tx_wrap_def case_prod_beta split: sum.split)
qed

lemma typed_claim: "typed s \<Longrightarrow> typed (snd (claim i s))"
  unfolding claim_def
  by (rule typed_WithinTx [OF keeps_extraction(1)])
    (auto dest!: claim_body_succ intro: typed_tbl split: if_splits)

lemma typed_persist: "typed s \<Longrightarrow> typed (snd (persist doc es s))"
  unfolding persist_def
proof (rule typed_WithinTx [OF keeps_extraction(2)])
  fix n s s'
  assume s: "typed s" and p: "persist_body doc es s = (Inr n, s')"
  from persist_body_succ [OF p] obtain new s1 s2 f ms where up: "upserted (doc_ID doc) (doc_RunVersion doc) es s new s1"
    and "doc_updated (doc_ID doc) f s1 s2" "enqueued ms s2 s'" by blast
  then have "tokens (tbl s') = tokens (tbl s1)" by (simp add: doc_updated_def enqueued_def)
  moreover have "list_all typed_token new" using up by (simp add: upserted_def typed_token_def list_all_iff)
  ultimately show "typed s'" using s up by (simp add: typed_def upserted_def)
qed

lemma typed_drainBatch: "typed s \<Longrightarrow> typed (snd (drainBatch locked n s))"
proof -
  assume s: "typed s"
  obtain r s' where w: "WithinTx (drainBatch_body locked n) s = (r, s')" by force
  then have "tokens (tbl s') = tokens (tbl s)"
  proof (cases rule: uow.outcome)
    case (effect x)
    then show ?thesis using drainBatch_body_succ by (force simp: ran_def published_def)
  qed simp
  with s w show ?thesis by (simp add: drainBatch_def typed_def)
qed

lemma typed_MarkFailed: "typed s \<Longrightarrow> typed (snd (MarkFailed i s))"
  by (rule typed_tbl [where s = s])
    (simp_all add: MarkFailed_def autocommit_def update_doc_def upd_documents_def pop_fault_def split: fault.split option.split)

lemma typed_handle_extract: "typed s \<Longrightarrow> typed (snd (handle_extract extr msg s))"
proof (cases "decode_ExtractJob (msg_Payload msg)")
  case (Inr job)
  assume s: "typed s"
  obtain r s1 where c: "claim (ej_DocumentID job) s = (r, s1)" by force
  then have s1: "typed s1" using typed_claim [OF s, of "ej_DocumentID job"] by simp
  have "typed (snd (Process_extract extr job s))"
  proof (cases r)
    case (Inl e)
    with c s1 show ?thesis by (simp add: Process_extract_def tx_bind_def)
  next
    case (Inr doc)
    show ?thesis
    proof (cases "extr doc")
      case (Inl e)
      with c s1 Inr show ?thesis by (simp add: Process_extract_def tx_bind_def tx_return_def tx_fail_def \<open>r = Inr doc\<close>)
    next
      case es: (Inr es)
      obtain q s2 where p: "persist doc es s1 = (q, s2)" by force
      with typed_persist [OF s1, of doc es] have "typed s2" by simp
      with c s1 Inr es p show ?thesis
        by (cases q) (simp_all add: Process_extract_def tx_bind_def tx_return_def)
    qed
  qed
  with Inr show ?thesis by (cases "Process_extract extr job s") (simp add: handle_extract_def)
qed (simp add: handle_extract_def)

context classifier
begin

text \<open>A classifier that keeps its contract writes well-typed tokens.\<close>

lemma typed_apply:
  assumes "run tok = Inr c" and "typed s"
  shows "typed (snd (apply_result k v c s))"
  unfolding apply_result_def
proof (rule typed_WithinTx [OF keeps_apply _ assms(2)])
  fix u s s'
  assume s: "typed s" and a: "apply_body k v c s = (Inr u, s')"
  have row: "typed_token (classify_row c t x)" for t x
    using category_valid [OF assms(1)] stored_confidence [OF assms(1)] by (simp add: typed_token_def classify_row_def)
  from a show "typed s'"
    by (cases rule: apply_body_cases) (use s row in \<open>auto simp: typed_def list_all_iff\<close>)
qed

lemma typed_handle_classify: "typed s \<Longrightarrow> typed (snd (handle_classify run msg s))"
proof (cases "decode_ClassifyJob (msg_Payload msg)")
  case (Inr job)
  assume s: "typed s"
  obtain r s1 where g: "GetToken (cj_TokenID job) s = (r, s1)" by force
  then have "tbl s1 = tbl s"
    by (auto simp: GetToken_def stmt_def pop_fault_def split: if_splits sum.splits)
  with s have s1: "typed s1" by (simp add: typed_def)
  have "typed (snd (Process_classify run job s))"
  proof (cases r)
    case (Inl e)
    with g s1 show ?thesis by (simp add: Process_classify_def tx_bind_def)
  next
    case (Inr tok)
    show ?thesis
    proof (cases "run tok")
      case (Inl e)
      with g s1 \<open>r = Inr tok\<close> show ?thesis by (simp add: Process_classify_def tx_bind_def tx_return_def tx_fail_def)
    next
      case c: (Inr c)
      with typed_apply [OF c s1] g s1 \<open>r = Inr tok\<close> show ?thesis
        by (simp add: Process_classify_def tx_bind_def tx_return_def)
    qed
  qed
  with Inr show ?thesis by (cases "Process_classify run job s") (simp add: handle_classify_def)
qed (simp add: handle_classify_def)

end

text \<open>
  C34. Classified tokens are well typed, whichever classifier the configuration selects and
  whatever its endpoint answers: a classified token has one of the five categories, a
  confidence between zero and one, a reasoning and a time, a pending one has none of these;
  every operation of the pipeline, the two workers' whole handlers included, keeps this under
  any failure.
\<close>
theorem tokens_stay_typed:
  assumes "typed s"
  shows "typed (snd (handle_classify (chosen_Classify (NewClassifier cfg) henv cancelled) msg s)) \<and>
     typed (snd (handle_extract extr msg s)) \<and> typed (snd (Submit i x mode s)) \<and>
     typed (snd (drainBatch locked n s)) \<and> typed (snd (MarkFailed i s))"
  using chosen.typed_handle_classify [OF assms] typed_handle_extract [OF assms] typed_Submit [OF assms]
    typed_drainBatch [OF assms] typed_MarkFailed [OF assms] by blast

text \<open>
  Two pending tokens and a message for the second: the rule-based classifier, which the default
  configuration selects, classifies it, and the first stays pending.
\<close>

definition second_token_message :: Message where
  "second_token_message = \<lparr>msg_Key = ''2'',
     msg_Payload = marshal_ClassifyJob \<lparr>cj_TokenID = 2, cj_DocumentID = ''d'', cj_RunVersion = 1\<rparr>\<rparr>"

abbreviation default_Classify :: "Token \<Rightarrow> go_error + Classification" where
  "default_Classify \<equiv> chosen_Classify (NewClassifier (read_config Map.empty)) sample_env False"

lemma sample_typed: "typed sample_persisted"
  by (simp add: typed_def sample_persisted_eq typed_new_token)

lemma second_token_result:
  "default_Classify (new_token 2 ''d'' 1 5 (sample_entity ''d'' 2)) =
     Inr \<lparr>cls_Category = CategoryUnknown, cls_Confidence = float64_of (40 / 100),
          cls_Reasoning = ''no confident signal from the token text''\<rparr>"
proof -
  have "\<exists>m. NewClassifier (read_config Map.empty) = UseMock m" by (simp add: NewClassifier_def) code_simp
  then obtain m where m: "NewClassifier (read_config Map.empty) = UseMock m" by blast
  have "classify (new_token 2 ''d'' 1 5 (sample_entity ''d'' 2)) = (CategoryUnknown, ''no confident signal from the token text'')"
    by code_simp
  then show ?thesis by (simp add: m chosen_Classify_def MockClassifier_Classify_def confidence_def)
qed

lemma second_token_handled:
  "map tok_Status (tokens (tbl (snd (handle_classify default_Classify second_token_message sample_persisted)))) =
     [TokenPending, TokenClassified]"
proof -
  have "decode_ClassifyJob (msg_Payload second_token_message) = Inr \<lparr>cj_TokenID = 2, cj_DocumentID = ''d'', cj_RunVersion = 1\<rparr>"
    unfolding second_token_message_def Message.select_convs
    by (rule classify_codec.roundtrip) (use text_ok_samples(1) in \<open>simp add: wf_ClassifyJob_def int8_ok_def text_ok_def\<close>)
  moreover have "GetToken 2 sample_persisted = (Inr (new_token 2 ''d'' 1 5 (sample_entity ''d'' 2)), sample_persisted)"
    by (simp add: GetToken_def tx_eval sample_persisted_eq new_token_def)
  moreover have "text_ok ''no confident signal from the token text''" by code_simp
  ultimately show ?thesis using second_token_result
    by (simp add: handle_classify_def Process_classify_def tx_bind_def apply_eval sample_persisted_eq new_token_def
        text_ok_samples text_ok_unknown persisted_row_def new_document_def classify_row_def)
qed

theorem tokens_stay_typed_witness:
  "typed sample_persisted \<and> map tok_Status (tokens (tbl sample_persisted)) = [TokenPending, TokenPending] \<and>
   (let s' = snd (handle_classify default_Classify second_token_message sample_persisted)
    in typed s' \<and> map tok_Status (tokens (tbl s')) = [TokenPending, TokenClassified])"
  using tokens_stay_typed [OF sample_typed] sample_typed second_token_handled
  by (simp add: sample_persisted_eq new_token_def Let_def)

end
