(* ===== verification/Services.thy ===== *)
theory Services
  imports Runtime Relay Api Nlp_Mock
begin

text \<open>
  The three programs, \<^verbatim>\<open>cmd/api\<close>, \<^verbatim>\<open>cmd/extractor\<close> and \<^verbatim>\<open>cmd/classifier\<close>: how each starts, what it
  runs and how it ends. What the processes meet outside, the environment variables, the
  databases' answers at startup, the signals and the results of the long-running calls, is a
  record and further arguments. The result is what the process did, in order, and its exit
  code; \<^verbatim>\<open>os.Exit\<close> runs no deferred call, a normal return runs them in reverse.
\<close>

record boot_env =
  bt_environ :: environment
  bt_pg_connect :: "nat \<Rightarrow> go_error option"
  bt_pg_ping :: "nat \<Rightarrow> go_error option"
  bt_pg_cancelled :: "nat \<Rightarrow> bool"
  bt_migrations :: migration_env
  bt_redis_ping :: "nat \<Rightarrow> go_error option"
  bt_redis_cancelled :: "nat \<Rightarrow> bool"

datatype event =
    LogError string go_error
  | LogInfo string
  | RelayStarted int
  | Listening string
  | ConsumersJoined string "string list"
  | Panicked
  | BrokerClosed
  | StoreClosed

text \<open>The part the three share: configuration, store, broker; an error is logged and ends the process.\<close>

definition boot :: "boot_env \<Rightarrow> (Config \<Rightarrow> RedisBroker \<Rightarrow> event list \<times> int) \<Rightarrow> event list \<times> int" where
  "boot be body =
     (case Load (bt_environ be) of
        Inl e \<Rightarrow> ([LogError ''config'' e], 1)
      | Inr cfg \<Rightarrow>
          (case NewStore (bt_pg_connect be) (bt_pg_ping be) (bt_pg_cancelled be) (bt_migrations be) of
             Some e \<Rightarrow> ([LogError ''store'' e], 1)
           | None \<Rightarrow>
               (case NewBroker cfg (bt_redis_ping be) (bt_redis_cancelled be) of
                  Inl e \<Rightarrow> ([LogError ''broker'' e], 1)
                | Inr broker \<Rightarrow> body cfg broker)))"

text \<open>
  A worker process: \<open>consume broker\<close> is what the broker's \<^verbatim>\<open>Consume\<close> returns in the end, given the
  stream, the group, the consumer's name and the handler.
\<close>

definition run_worker :: "string \<Rightarrow> string \<Rightarrow> 'h worker \<Rightarrow> string \<Rightarrow>
    (string \<Rightarrow> string \<Rightarrow> string \<Rightarrow> 'h \<Rightarrow> go_error option) \<Rightarrow> (string list \<Rightarrow> string list) \<Rightarrow> event list \<times> int" where
  "run_worker what stopped wk hostname consume finish =
     (case worker_run wk hostname consume finish of
        Some e \<Rightarrow> ([ConsumersJoined (wk_group wk) (worker_names wk hostname), LogError what e], 1)
      | None \<Rightarrow> ([ConsumersJoined (wk_group wk) (worker_names wk hostname), LogInfo stopped, BrokerClosed, StoreClosed], 0))"

type_synonym message_handler = "Message \<Rightarrow> pg \<Rightarrow> go_error option \<times> pg"

type_synonym consuming = "RedisBroker \<Rightarrow> string \<Rightarrow> string \<Rightarrow> string \<Rightarrow> message_handler \<Rightarrow> go_error option"

definition main_extractor :: "boot_env \<Rightarrow> string \<Rightarrow> consuming \<Rightarrow> (string list \<Rightarrow> string list) \<Rightarrow> event list \<times> int" where
  "main_extractor be hostname consume finish =
     boot be (\<lambda>cfg broker. run_worker ''extraction worker'' ''extractor stopped''
       (extraction_worker (handle_extract MockExtractor_Extract) (WorkerConcurrency cfg))
       hostname (consume broker) finish)"

definition main_classifier :: "boot_env \<Rightarrow> http_env \<Rightarrow> bool \<Rightarrow> string \<Rightarrow> consuming \<Rightarrow>
    (string list \<Rightarrow> string list) \<Rightarrow> event list \<times> int" where
  "main_classifier be henv cancelled hostname consume finish =
     boot be (\<lambda>cfg broker. run_worker ''classification worker'' ''classifier stopped''
       (classification_worker (handle_classify (chosen_Classify (NewClassifier cfg) henv cancelled)) (WorkerConcurrency cfg))
       hostname (consume broker) finish)"

text \<open>
  The API process. The server ends with the error \<open>served\<close> of \<^verbatim>\<open>ListenAndServe\<close>, which is
  \<open>None\<close> here for \<^verbatim>\<open>http.ErrServerClosed\<close>, what it returns after the shutdown a signal asks
  for. The relay runs in a goroutine of its own: \<open>sched\<close> is the number of things the main
  thread has done when that goroutine first runs, and \<open>None\<close> when the process is over before.
  A panic in it ends the process there and then.
\<close>

definition main_api :: "boot_env \<Rightarrow> ((nat \<Rightarrow> int set) \<times> (nat \<Rightarrow> bool)) list \<Rightarrow> pg \<Rightarrow> go_error option \<Rightarrow>
    nat option \<Rightarrow> event list \<times> int" where
  "main_api be ticks s served sched =
     boot be (\<lambda>cfg broker.
       case (case served of
               Some e \<Rightarrow> ([Listening (HTTPAddr cfg), LogError ''server'' e], 1)
             | None \<Rightarrow> ([Listening (HTTPAddr cfg), LogInfo ''api stopped'', BrokerClosed, StoreClosed], 0)) of
         (evs, code) \<Rightarrow>
           (case sched of
              None \<Rightarrow> (evs, code)
            | Some k \<Rightarrow>
                (case relay_Run (OutboxPollInterval cfg) ticks s of
                   None \<Rightarrow> (take k evs @ [Panicked], 2)
                 | Some _ \<Rightarrow> (take k evs @ RelayStarted (OutboxPollInterval cfg) # drop k evs, code))))"

section \<open>Properties\<close>

text \<open>What has been established when the shared part is over.\<close>

definition booted :: "boot_env \<Rightarrow> Config \<Rightarrow> bool" where
  "booted be cfg \<longleftrightarrow>
     Load (bt_environ be) = Inr cfg \<and>
     (\<exists>i < 10. bt_pg_connect be i = None \<and> bt_pg_ping be i = None) \<and>
     fst (Migrate (bt_migrations be)) = None \<and>
     (\<exists>i < 10. bt_redis_ping be i = None)"

lemma retry_succeeds:
  assumes "fst (retry what n outcome cancelled) = None"
  shows "\<exists>i < n. outcome i = None"
proof -
  from assms obtain i where "find (\<lambda>i. outcome i = None \<or> cancelled i) [0..<n] = Some i" "outcome i = None"
    by (auto simp: retry_def retry_from_find split: option.splits if_splits)
  then show ?thesis by (auto simp: find_Some_iff)
qed

lemma NewStore_ready:
  assumes "NewStore connect ping cancelled me = None"
  shows "(\<exists>i < 10. connect i = None \<and> ping i = None) \<and> fst (Migrate me) = None"
proof -
  from assms have "fst (retry ''postgres'' 10 (\<lambda>i. store_New (connect i) (ping i)) cancelled) = None"
    and "fst (Migrate me) = None" by (auto simp: NewStore_def split: option.splits)
  with retry_succeeds show ?thesis by (fastforce simp: store_New_def split: option.splits)
qed

lemma boot_cases:
  assumes "boot be body = (evs, code)"
  obtains (failed) what e where "evs = [LogError what e]" "code = 1"
  | (ready) cfg where "booted be cfg" "body cfg (NewRedisBroker (ClaimMinIdle cfg)) = (evs, code)"
proof (cases "Load (bt_environ be)")
  case (Inl e)
  with assms show thesis by (intro failed [of "''config''" e]) (simp_all add: boot_def)
next
  case cfg: (Inr cfg)
  show thesis
  proof (cases "NewStore (bt_pg_connect be) (bt_pg_ping be) (bt_pg_cancelled be) (bt_migrations be)")
    case (Some e)
    with assms cfg show thesis by (intro failed [of "''store''" e]) (simp_all add: boot_def)
  next
    case store: None
    show thesis
    proof (cases "fst (retry ''redis'' 10 (bt_redis_ping be) (bt_redis_cancelled be))")
      case (Some e)
      with assms cfg store show thesis by (intro failed [of "''broker''" e]) (simp_all add: boot_def NewBroker_def)
    next
      case None
      with assms cfg store have "body cfg (NewRedisBroker (ClaimMinIdle cfg)) = (evs, code)"
        by (simp add: boot_def NewBroker_def)
      moreover have "booted be cfg"
        using cfg NewStore_ready [OF store] retry_succeeds [OF None] by (simp add: booted_def)
      ultimately show thesis using ready by blast
    qed
  qed
qed

lemma booted_concurrency: "booted be cfg \<Longrightarrow> 1 \<le> WorkerConcurrency cfg"
  by (auto simp: booted_def Load_def Let_def split: if_splits)

text \<open>What a worker process has done by the time it ends.\<close>

definition worker_ended :: "boot_env \<Rightarrow> string \<Rightarrow> (Config \<Rightarrow> go_error option) \<Rightarrow> event list \<Rightarrow> int \<Rightarrow> bool" where
  "worker_ended be grp result evs code \<longleftrightarrow>
     (\<exists>what e. evs = [LogError what e] \<and> code = 1) \<or>
     (\<exists>cfg names. booted be cfg \<and> distinct names \<and> int (length names) = WorkerConcurrency cfg \<and> names \<noteq> [] \<and>
        (case result cfg of
           Some e \<Rightarrow> \<exists>what. evs = [ConsumersJoined grp names, LogError what e] \<and> code = 1
         | None \<Rightarrow> \<exists>bye. evs = [ConsumersJoined grp names, LogInfo bye, BrokerClosed, StoreClosed] \<and> code = 0))"

lemma run_worker_ended:
  assumes "boot be (\<lambda>cfg broker. run_worker what bye (wk cfg) hostname (consume broker) finish) = (evs, code)"
    and "\<And>cfg. wk_concurrency (wk cfg) = WorkerConcurrency cfg" and "\<And>cfg. wk_group (wk cfg) = grp"
  shows "worker_ended be grp (\<lambda>cfg. worker_run (wk cfg) hostname (consume (NewRedisBroker (ClaimMinIdle cfg))) finish) evs code"
  using assms(1)
proof (cases rule: boot_cases)
  case (failed what e)
  then show ?thesis by (simp add: worker_ended_def)
next
  case (ready cfg)
  let ?names = "worker_names (wk cfg) hostname"
  have names: "distinct ?names" "int (length ?names) = WorkerConcurrency cfg" "?names \<noteq> []"
    using worker_names_distinct [of "wk cfg" hostname] booted_concurrency [OF ready(1)] assms(2)
    by (auto simp flip: length_greater_0_conv)
  have "case worker_run (wk cfg) hostname (consume (NewRedisBroker (ClaimMinIdle cfg))) finish of
      Some e \<Rightarrow> evs = [ConsumersJoined grp ?names, LogError what e] \<and> code = 1
    | None \<Rightarrow> evs = [ConsumersJoined grp ?names, LogInfo bye, BrokerClosed, StoreClosed] \<and> code = 0"
    using ready(2) by (auto simp: run_worker_def assms(3) split: option.splits)
  then show ?thesis unfolding worker_ended_def
    using ready(1) names by (intro disjI2 exI [of _ cfg] exI [of _ ?names]) (auto split: option.splits)
qed

text \<open>
  C37. A worker process joins its consumer group only after the configuration was accepted, one
  of ten connection attempts reached the database, every migration went through and the broker
  answered one of ten pings; it then joins under as many different names as configured, at
  least one. It exits 0 when its consumers all ended without an error, and then closes the
  broker and the store; otherwise it exits 1 after logging one error and closes nothing.
\<close>
theorem worker_process:
  "(case main_extractor be hostname consume finish of
      (evs, code) \<Rightarrow> worker_ended be GroupExtract
        (\<lambda>cfg. worker_run (extraction_worker (handle_extract MockExtractor_Extract) (WorkerConcurrency cfg))
           hostname (consume (NewRedisBroker (ClaimMinIdle cfg))) finish) evs code) \<and>
   (case main_classifier be henv cancelled hostname consume finish of
      (evs, code) \<Rightarrow> worker_ended be GroupClassify
        (\<lambda>cfg. worker_run (classification_worker (handle_classify (chosen_Classify (NewClassifier cfg) henv cancelled))
             (WorkerConcurrency cfg)) hostname (consume (NewRedisBroker (ClaimMinIdle cfg))) finish) evs code)"
proof -
  obtain evs code where e: "main_extractor be hostname consume finish = (evs, code)" by force
  obtain evs' code' where c: "main_classifier be henv cancelled hostname consume finish = (evs', code')" by force
  note ex = run_worker_ended [OF e [unfolded main_extractor_def], where grp = GroupExtract]
  note cl = run_worker_ended [OF c [unfolded main_classifier_def], where grp = GroupClassify]
  show ?thesis using ex cl by (simp add: e c extraction_worker_def classification_worker_def)
qed

text \<open>
  C38. The API process comes up as configured or not at all, however its relay's goroutine is
  scheduled: it listens only after the same startup and on the configured address, and the relay
  starts, if it does before the process ends, at the configured interval, which is positive then.
  The exit code is 0 exactly when the server was shut down, and the broker and the store are
  closed then; it is 1 when the server failed, which is logged, and nothing is closed. An
  interval that is zero or negative passes the configuration's checks: then, and only then, the
  process ends in a panic, as soon as the goroutine runs.
\<close>
theorem api_process:
  assumes "main_api be ticks s served sched = (evs, code)"
  shows "(\<exists>what e. evs = [LogError what e] \<and> code = 1) \<or>
     (\<exists>cfg. booted be cfg \<and>
        (\<forall>a. Listening a \<in> set evs \<longrightarrow> a = HTTPAddr cfg) \<and>
        (\<forall>i. RelayStarted i \<in> set evs \<longleftrightarrow> i = OutboxPollInterval cfg \<and> 0 < i \<and> sched \<noteq> None) \<and>
        (if OutboxPollInterval cfg \<le> 0 \<and> sched \<noteq> None
         then code = 2 \<and> last evs = Panicked
         else (case served of
                 None \<Rightarrow> code = 0 \<and> filter (\<lambda>ev. ev \<notin> range RelayStarted) evs =
                   [Listening (HTTPAddr cfg), LogInfo ''api stopped'', BrokerClosed, StoreClosed]
               | Some e \<Rightarrow> code = 1 \<and> filter (\<lambda>ev. ev \<notin> range RelayStarted) evs =
                   [Listening (HTTPAddr cfg), LogError ''server'' e])))"
  using assms unfolding main_api_def
proof (cases rule: boot_cases)
  case (failed what e)
  then show ?thesis by simp
next
  case (ready cfg)
  define main where "main = (case served of
      Some e \<Rightarrow> [Listening (HTTPAddr cfg), LogError ''server'' e]
    | None \<Rightarrow> [Listening (HTTPAddr cfg), LogInfo ''api stopped'', BrokerClosed, StoreClosed])"
  have main: "Panicked \<notin> set main" "RelayStarted i \<notin> set main" "Listening a \<in> set main \<longleftrightarrow> a = HTTPAddr cfg" for i a
    by (auto simp: main_def split: option.splits)
  show ?thesis
  proof (cases "OutboxPollInterval cfg \<le> 0 \<and> sched \<noteq> None")
    case True
    then obtain k where "sched = Some k" by blast
    with True ready(2) have "evs = take k main @ [Panicked] \<and> code = 2"
      by (auto simp: relay_Run_def main_def split: option.splits)
    with True ready(1) main show ?thesis by (intro disjI2 exI [of _ cfg]) (auto dest: in_set_takeD)
  next
    case False
    have main_id: "filter (\<lambda>ev. ev \<notin> range RelayStarted) main = main"
      using main(2) by (intro filter_True) auto
    have evs: "set evs = set main \<union> (if sched = None then {} else {RelayStarted (OutboxPollInterval cfg)}) \<and>
        filter (\<lambda>ev. ev \<notin> range RelayStarted) evs = main \<and> code = (if served = None then 0 else 1)"
    proof (cases sched)
      case None
      with ready(2) have "evs = main" "code = (if served = None then 0 else 1)"
        by (auto simp: main_def split: option.splits)
      with None main_id show ?thesis by simp
    next
      case (Some k)
      with False ready(2) have evs: "evs = take k main @ RelayStarted (OutboxPollInterval cfg) # drop k main"
        and code: "code = (if served = None then 0 else 1)"
        by (auto simp: relay_Run_def main_def split: option.splits)
      then have "set evs = (set (take k main) \<union> set (drop k main)) \<union> {RelayStarted (OutboxPollInterval cfg)}" by auto
      also have "set (take k main) \<union> set (drop k main) = set main" by (simp flip: set_append)
      finally have "set evs = set main \<union> {RelayStarted (OutboxPollInterval cfg)}" .
      moreover have "filter (\<lambda>ev. ev \<notin> range RelayStarted) evs = filter (\<lambda>ev. ev \<notin> range RelayStarted) (take k main @ drop k main)"
        unfolding filter_append evs by simp
      ultimately show ?thesis using Some code main_id by simp
    qed
    let ?main_evs = "filter (\<lambda>ev. ev \<notin> range RelayStarted) evs"
    have ended: "case served of
        None \<Rightarrow> code = 0 \<and> ?main_evs = [Listening (HTTPAddr cfg), LogInfo ''api stopped'', BrokerClosed, StoreClosed]
      | Some e \<Rightarrow> code = 1 \<and> ?main_evs = [Listening (HTTPAddr cfg), LogError ''server'' e]"
      using conjunct2 [OF evs] unfolding main_def by (cases served) simp_all
    have addr: "\<forall>a. Listening a \<in> set evs \<longrightarrow> a = HTTPAddr cfg"
      and started: "\<forall>i. RelayStarted i \<in> set evs \<longleftrightarrow> i = OutboxPollInterval cfg \<and> 0 < i \<and> sched \<noteq> None"
      using conjunct1 [OF evs] main False by auto
    show ?thesis
      by (intro disjI2 exI [of _ cfg] conjI ready(1) addr started) (unfold if_not_P [OF False], rule ended)
  qed
qed

text \<open>An environment in which everything answers, and one setting of the interval.\<close>

definition good_boot :: "environment \<Rightarrow> boot_env" where
  "good_boot e =
     \<lparr>bt_environ = e, bt_pg_connect = (\<lambda>_. None), bt_pg_ping = (\<lambda>i. if i = 0 then Some ErrDB else None),
      bt_pg_cancelled = (\<lambda>_. False),
      bt_migrations = \<lparr>mig_Acquire = None, mig_ReadDir = Inr [(''0001_init.sql'', False)],
        mig_ReadFile = (\<lambda>n. Inr n), mig_Exec = (\<lambda>_. None)\<rparr>,
      bt_redis_ping = (\<lambda>_. None), bt_redis_cancelled = (\<lambda>_. False)\<rparr>"

lemma good_boot_ready: "Load e = Inr cfg \<Longrightarrow> boot (good_boot e) body = body cfg (NewRedisBroker (ClaimMinIdle cfg))"
  by (simp add: boot_def good_boot_def NewStore_def NewBroker_def retry_def numeral_eq_Suc store_New_def
      Migrate_def migration_names_def HasSuffix_def)

theorem api_process_witness:
  "(let (evs, code) = main_api (good_boot [''OUTBOX_POLL_INTERVAL'' \<mapsto> ''0s'']) [] (empty_db 5 []) None (Some 1)
    in code = 2 \<and> last evs = Panicked \<and> length evs = 2) \<and>
   (\<exists>cfg. booted (good_boot [''OUTBOX_POLL_INTERVAL'' \<mapsto> ''0s'']) cfg \<and>
      fst (main_api (good_boot [''OUTBOX_POLL_INTERVAL'' \<mapsto> ''0s'']) [] (empty_db 5 []) None None) =
        [Listening (HTTPAddr cfg), LogInfo ''api stopped'', BrokerClosed, StoreClosed])"
proof -
  let ?e = "[''OUTBOX_POLL_INTERVAL'' \<mapsto> ''0s'']"
  from zero_interval_loads obtain cfg where cfg: "Load ?e = Inr cfg" "OutboxPollInterval cfg = 0" by blast
  then have m: "main_api (good_boot ?e) [] (empty_db 5 []) None (Some 1) = ([Listening (HTTPAddr cfg), Panicked], 2)"
    "main_api (good_boot ?e) [] (empty_db 5 []) None None =
       ([Listening (HTTPAddr cfg), LogInfo ''api stopped'', BrokerClosed, StoreClosed], 0)"
    by (simp_all add: main_api_def good_boot_ready relay_Run_def)
  from api_process [OF m(1)] obtain c where c: "booted (good_boot ?e) c" by auto
  then have "c = cfg" using cfg(1) by (simp add: booted_def good_boot_def)
  with c show ?thesis using m by auto
qed

end
