(* ===== verification/Sql_Rows.thy ===== *)
theory Sql_Rows
  imports Store "HOL-Library.Monad_Syntax"
begin

text \<open>
  Between the tables and the program's values: the column lists of the queries, the scan
  functions that read a row into a struct, and the token query that \<^verbatim>\<open>ListTokens\<close> puts
  together from its filter. The statements of \<open>Store\<close> return whole records; here it is shown
  that this is what the columns and scans amount to.
\<close>

section \<open>Rows\<close>

text \<open>A value of a column: \<^verbatim>\<open>NULL\<close>, a number, a text, a \<^verbatim>\<open>REAL\<close>, a time, bytes.\<close>

datatype sql = SNull | SInt int | SText string | SReal float64 | STime time | SBytes string

definition nullable :: "('a \<Rightarrow> sql) \<Rightarrow> 'a option \<Rightarrow> sql" where
  "nullable f x = (case x of None \<Rightarrow> SNull | Some a \<Rightarrow> f a)"

text \<open>The columns of the three tables, as the schema names them.\<close>

definition document_columns :: "Document \<Rightarrow> (string \<times> sql) list" where
  "document_columns d =
     [(''id'', SText (doc_ID d)), (''text'', SText (doc_Text d)), (''content_hash'', SText (doc_ContentHash d)),
      (''status'', SText (doc_Status d)), (''run_version'', SInt (doc_RunVersion d)),
      (''total_tokens'', SInt (doc_TotalTokens d)), (''classified_count'', SInt (doc_ClassifiedCount d)),
      (''extraction_started_at'', nullable STime (ExtractionStartedAt d)),
      (''extraction_completed_at'', nullable STime (ExtractionCompletedAt d)),
      (''classification_started_at'', nullable STime (ClassificationStartedAt d)),
      (''classification_completed_at'', nullable STime (ClassificationCompletedAt d)),
      (''created_at'', STime (doc_CreatedAt d)), (''updated_at'', STime (doc_UpdatedAt d))]"

definition token_columns :: "Token \<Rightarrow> (string \<times> sql) list" where
  "token_columns t =
     [(''id'', SInt (tok_ID t)), (''document_id'', SText (tok_DocumentID t)), (''run_version'', SInt (tok_RunVersion t)),
      (''text'', SText (tok_Text t)), (''context'', SText (tok_Context t)), (''page'', SInt (Page (tok_Position t))),
      (''sentence'', SInt (Sentence (tok_Position t))), (''char_offset'', SInt (CharOffset (tok_Position t))),
      (''status'', SText (tok_Status t)), (''classification'', nullable SText (tok_Classification t)),
      (''confidence'', nullable SReal (tok_Confidence t)), (''reasoning'', nullable SText (tok_Reasoning t)),
      (''created_at'', STime (tok_CreatedAt t)), (''classified_at'', nullable STime (tok_ClassifiedAt t))]"

definition outbox_columns :: "OutboxRow \<Rightarrow> (string \<times> sql) list" where
  "outbox_columns r =
     [(''id'', SInt (obx_ID r)), (''stream'', SText (obx_Stream r)), (''msg_key'', SText (obx_Key r)),
      (''payload'', SBytes (obx_Payload r))]"

text \<open>\<^verbatim>\<open>SELECT\<close> of a list of columns; a name the table does not have makes the query fail.\<close>

fun select_columns :: "string list \<Rightarrow> (string \<times> sql) list \<Rightarrow> sql list option" where
  "select_columns [] row = Some []"
| "select_columns (c # cs) row =
     (case map_of row c of
        None \<Rightarrow> None
      | Some v \<Rightarrow> map_option (Cons v) (select_columns cs row))"

section \<open>Scanning\<close>

text \<open>
  \<^verbatim>\<open>row.Scan\<close> into a target of a type: a number into an integer, a text into a string, and so
  on; \<^verbatim>\<open>NULL\<close> only into a pointer. Everything else is an error.
\<close>

definition scan_int :: "sql \<Rightarrow> int option" where
  "scan_int v = (case v of SInt n \<Rightarrow> Some n | _ \<Rightarrow> None)"

definition scan_text :: "sql \<Rightarrow> string option" where
  "scan_text v = (case v of SText x \<Rightarrow> Some x | _ \<Rightarrow> None)"

definition scan_real :: "sql \<Rightarrow> float64 option" where
  "scan_real v = (case v of SReal x \<Rightarrow> Some x | _ \<Rightarrow> None)"

definition scan_time :: "sql \<Rightarrow> time option" where
  "scan_time v = (case v of STime x \<Rightarrow> Some x | _ \<Rightarrow> None)"

definition scan_bytes :: "sql \<Rightarrow> string option" where
  "scan_bytes v = (case v of SBytes x \<Rightarrow> Some x | _ \<Rightarrow> None)"

definition scan_ptr :: "(sql \<Rightarrow> 'a option) \<Rightarrow> sql \<Rightarrow> 'a option option" where
  "scan_ptr f v = (if v = SNull then Some None else map_option Some (f v))"

text \<open>The column lists and scan functions, in the order of the code.\<close>

definition docColumns :: "string list" where
  "docColumns = [''id'', ''text'', ''content_hash'', ''status'', ''run_version'', ''total_tokens'', ''classified_count'',
     ''extraction_started_at'', ''extraction_completed_at'',
     ''classification_started_at'', ''classification_completed_at'',
     ''created_at'', ''updated_at'']"

definition scanDocument :: "sql list \<Rightarrow> Document option" where
  "scanDocument row =
     (case row of
        [c1, c2, c3, c4, c5, c6, c7, c8, c9, c10, c11, c12, c13] \<Rightarrow> do {
          i \<leftarrow> scan_text c1; x \<leftarrow> scan_text c2; h \<leftarrow> scan_text c3; st \<leftarrow> scan_text c4;
          v \<leftarrow> scan_int c5; n \<leftarrow> scan_int c6; k \<leftarrow> scan_int c7;
          es \<leftarrow> scan_ptr scan_time c8; ec \<leftarrow> scan_ptr scan_time c9;
          cs \<leftarrow> scan_ptr scan_time c10; cc \<leftarrow> scan_ptr scan_time c11;
          cr \<leftarrow> scan_time c12; up \<leftarrow> scan_time c13;
          Some \<lparr>doc_ID = i, doc_Text = x, doc_ContentHash = h, doc_Status = st, doc_RunVersion = v,
                doc_TotalTokens = n, doc_ClassifiedCount = k,
                ExtractionStartedAt = es, ExtractionCompletedAt = ec,
                ClassificationStartedAt = cs, ClassificationCompletedAt = cc,
                doc_CreatedAt = cr, doc_UpdatedAt = up\<rparr> }
      | _ \<Rightarrow> None)"

definition tokenColumns :: "string list" where
  "tokenColumns = [''id'', ''document_id'', ''run_version'', ''text'', ''context'',
     ''page'', ''sentence'', ''char_offset'', ''status'', ''classification'', ''confidence'', ''reasoning'',
     ''created_at'', ''classified_at'']"

text \<open>The category goes through a string pointer of its own; a null leaves the field nil.\<close>

definition scanToken :: "sql list \<Rightarrow> Token option" where
  "scanToken row =
     (case row of
        [c1, c2, c3, c4, c5, c6, c7, c8, c9, c10, c11, c12, c13, c14] \<Rightarrow> do {
          i \<leftarrow> scan_int c1; did \<leftarrow> scan_text c2; v \<leftarrow> scan_int c3; x \<leftarrow> scan_text c4; ctx \<leftarrow> scan_text c5;
          pg \<leftarrow> scan_int c6; sn \<leftarrow> scan_int c7; off \<leftarrow> scan_int c8;
          st \<leftarrow> scan_text c9; class \<leftarrow> scan_ptr scan_text c10;
          conf \<leftarrow> scan_ptr scan_real c11; reason \<leftarrow> scan_ptr scan_text c12;
          cr \<leftarrow> scan_time c13; cl \<leftarrow> scan_ptr scan_time c14;
          Some \<lparr>tok_ID = i, tok_DocumentID = did, tok_RunVersion = v, tok_Text = x, tok_Context = ctx,
                tok_Position = \<lparr>Page = pg, Sentence = sn, CharOffset = off\<rparr>,
                tok_Status = st,
                tok_Classification = (case class of None \<Rightarrow> None | Some c \<Rightarrow> Some c),
                tok_Confidence = conf, tok_Reasoning = reason, tok_CreatedAt = cr, tok_ClassifiedAt = cl\<rparr> }
      | _ \<Rightarrow> None)"

definition outboxColumns :: "string list" where
  "outboxColumns = [''id'', ''stream'', ''msg_key'', ''payload'']"

definition scanOutbox :: "sql list \<Rightarrow> OutboxRow option" where
  "scanOutbox row =
     (case row of
        [c1, c2, c3, c4] \<Rightarrow> do {
          i \<leftarrow> scan_int c1; s \<leftarrow> scan_text c2; k \<leftarrow> scan_text c3; p \<leftarrow> scan_bytes c4;
          Some \<lparr>obx_ID = i, obx_Stream = s, obx_Key = k, obx_Payload = p\<rparr> }
      | _ \<Rightarrow> None)"

lemmas scan_defs = scan_int_def scan_text_def scan_real_def scan_time_def scan_bytes_def

lemma scan_nullable:
  "(\<And>a. f (g a) = Some a) \<Longrightarrow> (\<And>a. g a \<noteq> SNull) \<Longrightarrow> scan_ptr f (nullable g x) = Some x"
  by (cases x) (simp_all add: scan_ptr_def nullable_def)

lemma scan_column [simp]:
  "scan_int (SInt n) = Some n" "scan_text (SText x) = Some x" "scan_time (STime t) = Some t" "scan_bytes (SBytes x) = Some x"
  "scan_ptr scan_time (nullable STime t') = Some t'" "scan_ptr scan_text (nullable SText x') = Some x'"
  "scan_ptr scan_real (nullable SReal r') = Some r'"
  by (simp_all add: scan_defs scan_nullable)

lemma scan_document: "Option.bind (select_columns docColumns (document_columns d)) scanDocument = Some d"
  by (simp add: docColumns_def document_columns_def scanDocument_def)

lemma scan_token: "Option.bind (select_columns tokenColumns (token_columns t)) scanToken = Some t"
  by (simp add: tokenColumns_def token_columns_def scanToken_def split: option.split)

lemma scan_outbox: "Option.bind (select_columns outboxColumns (outbox_columns r)) scanOutbox = Some r"
  by (simp add: outboxColumns_def outbox_columns_def scanOutbox_def)

text \<open>Several rows, as \<^verbatim>\<open>pgx.CollectRows\<close> reads them.\<close>

definition CollectRows :: "('r \<Rightarrow> (string \<times> sql) list) \<Rightarrow> string list \<Rightarrow> (sql list \<Rightarrow> 'a option) \<Rightarrow> 'r list \<Rightarrow> 'a list option" where
  "CollectRows columns names scan rows = those (map (\<lambda>r. Option.bind (select_columns names (columns r)) scan) rows)"

lemma those_Some: "(\<And>r. r \<in> set rs \<Longrightarrow> f r = Some r) \<Longrightarrow> those (map f rs) = Some rs"
  by (induction rs) simp_all

section \<open>The token query\<close>

text \<open>
  \<^verbatim>\<open>ListTokens\<close> writes its query as it goes: every optional condition appends a parameter and a
  clause that refers to it by its number, which is the number of parameters so far. The result
  is the clauses of \<^verbatim>\<open>WHERE\<close>, what follows \<^verbatim>\<open>LIMIT\<close> and \<^verbatim>\<open>OFFSET\<close>, if anything does, and the parameters.
\<close>

record token_query =
  q_args :: "sql list"
  q_where :: "string list"
  q_limit :: "string option"
  q_offset :: "string option"

definition placeholder :: "sql list \<Rightarrow> string" where
  "placeholder args = CHR ''$'' # FormatInt (int (length args))"

definition add_clause :: "string \<Rightarrow> sql \<Rightarrow> token_query \<Rightarrow> token_query" where
  "add_clause clause val q =
     (let args = q_args q @ [val]
      in q\<lparr>q_args := args, q_where := q_where q @ [clause @ '' '' @ placeholder args]\<rparr>)"

definition current_run :: string where
  "current_run = ''run_version = (SELECT run_version FROM documents WHERE id = $1)''"

definition token_conditions :: "string \<Rightarrow> TokenFilter \<Rightarrow> token_query" where
  "token_conditions docID f =
     (let q0 = \<lparr>q_args = [SText docID], q_where = [''document_id = $1'', current_run], q_limit = None, q_offset = None\<rparr>;
          q1 = (case flt_Classification f of None \<Rightarrow> q0 | Some c \<Rightarrow> add_clause ''classification ='' (SText c) q0);
          q2 = (case flt_Status f of None \<Rightarrow> q1 | Some st \<Rightarrow> add_clause ''status ='' (SText st) q1)
      in case flt_Page f of None \<Rightarrow> q2 | Some p \<Rightarrow> add_clause ''page ='' (SInt p) q2)"

definition token_query_of :: "string \<Rightarrow> TokenFilter \<Rightarrow> token_query" where
  "token_query_of docID f =
     (let q = token_conditions docID f;
          q' = (if 0 < flt_Limit f
                then (let args = q_args q @ [SInt (flt_Limit f)] in q\<lparr>q_args := args, q_limit := Some (placeholder args)\<rparr>)
                else q)
      in if 0 < flt_Offset f
         then (let args = q_args q' @ [SInt (flt_Offset f)] in q'\<lparr>q_args := args, q_offset := Some (placeholder args)\<rparr>)
         else q')"

text \<open>The text that is sent, up to the white space inside the column list.\<close>

fun join_strings :: "string \<Rightarrow> string list \<Rightarrow> string" where
  "join_strings sep [] = []"
| "join_strings sep [x] = x"
| "join_strings sep (x # y # xs) = x @ sep @ join_strings sep (y # xs)"

definition query_text :: "token_query \<Rightarrow> string" where
  "query_text q =
     ''SELECT '' @ join_strings '', '' tokenColumns @ '' FROM tokens WHERE '' @ join_strings '' AND '' (q_where q) @ '' ORDER BY id'' @
     (case q_limit q of None \<Rightarrow> [] | Some p \<Rightarrow> '' LIMIT '' @ p) @
     (case q_offset q of None \<Rightarrow> [] | Some p \<Rightarrow> '' OFFSET '' @ p)"

lemma sample_query_text:
  "query_text (token_query_of ''d'' \<lparr>flt_Classification = Some ''PERSON'', flt_Status = None, flt_Page = Some 2,
       flt_Limit = 10, flt_Offset = 0\<rparr>) =
   ''SELECT id, document_id, run_version, text, context, page, sentence, char_offset, status, classification, '' @
   ''confidence, reasoning, created_at, classified_at FROM tokens WHERE document_id = $1 AND '' @
   ''run_version = (SELECT run_version FROM documents WHERE id = $1) AND classification = $2 AND page = $3 '' @
   ''ORDER BY id LIMIT $4''"
  by code_simp

text \<open>
  What the server makes of it: a placeholder is the parameter with its number, a condition
  compares a column with one (a comparison with \<^verbatim>\<open>NULL\<close> never holds), the version condition
  looks the document of the first parameter up; the rows come in the order of their ids,
  without the first \<^verbatim>\<open>OFFSET\<close>, at most \<^verbatim>\<open>LIMIT\<close>.
\<close>

definition argument :: "sql list \<Rightarrow> string \<Rightarrow> sql option" where
  "argument args p =
     (case p of
        [] \<Rightarrow> None
      | c # ds \<Rightarrow>
          (case (if c = CHR ''$'' then parse_digits ds else None) of
             Some n \<Rightarrow> if 1 \<le> n \<and> n \<le> length args then Some (args ! (n - 1)) else None
           | None \<Rightarrow> None))"

definition condition_holds :: "tables \<Rightarrow> sql list \<Rightarrow> Token \<Rightarrow> string \<Rightarrow> bool" where
  "condition_holds tb args t c =
     (if c = current_run then
        (case argument args ''$1'' of
           Some (SText i) \<Rightarrow> (case documents tb i of
                                Some d \<Rightarrow> map_of (token_columns t) ''run_version'' = Some (SInt (doc_RunVersion d))
                              | None \<Rightarrow> False)
         | _ \<Rightarrow> False)
      else (let col = takeWhile (\<lambda>x. x \<noteq> CHR 0x20) c; rest = drop (length col) c
            in take 3 rest = '' = '' \<and>
               (case (map_of (token_columns t) col, argument args (drop 3 rest)) of
                  (Some v, Some a) \<Rightarrow> v = a \<and> v \<noteq> SNull
                | _ \<Rightarrow> False)))"

definition bound :: "sql list \<Rightarrow> string option \<Rightarrow> nat \<Rightarrow> nat" where
  "bound args p n =
     (case p of None \<Rightarrow> n
      | Some x \<Rightarrow> (case argument args x of Some (SInt k) \<Rightarrow> nat k | _ \<Rightarrow> n))"

definition run_query :: "tables \<Rightarrow> token_query \<Rightarrow> Token list" where
  "run_query tb q =
     (let rows = sort_key tok_ID (filter (\<lambda>t. list_all (condition_holds tb (q_args q) t) (q_where q)) (tokens tb))
      in take (bound (q_args q) (q_limit q) (length rows)) (drop (bound (q_args q) (q_offset q) 0) rows))"

section \<open>The query means the filter\<close>

lemma argument_placeholder [simp]:
  "argument args (placeholder ps) = (if ps \<noteq> [] \<and> length ps \<le> length args then Some (args ! (length ps - 1)) else None)"
  by (auto simp: argument_def placeholder_def FormatInt_def Suc_le_eq)

lemma argument_one: "argument (a # args) ''$1'' = Some a"
proof -
  have "parse_digits ''1'' = Some 1"
    by (simp add: parse_digits_def is_digit_def in_range_def digits_val_def digit_val_def byte_of_def)
  then show ?thesis by (simp add: argument_def)
qed

lemma condition_compare:
  assumes "CHR 0x20 \<notin> set col"
  shows "condition_holds tb args t (col @ '' = '' @ CHR ''$'' # p) =
    (case (map_of (token_columns t) col, argument args (CHR ''$'' # p)) of
       (Some v, Some a) \<Rightarrow> v = a \<and> v \<noteq> SNull | _ \<Rightarrow> False)"
proof -
  let ?c = "col @ '' = '' @ CHR ''$'' # p"
  have tw: "takeWhile (\<lambda>x. x \<noteq> CHR 0x20) (col @ CHR 0x20 # r) = col" for r
    using assms by (induction col) auto
  have "?c \<noteq> current_run"
  proof
    assume eq: "?c = current_run"
    have "col = takeWhile (\<lambda>x. x \<noteq> CHR 0x20) ?c" using tw by simp
    also have "\<dots> = ''run_version''" unfolding eq current_run_def by simp
    finally show False using eq by (simp add: current_run_def)
  qed
  moreover have "takeWhile (\<lambda>x. x \<noteq> CHR 0x20) ?c = col" using tw by simp
  moreover have "take 3 (drop (length col) ?c) = '' = ''" "drop 3 (drop (length col) ?c) = CHR ''$'' # p" by simp_all
  ultimately show ?thesis unfolding condition_holds_def Let_def by (simp only: if_False simp_thms)
qed

lemma condition_column:
  assumes "CHR 0x20 \<notin> set col" and "map_of (token_columns t) col = Some v" and "ps \<noteq> []" and "length ps \<le> length args"
  shows "condition_holds tb args t ((col @ '' ='') @ '' '' @ placeholder ps) \<longleftrightarrow> v = args ! (length ps - 1) \<and> v \<noteq> SNull"
  using condition_compare [OF assms(1), of tb args t "FormatInt (int (length ps))"] argument_placeholder [of args ps] assms(2-4)
  by (simp add: placeholder_def)

lemma condition_first:
  assumes "args \<noteq> []" and "hd args = SText i"
  shows "condition_holds tb args t ''document_id = $1'' \<longleftrightarrow> tok_DocumentID t = i"
    and "condition_holds tb args t current_run \<longleftrightarrow> (\<exists>d. documents tb i = Some d \<and> tok_RunVersion t = doc_RunVersion d)"
proof -
  have one: "argument args ''$1'' = Some (SText i)" using assms argument_one by (metis list.collapse)
  show "condition_holds tb args t ''document_id = $1'' \<longleftrightarrow> tok_DocumentID t = i"
    using condition_compare [of "''document_id''" tb args t "''1''"] one by (simp add: token_columns_def)
  show "condition_holds tb args t current_run \<longleftrightarrow> (\<exists>d. documents tb i = Some d \<and> tok_RunVersion t = doc_RunVersion d)"
    by (simp add: condition_holds_def one token_columns_def split: option.split)
qed

lemma condition_filters:
  assumes "ps \<noteq> []" and "length ps \<le> length args"
  shows "condition_holds tb args t (''classification ='' @ '' '' @ placeholder ps) \<longleftrightarrow>
      nullable SText (tok_Classification t) = args ! (length ps - 1) \<and> tok_Classification t \<noteq> None"
    and "condition_holds tb args t (''status ='' @ '' '' @ placeholder ps) \<longleftrightarrow> SText (tok_Status t) = args ! (length ps - 1)"
    and "condition_holds tb args t (''page ='' @ '' '' @ placeholder ps) \<longleftrightarrow>
      SInt (Page (tok_Position t)) = args ! (length ps - 1)"
  using condition_column [of "''classification''" t _ ps args tb] condition_column [of "''status''" t _ ps args tb]
    condition_column [of "''page''" t _ ps args tb] assms
  by (simp_all add: token_columns_def nullable_def split: option.split)

lemma conditions_hold:
  "list_all (condition_holds tb (q_args (token_conditions i f) @ xs) t) (q_where (token_conditions i f)) \<longleftrightarrow>
     (\<exists>d. documents tb i = Some d \<and> tok_DocumentID t = i \<and> tok_RunVersion t = doc_RunVersion d \<and>
        filter_ok (flt_Classification f) (tok_Classification t) \<and> filter_ok (flt_Status f) (Some (tok_Status t)) \<and>
        filter_ok (flt_Page f) (Some (Page (tok_Position t))))"
  by (cases "flt_Classification f"; cases "flt_Status f"; cases "flt_Page f")
    (auto simp: token_conditions_def add_clause_def Let_def condition_first condition_filters nth_append hd_append
       filter_ok_def nullable_def simp del: append.append_Cons split: option.splits)

lemma bound_placeholder: "bound (args @ xs) (Some (placeholder args)) n = (case last args of SInt k \<Rightarrow> nat k | _ \<Rightarrow> n)"
  if "args \<noteq> []"
  using that by (simp add: bound_def nth_append last_conv_nth split: sql.split)

lemma query_rows:
  "filter (\<lambda>t. list_all (condition_holds tb (q_args (token_conditions i f) @ xs) t) (q_where (token_conditions i f))) (tokens tb)
   = matching_tokens i f tb"
  unfolding conditions_hold by (auto simp: matching_tokens_def split: option.split intro!: filter_cong)

lemma token_conditions_open: "q_limit (token_conditions i f) = None" "q_offset (token_conditions i f) = None"
  by (simp_all add: token_conditions_def add_clause_def Let_def split: option.split)

lemma run_token_query:
  "run_query tb (token_query_of i f) = paginate (flt_Limit f) (flt_Offset f) (sort_key tok_ID (matching_tokens i f tb))"
proof -
  let ?q = "token_conditions i f"
  have none: "bound args None n = n" for args n by (simp add: bound_def)
  note rows = query_rows [of tb i f] query_rows [of tb i f "[]", simplified]
  show ?thesis
    using bound_placeholder [of "q_args ?q @ [SInt (flt_Limit f)]" "[]"]
      bound_placeholder [of "q_args ?q @ [SInt (flt_Limit f)]" "[SInt (flt_Offset f)]"]
      bound_placeholder [of "q_args ?q @ [SInt (flt_Offset f)]" "[]"]
      bound_placeholder [of "(q_args ?q @ [SInt (flt_Limit f)]) @ [SInt (flt_Offset f)]" "[]"]
    by (auto simp: token_query_of_def run_query_def Let_def token_conditions_open none rows paginate_def)
qed

section \<open>Property\<close>

text \<open>
  C19. The token query and the scans. Whatever the filter, the query that \<^verbatim>\<open>ListTokens\<close> puts together,
  with its parameters numbered as they come, selects the rows of the document's current run that
  the filter asks for, in id order and cut to the page; read back column by column, these rows
  are the tokens themselves. The other column lists and scans agree with the tables as well.
\<close>
theorem token_query_reads_back:
  "ListTokens i f =
     stmt (\<lambda>s. if text_ok i \<and> pred_option int4_ok (flt_Page f) \<and>
                  pred_option text_ok (flt_Classification f) \<and> pred_option text_ok (flt_Status f)
               then (Inr (run_query (tbl s) (token_query_of i f)), s) else (Inl ErrDB, s)) \<and>
   CollectRows token_columns tokenColumns scanToken (run_query tb (token_query_of i f)) =
     Some (paginate (flt_Limit f) (flt_Offset f) (sort_key tok_ID (matching_tokens i f tb))) \<and>
   Option.bind (select_columns docColumns (document_columns d)) scanDocument = Some d \<and>
   Option.bind (select_columns outboxColumns (outbox_columns r)) scanOutbox = Some r"
  unfolding ListTokens_def run_token_query
  by (simp add: CollectRows_def those_Some scan_token scan_document scan_outbox)

end
