(* ===== verification/Spec2Isabelle.thy ===== *)
theory Spec2Isabelle
  imports Fencing Faults End_To_End Typed_Tokens Services Sql_Rows
begin

text \<open>
  Verification of the document pipeline \<^verbatim>\<open>kob-h/docpipeline\<close> (Go, under \<^verbatim>\<open>src/\<close>).

  \<^bold>\<open>The program.\<close> Clients POST documents to the API process. The document service
  (\<^verbatim>\<open>internal/service\<close>) decides what a submission does and, in one transaction of the store
  (\<^verbatim>\<open>internal/store\<close>, PostgreSQL), writes the document row and an extract job into the outbox
  table. The relay (\<^verbatim>\<open>internal/outbox\<close>) moves outbox rows to Redis streams
  (\<^verbatim>\<open>internal/queue\<close>). Extraction workers (\<^verbatim>\<open>internal/pipeline/extractor.go\<close>) claim the
  document, run the NLP extractor (\<^verbatim>\<open>internal/nlp\<close>), store one token per entity and put one
  classify job per token into the outbox. Classification workers
  (\<^verbatim>\<open>internal/pipeline/classifier.go\<close>) run the classifier (\<^verbatim>\<open>internal/llm\<close>, a mock or a chat
  model over HTTP), store the result and count it; the last one completes the document. A full
  rerun bumps the run version, which fences late writers. Delivery is at least once.

  \<^bold>\<open>The theories\<close>, in the order they build on each other:
  \<^item> \<open>Prelude\<close>: Go's error values with \<^verbatim>\<open>errors.Is\<close>, the collections of rewrite rules
    (\<open>tx_succ\<close>, \<open>keeps_intros\<close> and others), list and option lemmas.
  \<^item> \<open>Go_Hash\<close>, \<open>Go_Float\<close>, \<open>Go_Strings\<close>, \<open>Go_Regexp\<close>, \<open>Json\<close>: what the code uses of the
    standard library: SHA-256 and FNV-1a on machine words, float64 and float32 rounding, UTF-8
    and the string functions, leftmost-first regular expressions by backtracking over a list of
    results, the JSON encoder and parser.
  \<^item> \<open>Domain\<close> (\<^verbatim>\<open>internal/domain\<close>), \<open>Queue\<close> (\<^verbatim>\<open>internal/queue/queue.go\<close>), \<open>Store\<close>
    (\<^verbatim>\<open>internal/store\<close> with the schema's constraints): the database is the record \<open>pg\<close> of three
    tables, two sequences, the clock, the faults to come and the broker's log; every SQL
    statement is a function on it, and \<open>WithinTx\<close> runs a body with commit and rollback. \<open>Sql_Rows\<close>
    goes one level down: rows as lists of column values, the column lists and scan functions, and
    the token query as \<^verbatim>\<open>ListTokens\<close> puts it together with its numbered parameters, shown to
    mean what \<open>Store\<close> says.
  \<^item> \<open>Jobs\<close> (\<^verbatim>\<open>internal/pipeline/jobs.go\<close>): the two messages with their JSON form; the locale
    \<open>job_codec\<close> is the contract between producers and consumers.
  \<^item> \<open>Tx_Laws\<close>: what each successful statement did, the locales \<open>frame_relation\<close> (what no
    statement disturbs) and \<open>unit_of_work\<close> (all or nothing), interpreted on the store.
  \<^item> \<open>Service\<close>, \<open>Extraction_Worker\<close>, \<open>Classification_Worker\<close>, \<open>Relay\<close>: one definition per
    function of the code, with a lemma that says what a successful transaction did.
  \<^item> \<open>Db_Invariant\<close>, \<open>Worker_Properties\<close>, \<open>Faults\<close>: the invariant of the tables, what each unit
    of work promises, and that faults only prevent what it does.
  \<^item> \<open>Pipeline_System\<close>, \<open>Evolution\<close>, \<open>No_Lost_Work\<close>, \<open>Scenario\<close>, \<open>Fencing\<close>: clients, relays and
    any number of workers as an inductive step relation; what every operation does to the work
    owed; the system invariant; a concrete run; what superseded messages and claims can do.
  \<^item> \<open>Completion\<close>: the way of one document, new or rerun in full, through all of it when nothing
    fails, for any extractor and classifier. \<open>Valid_Text\<close>: which operations keep UTF-8 valid, and
    that every string read from JSON is valid. \<open>Mock_Completion\<close>: the rule-based extractor's
    entities are rows the database takes, at most as many as the text has characters, and the
    rule-based classifier always answers; so \<open>Completion\<close> applies to them without a condition
    on either. \<open>End_To_End\<close>: what requests can hold and the endpoints answer; the last section
    of this theory puts these together, from the POST to the answers of both GET requests.
  \<^item> \<open>Nlp_Mock\<close>, \<open>Nlp_Properties\<close> (\<^verbatim>\<open>internal/nlp/mock.go\<close>), \<open>Llm_Mock\<close>, \<open>Ollama\<close>
    (\<^verbatim>\<open>internal/llm\<close>): the extractor and the two classifiers; the locale \<open>classifier\<close> is the
    contract of \<^verbatim>\<open>internal/llm/llm.go\<close>, interpreted on the mock, on the chat-model client and on
    the one the configuration selects.
  \<^item> \<open>Api\<close> (\<^verbatim>\<open>internal/api\<close>): request decoding, handlers, routes, access log.
  \<^item> \<open>Config\<close> (\<^verbatim>\<open>internal/config\<close>), \<open>Redis_Broker\<close> (\<^verbatim>\<open>internal/queue/redis.go\<close>), \<open>Runtime\<close>
    (\<^verbatim>\<open>internal/app\<close>, \<^verbatim>\<open>internal/pipeline/runner.go\<close>, connecting and migrating the store),
    \<open>Services\<close> (\<^verbatim>\<open>cmd\<close>): how the processes are configured, started and ended.
  \<^item> \<open>Typed_Tokens\<close>: the invariant of the token table that spans classifier and store.

  \<^bold>\<open>What is shown.\<close> Of the whole system: no work is lost in any reachable state, under
  crashes, redelivery and failing statements, and a quiet system has done all its work
  (\<open>No_Lost_Work\<close>); the workers' handlers are runs of that system (\<open>Pipeline_System\<close>); a
  submitted document ends up completed when nothing fails (\<open>Completion\<close>), and with the
  rule-based components its labels are what the API then reports (this theory). Of the
  database: keys, counters and run versions stay consistent (\<open>Db_Invariant\<close>), classified tokens
  stay well typed (\<open>Typed_Tokens\<close>), no operation commits part of its work when a statement fails
  (\<open>Faults\<close>), queries and scans read back what is
  stored (\<open>Sql_Rows\<close>). Of each component: the outcome of
  a submission on every branch, the fan-out of an extraction and its convergence, counting
  once, fencing of superseded runs (\<open>Fencing\<close>); the relay's at-least-once and in-order publishing; positions
  and order of extracted entities; validity and bounds of classifications; the retry loops; the
  answers of the API; at-least-once consumption; startup and exit of the processes. Where the
  code departs from its comments this is proved too: a document that stays in CLASSIFYING, 500
  for a missing document and for text with a zero byte, street numbers that read as years and
  so as dates, a poll interval that panics.

  \<^bold>\<open>Modelling choices.\<close>
  \<^item> Transactions are atomic steps. The code takes row locks (\<^verbatim>\<open>FOR UPDATE\<close>) on the rows it
    decides on before it writes, so its transactions on one document or token are serialised by
    the database; interleaving is at the level of transactions, reads outside them, deliveries
    and acknowledgements. \<open>WithinTx\<close> is one call of \<^verbatim>\<open>pgx.BeginFunc\<close> in the code: that an error
    rolls the tables back is that function's documented behaviour, part of the definition and
    not a result. The relay's \<^verbatim>\<open>SKIP LOCKED\<close> is an argument, the set of locked rows.
  \<^item> A statement or commit that fails is an element of the list \<open>faults\<close>, consumed one per round
    trip; \<open>FailAfter\<close> at a commit is one that took effect although an error is reported. Broker
    errors are faults of the same list.
  \<^item> The router is \<^verbatim>\<open>http.ServeMux\<close>, of which the redirect to a clean path, the decoding of
    segments and the matching of this program's patterns are modelled; the path arrives as
    \<^verbatim>\<open>net/url\<close> parsed it. The API process's relay is a goroutine: when it first runs is an argument
    of \<open>main_api\<close>.
  \<^item> Integers that reach the database are checked against the column's range; byte offsets are
    natural numbers, rune offsets integers; durations are nanoseconds.
  \<^item> Fuel and bounds. The JSON parser recurses on a bound of twice the input's length
    plus two, and beyond that more fuel changes nothing (\<open>parse_value_fuel\<close>). The consumer's loop
    runs for a number of turns that every theorem quantifies over, since it is meant to run
    until it is cancelled. The retry loops recurse on the number of attempts left, a starred
    regular expression on the length of what is left to match. The relay's drain loop is a
    function with a termination proof.
  \<^item> Go code outside the repository is an argument: the HTTP client and endpoint (\<open>http_env\<close>),
    the Redis client (\<open>client\<close>, with the behaviour of pending entries as \<open>stream_laws\<close>, satisfied
    by an instance in memory), the file system and round trips of the migrations.

  \<^bold>\<open>Not modelled.\<close> The JSON encoding of the API's responses (the values encoded are modelled),
  log lines other than the access log, the HTTP server's connection handling and graceful
  shutdown, signal registration, closing and pinging of pools and clients beyond their
  outcome, and the texts of library errors. Tests, scripts, deployment files and documents
  contain no code of the pipeline.
\<close>

section \<open>The pipeline with its own components\<close>

text \<open>
  C3. From request to answer. A document posted to the API is accepted; once relay and workers,
  with the rule-based extractor and classifier, have worked off the messages, all of which they
  acknowledge, the status endpoint reports it completed, with as many tokens as the extractor
  finds entities, all classified, and the token endpoint lists exactly these, in id order,
  each with the label, reason and confidence of the rules. Assumed are: the invariant of the
  database, no faults, an outbox that is empty at the start, room for the rows; a body that
  decodes, with an id and a text that are not blank and hold no zero byte, and an id other than
  a single slash, which the router's wildcard never takes; and that the submission starts a run,
  which is to say that the document is new, or is posted with \<^verbatim>\<open>mode=full\<close> and its next run number
  fits the column. (A partial submission of a stored document resumes it or is not accepted.)
\<close>
theorem posted_document_is_labelled:
  assumes "db_inv s" and "faults s = []" and "outbox (tbl s) = []"
    and "rq_method r = ''POST''" and "rq_path r = [''process'']" and "decode_body (rq_body r) = Inr req"
    and "TrimSpace (pr_DocumentID req) \<noteq> []" and "TrimSpace (pr_Text req) \<noteq> []"
    and "CHR 0x00 \<notin> set (pr_DocumentID req)" and "CHR 0x00 \<notin> set (pr_Text req)" and "pr_DocumentID req \<noteq> ''/''"
    and "starts_run (pr_DocumentID req) (rerunMode req) s"
    and "room (pr_DocumentID req) (length (pr_Text req) + 1) s"
    and "i = pr_DocumentID req" and "es = Extract_entities NewMockExtractor (pr_Text req)"
  shows "\<exists>p s1 rs s2 st ts.
     serve err_text sp bp r s = (\<lparr>rsp_status = 202, rsp_body = ProcessBody p\<rparr>, s1) \<and>
     ps_Accepted p \<and> ps_Status p = DocPending \<and> ps_RunVersion p = next_version i s \<and>
     work_off MockExtractor_Extract (MockClassifier_Classify m False) s1 = (rs, s2) \<and> set rs \<subseteq> {None} \<and>
     serve err_text sp bp (status_req i) s2 = (\<lparr>rsp_status = 200, rsp_body = StatusBody st\<rparr>, s2) \<and>
     st_Status st = DocCompleted \<and>
     st_Progress st = \<lparr>pg_Classified = int (length es), pg_Total = int (length es),
                       pg_Percent = (if length es = 0 then 0 else 100)\<rparr> \<and>
     serve err_text sp bp (tokens_req i) s2 =
       (\<lparr>rsp_status = 200,
         rsp_body = TokensBody \<lparr>tr_DocumentID = i, tr_Count = int (length es), tr_Tokens = ts\<rparr>\<rparr>, s2) \<and>
     sorted (map tok_ID ts) \<and> natural_key ` set ts = entity_key i (next_version i s) ` set es \<and> list_all labelled ts"
proof -
  note ok = decoded_text_ok [OF assms(6)]
  have t: "text_ok i" "text_ok (pr_Text req)" using ok assms(9,10,14) by simp_all
  have "TrimSpace [] = []" by code_simp
  then have i: "i \<noteq> []" "i \<noteq> ''/''" using assms(7,11,14) by auto
  from mock_document_runs [OF assms(1-3,12) t [unfolded assms(14)] assms(13), of m, folded assms(14,15)]
  obtain res a rs s2 where
    sub: "Submit i (pr_Text req) (rerunMode req) s = (Inr res, a)" "Accepted res"
      "doc_Status (sub_Document res) = DocPending" "doc_RunVersion (sub_Document res) = next_version i s"
    and work: "work_off MockExtractor_Extract (MockClassifier_Classify m False) a = (rs, s2)" "set rs \<subseteq> {None}"
      "db_inv s2" "faults s2 = []" "completed_run (MockClassifier_Classify m False) i (next_version i s) es s2" by blast
  have post: "serve err_text sp bp r s = (\<lparr>rsp_status = 202, rsp_body = ProcessBody (newProcessResponse res)\<rparr>, a)"
    using assms(4-8) sub(1) by (simp add: serve_process handleProcess_def writeJSON_def assms(14))
  have lab: "\<forall>t \<in> set (tokens_of i (tokens (tbl s2))). labelled t"
    using work(5) by (auto simp: completed_run_def dest: answered_labelled)
  from work(5) obtain d where d: "documents (tbl s2) i = Some d" "doc_Status d = DocCompleted"
    "natural_key ` set (tokens_of i (tokens (tbl s2))) = entity_key i (next_version i s) ` set es"
    "doc_TotalTokens d = int (length es)" "doc_ClassifiedCount d = int (length es)"
    by (auto simp: completed_run_def assms(15) Extract_keys)
  have n: "length (tokens_of i (tokens (tbl s2))) = length es"
    using db_inv_doc [OF work(3) d(1)] d(4) by (simp add: doc_ok_def)
  have "int4_ok (int (length es))"
    using assms(13) Extract_count [of "pr_Text req"] by (simp add: room_def int4_ok_def assms(15))
  note status = completed_status [OF d(4,5) this]
  show ?thesis
    using post sub(2-4) work(1,2) serve_status [OF work(3,4) d(1) i] serve_tokens [OF work(3,4) d(1) i] status d(2,3) lab n
    by (intro exI [of _ "newProcessResponse res"] exI [of _ a] exI [of _ rs] exI [of _ s2]
          exI [of _ "newStatusResponse d"] exI [of _ "sort_key tok_ID (tokens_of i (tokens (tbl s2)))"])
       (simp add: newProcessResponse_def newStatusResponse_def list_all_iff split: prod.splits)
qed

theorem posted_document_is_labelled_witness:
  "\<exists>p s1 rs s2 st. serve (\<lambda>_. []) None None posted_req (empty_db 5 []) = (\<lparr>rsp_status = 202, rsp_body = ProcessBody p\<rparr>, s1) \<and>
     work_off MockExtractor_Extract (MockClassifier_Classify (NewMockClassifier []) False) s1 = (rs, s2) \<and> set rs \<subseteq> {None} \<and>
     serve (\<lambda>_. []) None None (status_req ''d'') s2 = (\<lparr>rsp_status = 200, rsp_body = StatusBody st\<rparr>, s2) \<and>
     st_Progress st = \<lparr>pg_Classified = 1, pg_Total = 1, pg_Percent = 100\<rparr>"
proof -
  let ?req = "\<lparr>pr_DocumentID = ''d'', pr_Text = ''Jo Fox'', pr_Mode = []\<rparr>"
  have ok: "TrimSpace (pr_DocumentID ?req) \<noteq> []" "TrimSpace (pr_Text ?req) \<noteq> []"
    "CHR 0x00 \<notin> set (pr_DocumentID ?req)" "CHR 0x00 \<notin> set (pr_Text ?req)" "pr_DocumentID ?req \<noteq> ''/''" by code_simp+
  have st: "starts_run (pr_DocumentID ?req) (rerunMode ?req) (empty_db 5 [])"
    by (simp add: starts_run_def next_version_def empty_db_def int4_ok_def)
  have rm: "room (pr_DocumentID ?req) (length (pr_Text ?req) + 1) (empty_db 5 [])"
    by (simp add: room_def empty_db_def tokens_of_def int4_ok_def int8_ok_def)
  have db: "faults (empty_db 5 []) = []" "outbox (tbl (empty_db 5 [])) = []" "rq_method posted_req = ''POST''"
    "rq_path posted_req = [''process'']" by (simp_all add: empty_db_def posted_req_def rq_path_def pathUnescape_plain)
  have "\<exists>p s1 rs s2 st ts.
     serve (\<lambda>_. []) None None posted_req (empty_db 5 []) = (\<lparr>rsp_status = 202, rsp_body = ProcessBody p\<rparr>, s1) \<and>
     ps_Accepted p \<and> ps_Status p = DocPending \<and> ps_RunVersion p = next_version ''d'' (empty_db 5 []) \<and>
     work_off MockExtractor_Extract (MockClassifier_Classify (NewMockClassifier []) False) s1 = (rs, s2) \<and> set rs \<subseteq> {None} \<and>
     serve (\<lambda>_. []) None None (status_req ''d'') s2 = (\<lparr>rsp_status = 200, rsp_body = StatusBody st\<rparr>, s2) \<and>
     st_Status st = DocCompleted \<and>
     st_Progress st = \<lparr>pg_Classified = int (length [sample_entity]), pg_Total = int (length [sample_entity]),
                       pg_Percent = (if length [sample_entity] = 0 then 0 else 100)\<rparr> \<and>
     serve (\<lambda>_. []) None None (tokens_req ''d'') s2 =
       (\<lparr>rsp_status = 200, rsp_body =
           TokensBody \<lparr>tr_DocumentID = ''d'', tr_Count = int (length [sample_entity]), tr_Tokens = ts\<rparr>\<rparr>, s2) \<and>
     sorted (map tok_ID ts) \<and>
     natural_key ` set ts = entity_key ''d'' (next_version ''d'' (empty_db 5 [])) ` set [sample_entity] \<and> list_all labelled ts"
    by (rule posted_document_is_labelled [OF empty_db_inv db posted_body ok st rm]) (simp_all add: posted_extracted)
  then show ?thesis by auto
qed

text \<open>A full rerun of a stored document with the pipeline's own extractor and classifier.\<close>

theorem document_completes_witness:
  "\<exists>rs s' d. run_document MockExtractor_Extract (MockClassifier_Classify (NewMockClassifier []) False)
       ''d'' ''Jo Fox'' RerunFull sample_db = (rs, s') \<and> set rs \<subseteq> {None} \<and>
     documents (tbl s') ''d'' = Some d \<and> doc_Status d = DocCompleted \<and> doc_TotalTokens d = 1 \<and>
     natural_key ` set (tokens_of ''d'' (tokens (tbl s'))) = {(''d'', 2, 0, 0, ''Jo Fox'')}"
proof -
  let ?e = sample_entity
  have db: "faults sample_db = []" "outbox (tbl sample_db) = []" "tokens_of ''d'' (tokens (tbl sample_db)) = []"
    "next_version ''d'' sample_db = 2"
    by (simp_all add: sample_db_def empty_db_def tokens_of_def next_version_def new_document_def)
  have st: "starts_run ''d'' RerunFull sample_db" by (simp add: starts_run_def db int4_ok_def)
  have tx: "text_ok ''d''" "text_ok ''Jo Fox''" by code_simp+
  have rm: "room ''d'' (length [?e] + 1) sample_db"
    by (simp add: room_def db) (simp add: sample_db_def empty_db_def int4_ok_def int8_ok_def)
  have ex: "\<forall>d. doc_ID d = ''d'' \<and> doc_Text d = ''Jo Fox'' \<longrightarrow> MockExtractor_Extract d = Inr [?e]"
    by (simp add: MockExtractor_Extract_def posted_extracted)
  have es: "list_all storable [?e]" using tx(2) by (simp add: storable_def sample_entity_def int4_ok_def)
  from document_completes [OF sample_db_inv db(1,2) st tx rm ex es mock_answers, of "NewMockClassifier []"]
  show ?thesis by (auto simp: db(4) entity_key_def sample_entity_def)
qed

end
